(* ===== verification/Prelude.thy ===== *)
theory Prelude
  imports Main "HOL-Library.Word"
begin

text \<open>
  The prelude of the development: the machine types of the firmware, the C idioms
  the components share (counters, bounded buffers, little scratch arrays) and the
  generic lemmas about words and lists that the component proofs rest on.

  A C \<open>uint8_t\<close>, \<open>uint16_t\<close>, \<open>uint32_t\<close>, \<open>uint64_t\<close> is a word of that width, so that
  \<open>+\<close>, \<open>-\<close> and \<open>*\<close> wrap as they do on the target.  A C array is a list; a byte
  range is copied with \<open>put_at\<close> (\<open>memcpy\<close>) and read with \<open>get_at\<close>.
\<close>

unbundle bit_operations_syntax

type_synonym u8 = "8 word"
type_synonym u16 = "16 word"
type_synonym u32 = "32 word"
type_synonym u64 = "64 word"

named_theorems frame_simps \<open>fields an operation leaves alone\<close>
named_theorems unat_simps \<open>reading machine arithmetic as natural numbers\<close>

section \<open>Byte buffers\<close>

definition put_at :: "nat \<Rightarrow> 'a list \<Rightarrow> 'a list \<Rightarrow> 'a list" where
  "put_at off bytes buf = take off buf @ bytes @ drop (off + length bytes) buf"

definition get_at :: "nat \<Rightarrow> nat \<Rightarrow> 'a list \<Rightarrow> 'a list" where
  "get_at off n buf = take n (drop off buf)"

definition fit :: "nat \<Rightarrow> u8 list \<Rightarrow> u8 list" where
  "fit n bs = take n (bs @ replicate n 0)"

lemma length_fit [simp]: "length (fit n bs) = n"
  by (simp add: fit_def)

lemma fit_id [simp]: "length bs = n \<Longrightarrow> fit n bs = bs"
  by (simp add: fit_def)

lemma length_put_at [simp]:
  "off + length bytes \<le> length buf \<Longrightarrow> length (put_at off bytes buf) = length buf"
  by (simp add: put_at_def)

lemma nth_put_at:
  assumes "off + length bytes \<le> length buf" "i < length buf"
  shows "put_at off bytes buf ! i =
    (if off \<le> i \<and> i < off + length bytes then bytes ! (i - off) else buf ! i)"
proof -
  consider "i < off" | "off \<le> i" "i < off + length bytes" | "off + length bytes \<le> i" by linarith
  then show ?thesis
    using assms by cases (auto simp: put_at_def nth_append)
qed

lemma nth_put_at_out [simp]:
  "off + length bytes \<le> length buf \<Longrightarrow> i < length buf \<Longrightarrow> i < off \<or> off + length bytes \<le> i \<Longrightarrow>
   put_at off bytes buf ! i = buf ! i"
  by (auto simp: nth_put_at)

lemma length_get_at [simp]: "off + n \<le> length buf \<Longrightarrow> length (get_at off n buf) = n"
  by (simp add: get_at_def)

lemma nth_get_at [simp]:
  "off + n \<le> length buf \<Longrightarrow> i < n \<Longrightarrow> get_at off n buf ! i = buf ! (off + i)"
  by (simp add: get_at_def)

lemma get_at_put_at_same:
  "off + length bytes \<le> length buf \<Longrightarrow> n = length bytes \<Longrightarrow>
   get_at off n (put_at off bytes buf) = bytes"
  by (simp add: get_at_def put_at_def)

lemma get_at_put_at_other:
  assumes "off + length bytes \<le> length buf" "off' + n \<le> length buf"
    and "off' + n \<le> off \<or> off + length bytes \<le> off'"
  shows "get_at off' n (put_at off bytes buf) = get_at off' n buf"
proof (rule nth_equalityI)
  show "length (get_at off' n (put_at off bytes buf)) = length (get_at off' n buf)"
    using assms by simp
next
  fix i assume "i < length (get_at off' n (put_at off bytes buf))"
  then have "i < n" using assms by simp
  then show "get_at off' n (put_at off bytes buf) ! i = get_at off' n buf ! i"
    using assms by (cases "off' + n \<le> off") (auto simp: nth_put_at)
qed

section \<open>Counters and maxima\<close>

text \<open>\<open>field++\<close> and \<open>field += n\<close> on a record field given by its update function.\<close>

abbreviation (input) inc :: "((u32 \<Rightarrow> u32) \<Rightarrow> 'r \<Rightarrow> 'r) \<Rightarrow> 'r \<Rightarrow> 'r" where
  "inc upd \<equiv> upd (\<lambda>n. n + 1)"

abbreviation (input) incat :: "((u32 list \<Rightarrow> u32 list) \<Rightarrow> 'r \<Rightarrow> 'r) \<Rightarrow> nat \<Rightarrow> 'r \<Rightarrow> 'r" where
  "incat upd i \<equiv> upd (\<lambda>xs. xs[i := xs ! i + 1])"

abbreviation (input) setf :: "(('v \<Rightarrow> 'v) \<Rightarrow> 'r \<Rightarrow> 'r) \<Rightarrow> 'v \<Rightarrow> 'r \<Rightarrow> 'r" where
  "setf upd v \<equiv> upd (\<lambda>_. v)"

section \<open>Sums over arrays of counters\<close>

lemma sum_list_upd_add:
  fixes xs :: "'a::comm_monoid_add list"
  assumes "i < length xs"
  shows "sum_list (xs[i := xs ! i + x]) = sum_list xs + x"
proof -
  have e: "xs = take i xs @ xs ! i # drop (Suc i) xs" using assms by (simp add: id_take_nth_drop)
  have "xs[i := xs ! i + x] = take i xs @ (xs ! i + x) # drop (Suc i) xs"
    using assms by (simp add: upd_conv_take_nth_drop)
  moreover have "sum_list xs = sum_list (take i xs) + (xs ! i + sum_list (drop (Suc i) xs))"
    by (subst e) simp
  ultimately show ?thesis by (simp add: ac_simps)
qed

lemma sum_list_replicate_0 [simp]: "sum_list (replicate n (0 :: 'a::comm_monoid_add)) = 0"
  by (induction n) simp_all

section \<open>Words read as naturals\<close>

lemma unat_add_no_wrap [unat_simps]:
  fixes x y :: "'a::len word"
  shows "unat x + unat y < 2 ^ LENGTH('a) \<Longrightarrow> unat (x + y) = unat x + unat y"
  by (simp add: unat_word_ariths)

lemma unat_add_32:
  fixes x y :: u32
  shows "unat x + unat y < 4294967296 \<Longrightarrow> unat (x + y) = unat x + unat y"
  by (simp add: unat_add_no_wrap)

lemma unat_diff_le [unat_simps]:
  fixes x y :: "'a::len word"
  shows "y \<le> x \<Longrightarrow> unat (x - y) = unat x - unat y"
  by (rule unat_sub)

lemma unat_add_le:
  fixes x y :: "'a::len word"
  assumes "x \<le> x + y"
  shows "unat (x + y) = unat x + unat y"
  using assms by (simp add: unat_plus_simple)

lemma unat_lt_32: "unat (x :: u32) < 4294967296"
proof -
  have "unat x < 2 ^ LENGTH(32)" by (rule unsigned_less)
  moreover have "(2 :: nat) ^ LENGTH(32) = 4294967296" by simp
  ultimately show ?thesis by linarith
qed

lemma unat_lt_16: "unat (x :: u16) < 65536"
  using unsigned_less [of x, where ?'a = nat] by (simp del: unsigned_less)

lemma unat_lt_8: "unat (x :: u8) < 256"
  using unsigned_less [of x, where ?'a = nat] by (simp del: unsigned_less)

lemma unat_ucast_16_32 [simp]: "unat (ucast (x :: u16) :: u32) = unat x"
  using unat_lt_16 [of x] by (simp add: unsigned_ucast_eq take_bit_nat_eq_self_iff)

lemma unat_ucast_8_32 [simp]: "unat (ucast (x :: u8) :: u32) = unat x"
  using unat_lt_8 [of x] by (simp add: unsigned_ucast_eq take_bit_nat_eq_self_iff)

lemma unat_ucast_32_64 [simp]: "unat (ucast (x :: u32) :: u64) = unat x"
  using unat_lt_32 [of x] by (simp add: unsigned_ucast_eq take_bit_nat_eq_self_iff)

lemma ucast_8_32_inj [simp]: "(ucast a :: u32) = ucast b \<longleftrightarrow> a = (b :: u8)"
  by (metis unat_ucast_8_32 unsigned_word_eqI)

lemma unat_ucast_32_16: "unat (x :: u32) < 65536 \<Longrightarrow> unat (ucast x :: u16) = unat x"
  by (simp add: unsigned_ucast_eq take_bit_nat_eq_self_iff)

lemma unat_ucast_32_8: "unat (x :: u32) < 256 \<Longrightarrow> unat (ucast x :: u8) = unat x"
  by (simp add: unsigned_ucast_eq take_bit_nat_eq_self_iff)

lemma mask_255: "(255 :: 'a::len word) = mask 8"
  by (simp add: mask_eq_exp_minus_1)

lemma mask_ffffffff: "(0xFFFFFFFF :: 'a::len word) = mask 32"
  by (simp add: mask_eq_exp_minus_1)

lemma unat_and_mask:
  fixes x :: "'a::len word"
  shows "unat (x AND mask n) = unat x mod 2 ^ n"
  by (metis take_bit_eq_mask take_bit_eq_mod unsigned_take_bit_eq)

section \<open>Runs that keep an invariant\<close>

text \<open>What a component promises of its invariant, and what a client may conclude for every run.\<close>

locale invariant_run =
  fixes start :: "'s \<Rightarrow> bool" and step :: "'s \<Rightarrow> 's \<Rightarrow> bool" and inv :: "'s \<Rightarrow> bool"
  assumes inv_start: "start x \<Longrightarrow> inv x"
    and inv_step: "inv x \<Longrightarrow> step x y \<Longrightarrow> inv y"
begin

lemma inv_run:
  assumes "step\<^sup>*\<^sup>* x y" "inv x"
  shows "inv y"
  using assms by (induction rule: rtranclp_induct) (auto intro: inv_step)

lemma inv_reachable: "start x \<Longrightarrow> step\<^sup>*\<^sup>* x y \<Longrightarrow> inv y"
  using inv_run inv_start by blast

end

end
