(* ===== verification/ByteOrder.thy ===== *)
theory ByteOrder
  imports Prelude
begin

text \<open>
  Little- and big-endian access to byte buffers: \<open>common/zy100_byteorder.c\<close> (and the
  private \<open>put32\<close> of the stress source).  A \<open>put\<close> stores the bytes at an offset of
  the buffer, a \<open>get\<close> reads them back.
\<close>

unbundle bit_operations_syntax

definition byte_of :: "nat \<Rightarrow> 'a::len word \<Rightarrow> u8" where
  "byte_of k v = ucast (drop_bit (8 * k) v AND 255)"

definition zy100_get_u16_le :: "u8 list \<Rightarrow> nat \<Rightarrow> u16" where
  "zy100_get_u16_le src off = ucast (src ! off) OR push_bit 8 (ucast (src ! (off + 1)))"

definition zy100_get_u32_le :: "u8 list \<Rightarrow> nat \<Rightarrow> u32" where
  "zy100_get_u32_le src off =
     ucast (src ! off) OR push_bit 8 (ucast (src ! (off + 1))) OR
     push_bit 16 (ucast (src ! (off + 2))) OR push_bit 24 (ucast (src ! (off + 3)))"

definition zy100_get_u64_le :: "u8 list \<Rightarrow> nat \<Rightarrow> u64" where
  "zy100_get_u64_le src off =
     (let lo = ucast (zy100_get_u32_le src off);
          hi = ucast (zy100_get_u32_le src (off + 4))
      in lo OR push_bit 32 hi)"

definition zy100_put_u16_le :: "nat \<Rightarrow> u16 \<Rightarrow> u8 list \<Rightarrow> u8 list" where
  "zy100_put_u16_le off v dst = dst[off := byte_of 0 v, off + 1 := byte_of 1 v]"

definition zy100_put_u32_le :: "nat \<Rightarrow> u32 \<Rightarrow> u8 list \<Rightarrow> u8 list" where
  "zy100_put_u32_le off v dst =
     dst[off := byte_of 0 v, off + 1 := byte_of 1 v, off + 2 := byte_of 2 v, off + 3 := byte_of 3 v]"

definition zy100_put_u64_le :: "nat \<Rightarrow> u64 \<Rightarrow> u8 list \<Rightarrow> u8 list" where
  "zy100_put_u64_le off v dst =
     zy100_put_u32_le (off + 4) (ucast (drop_bit 32 v))
       (zy100_put_u32_le off (ucast (v AND 0xFFFFFFFF)) dst)"

definition zy100_get_u16_be :: "u8 list \<Rightarrow> nat \<Rightarrow> u16" where
  "zy100_get_u16_be src off = push_bit 8 (ucast (src ! off)) OR ucast (src ! (off + 1))"

definition zy100_get_u32_be :: "u8 list \<Rightarrow> nat \<Rightarrow> u32" where
  "zy100_get_u32_be src off =
     push_bit 24 (ucast (src ! off)) OR push_bit 16 (ucast (src ! (off + 1))) OR
     push_bit 8 (ucast (src ! (off + 2))) OR ucast (src ! (off + 3))"

section \<open>Lengths and frames\<close>

lemma length_put [simp]:
  "length (zy100_put_u16_le off v2 dst) = length dst"
  "length (zy100_put_u32_le off v4 dst) = length dst"
  "length (zy100_put_u64_le off v8 dst) = length dst"
  by (simp_all add: zy100_put_u16_le_def zy100_put_u32_le_def zy100_put_u64_le_def)

lemma nth_put_u16_out [simp]:
  "i < off \<or> off + 2 \<le> i \<Longrightarrow> zy100_put_u16_le off v dst ! i = dst ! i"
  by (auto simp: zy100_put_u16_le_def)

lemma nth_put_u32_out [simp]:
  "i < off \<or> off + 4 \<le> i \<Longrightarrow> zy100_put_u32_le off v dst ! i = dst ! i"
  by (auto simp: zy100_put_u32_le_def)

lemma get_u32_cong:
  "(\<And>i. off \<le> i \<Longrightarrow> i < off + 4 \<Longrightarrow> a ! i = b ! i) \<Longrightarrow> zy100_get_u32_le a off = zy100_get_u32_le b off"
  by (simp add: zy100_get_u32_le_def)

lemma get_u16_cong:
  "(\<And>i. off \<le> i \<Longrightarrow> i < off + 2 \<Longrightarrow> a ! i = b ! i) \<Longrightarrow> zy100_get_u16_le a off = zy100_get_u16_le b off"
  by (simp add: zy100_get_u16_le_def)

lemma get_u32_put_u32_other [simp]:
  "p + 4 \<le> off \<or> off + 4 \<le> p \<Longrightarrow> zy100_get_u32_le (zy100_put_u32_le p v b) off = zy100_get_u32_le b off"
  by (rule get_u32_cong) auto

lemma get_u32_put_u16_other [simp]:
  "p + 2 \<le> off \<or> off + 4 \<le> p \<Longrightarrow> zy100_get_u32_le (zy100_put_u16_le p v b) off = zy100_get_u32_le b off"
  by (rule get_u32_cong) auto

lemma get_u16_put_u32_other [simp]:
  "p + 4 \<le> off \<or> off + 2 \<le> p \<Longrightarrow> zy100_get_u16_le (zy100_put_u32_le p v b) off = zy100_get_u16_le b off"
  by (rule get_u16_cong) auto

lemma get_u16_put_u16_other [simp]:
  "p + 2 \<le> off \<or> off + 2 \<le> p \<Longrightarrow> zy100_get_u16_le (zy100_put_u16_le p v b) off = zy100_get_u16_le b off"
  by (rule get_u16_cong) auto

lemma get_u32_upd_other [simp]:
  "i < off \<or> off + 4 \<le> i \<Longrightarrow> zy100_get_u32_le (b[i := x]) off = zy100_get_u32_le b off"
  by (rule get_u32_cong) auto

lemma get_u16_upd_other [simp]:
  "i < off \<or> off + 2 \<le> i \<Longrightarrow> zy100_get_u16_le (b[i := x]) off = zy100_get_u16_le b off"
  by (rule get_u16_cong) auto

lemma take_put [simp]:
  "n \<le> off \<Longrightarrow> take n (zy100_put_u32_le off v4 b) = take n b"
  "n \<le> off \<Longrightarrow> take n (zy100_put_u16_le off v2 b) = take n b"
  by (simp_all add: zy100_put_u32_le_def zy100_put_u16_le_def)

lemma drop_put [simp]:
  "off + 4 \<le> n \<Longrightarrow> drop n (zy100_put_u32_le off v4 b) = drop n b"
  "off + 2 \<le> n \<Longrightarrow> drop n (zy100_put_u16_le off v2 b) = drop n b"
  by (simp_all add: zy100_put_u32_le_def zy100_put_u16_le_def)

section \<open>Round trips\<close>

lemma bit_byte_of: "bit (byte_of k v) n = (n < 8 \<and> bit v (8 * k + n))"
  for v :: "'a::len word"
  unfolding byte_of_def mask_255 by (auto simp: bit_simps dest: bit_imp_le_length)

lemma get_put_u16_le [simp]:
  assumes "off + 2 \<le> length b"
  shows "zy100_get_u16_le (zy100_put_u16_le off v b) off = v"
proof -
  have "zy100_get_u16_le (zy100_put_u16_le off v b) off =
        ucast (byte_of 0 v) OR push_bit 8 (ucast (byte_of 1 v))"
    using assms by (simp add: zy100_get_u16_le_def zy100_put_u16_le_def)
  also have "\<dots> = v"
  proof (rule bit_word_eqI)
    fix n assume "n < LENGTH(16)"
    then show "bit (ucast (byte_of 0 v) OR push_bit 8 (ucast (byte_of 1 v)) :: u16) n = bit v n"
      by (auto simp: bit_simps bit_byte_of)
  qed
  finally show ?thesis .
qed

lemma get_put_u32_le [simp]:
  assumes "off + 4 \<le> length b"
  shows "zy100_get_u32_le (zy100_put_u32_le off v b) off = v"
proof -
  have "zy100_get_u32_le (zy100_put_u32_le off v b) off =
        ucast (byte_of 0 v) OR push_bit 8 (ucast (byte_of 1 v)) OR
        push_bit 16 (ucast (byte_of 2 v)) OR push_bit 24 (ucast (byte_of 3 v))"
    using assms by (simp add: zy100_get_u32_le_def zy100_put_u32_le_def)
  also have "\<dots> = v"
  proof (rule bit_word_eqI)
    fix n assume "n < LENGTH(32)"
    then show "bit (ucast (byte_of 0 v) OR push_bit 8 (ucast (byte_of 1 v)) OR
        push_bit 16 (ucast (byte_of 2 v)) OR push_bit 24 (ucast (byte_of 3 v)) :: u32) n = bit v n"
      by (cases "n < 8"; cases "n < 16"; cases "n < 24") (auto simp: bit_simps bit_byte_of)
  qed
  finally show ?thesis .
qed

lemma get_put_u64_le [simp]:
  assumes "off + 8 \<le> length b"
  shows "zy100_get_u64_le (zy100_put_u64_le off v b) off = v"
proof -
  have "zy100_get_u64_le (zy100_put_u64_le off v b) off =
        ucast (ucast (v AND 0xFFFFFFFF) :: u32) OR push_bit 32 (ucast (ucast (drop_bit 32 v) :: u32))"
    using assms by (simp add: zy100_get_u64_le_def zy100_put_u64_le_def)
  also have "\<dots> = v"
    unfolding mask_ffffffff by (rule bit_word_eqI) (auto simp: bit_simps)
  finally show ?thesis .
qed

section \<open>Properties\<close>

text \<open>C40: a little-endian store is read back exactly and touches no byte outside its field.\<close>

theorem put_get_little_endian:
  assumes "off + 4 \<le> length buf"
  shows "zy100_get_u32_le (zy100_put_u32_le off v buf) off = v \<and>
    length (zy100_put_u32_le off v buf) = length buf \<and>
    take off (zy100_put_u32_le off v buf) = take off buf \<and>
    drop (off + 4) (zy100_put_u32_le off v buf) = drop (off + 4) buf"
  using assms by simp

theorem put_get_little_endian_witness:
  "zy100_get_u32_le (zy100_put_u32_le 1 0x11223344 [0, 0, 0, 0, 0, 9]) 1 = 0x11223344"
  using put_get_little_endian [of 1 "[0, 0, 0, 0, 0, 9]" "0x11223344"] by simp

end
