(* ===== verification/ByteRing.thy ===== *)
theory ByteRing
  imports Prelude
begin

text \<open>
  Byte rings.  Two components keep a ring buffer of bytes (the stress source and the
  FIFO ingress ring); this theory holds what they share: the queue contents a ring
  represents, the effect of storing a run of bytes behind the contents, and the
  interface \<open>byte_fifo\<close> that both providers are interpretations of.
\<close>

definition ring_contents :: "'a list \<Rightarrow> nat \<Rightarrow> nat \<Rightarrow> 'a list" where
  "ring_contents ring head n = map (\<lambda>i. ring ! ((head + i) mod length ring)) [0..<n]"

definition ring_store :: "'a list \<Rightarrow> nat \<Rightarrow> 'a list \<Rightarrow> 'a list" where
  "ring_store ring start xs =
     foldl (\<lambda>r i. r[(start + i) mod length ring := xs ! i]) ring [0..<length xs]"

lemma length_ring_contents [simp]: "length (ring_contents ring head n) = n"
  by (simp add: ring_contents_def)

lemma ring_contents_0 [simp]: "ring_contents ring head 0 = []"
  by (simp add: ring_contents_def)

lemma nth_ring_contents [simp]:
  "i < n \<Longrightarrow> ring_contents ring head n ! i = ring ! ((head + i) mod length ring)"
  by (simp add: ring_contents_def)

lemma length_foldl_upd [simp]: "length (foldl (\<lambda>r i. r[f i := g i]) ring is) = length ring"
  by (induction "is" arbitrary: ring) simp_all

lemma length_ring_store [simp]: "length (ring_store ring start xs) = length ring"
  by (simp add: ring_store_def)

lemma take_ring_contents: "m \<le> n \<Longrightarrow> take m (ring_contents ring head n) = ring_contents ring head m"
  by (simp add: ring_contents_def take_map)

lemma drop_ring_contents:
  "drop m (ring_contents ring head n) = ring_contents ring ((head + m) mod length ring) (n - m)"
  by (rule nth_equalityI) (auto simp: mod_simps ac_simps)

text \<open>Two offsets less than a lap apart never share a slot.\<close>

lemma mod_offset_inj:
  assumes "(h + i) mod N = (h + j) mod N" "i < N" "j < (N :: nat)"
  shows "i = j"
proof -
  have "i = j" if "(h + i) mod N = (h + j) mod N" "i \<le> j" "j < N" for i j
  proof -
    from that have "N dvd (h + j) - (h + i)" by (metis add_le_cancel_left mod_eq_dvd_iff_nat)
    then have "N dvd j - i" by simp
    then show ?thesis using that by (auto dest: dvd_imp_le)
  qed
  then show ?thesis using assms by (metis nat_le_linear)
qed

lemma foldl_upd_out:
  "(\<And>i. i \<in> set is \<Longrightarrow> f i \<noteq> j) \<Longrightarrow> foldl (\<lambda>r i. r[f i := g i]) ring is ! j = ring ! j"
  by (induction "is" arbitrary: ring) auto

lemma ring_store_out:
  "(\<And>i. i < length xs \<Longrightarrow> (start + i) mod length ring \<noteq> j) \<Longrightarrow> ring_store ring start xs ! j = ring ! j"
  unfolding ring_store_def by (rule foldl_upd_out) auto

lemma ring_store_snoc:
  "ring_store ring start (xs @ [x]) = (ring_store ring start xs)[(start + length xs) mod length ring := x]"
proof -
  have "foldl (\<lambda>r i. r[(start + i) mod length ring := (xs @ [x]) ! i]) ring [0..<length xs] =
        foldl (\<lambda>r i. r[(start + i) mod length ring := xs ! i]) ring [0..<length xs]"
    by (rule foldl_cong) (auto simp: nth_append)
  then show ?thesis by (simp add: ring_store_def)
qed

lemma ring_store_in:
  assumes "length xs \<le> length ring" "i < length xs"
  shows "ring_store ring start xs ! ((start + i) mod length ring) = xs ! i"
  using assms
proof (induction xs arbitrary: i rule: rev_induct)
  case Nil then show ?case by simp
next
  case (snoc x xs)
  let ?N = "length ring"
  have pos: "0 < ?N" using snoc.prems by auto
  show ?case
  proof (cases "i = length xs")
    case True
    then show ?thesis using pos by (simp add: ring_store_snoc)
  next
    case False
    then have lt: "i < length xs" using snoc.prems by simp
    have "(start + length xs) mod ?N \<noteq> (start + i) mod ?N"
      using mod_offset_inj [of start "length xs" ?N i] lt snoc.prems by auto
    then show ?thesis
      using snoc.IH [OF _ lt] snoc.prems lt by (simp add: ring_store_snoc nth_append)
  qed
qed

lemma ring_contents_store:
  assumes "n + length xs \<le> length ring"
  shows "ring_contents (ring_store ring (head + n) xs) head (n + length xs) =
         ring_contents ring head n @ xs" (is "?l = ?r")
proof (rule nth_equalityI)
  show "length ?l = length ?r" by simp
next
  fix i assume i: "i < length ?l"
  let ?N = "length ring"
  show "?l ! i = ?r ! i"
  proof (cases "i < n")
    case True
    have "(head + n + k) mod ?N \<noteq> (head + i) mod ?N" if "k < length xs" for k
      using mod_offset_inj [of head "n + k" ?N i] that assms True by (auto simp: add.assoc)
    then show ?thesis using i True by (simp add: nth_append ring_store_out)
  next
    case False
    then obtain k where k: "i = n + k" "k < length xs" using i by (auto dest: le_Suc_ex simp: not_less)
    then show ?thesis
      using ring_store_in [of xs ring k "head + n"] assms by (simp add: nth_append add.assoc)
  qed
qed

section \<open>The byte FIFO interface\<close>

text \<open>
  A provider keeps bytes in order; a client looks at the oldest \<open>bytes n\<close> of them
  (\<open>peek\<close>) and then discards them (\<open>discard\<close>).  Both refuse more than there is.
  The amount is of the provider's own type: a byte count for the stress source, a
  packet count for the ingress ring.
\<close>

locale byte_fifo =
  fixes ok :: "'s \<Rightarrow> bool"
    and contents :: "'s \<Rightarrow> u8 list"
    and bytes :: "'n \<Rightarrow> nat"
    and peek :: "'n \<Rightarrow> 's \<Rightarrow> u8 list option"
    and discard :: "'n \<Rightarrow> 's \<Rightarrow> 's option"
  assumes peek_some: "\<lbrakk>ok s; 0 < bytes n; bytes n \<le> length (contents s)\<rbrakk> \<Longrightarrow>
      peek n s = Some (take (bytes n) (contents s))"
    and peek_none: "\<lbrakk>ok s; length (contents s) < bytes n\<rbrakk> \<Longrightarrow> peek n s = None"
    and discard_some: "\<lbrakk>ok s; 0 < bytes n; bytes n \<le> length (contents s)\<rbrakk> \<Longrightarrow>
      \<exists>s'. discard n s = Some s' \<and> ok s' \<and> contents s' = drop (bytes n) (contents s)"
    and discard_none: "\<lbrakk>ok s; length (contents s) < bytes n\<rbrakk> \<Longrightarrow> discard n s = None"

text \<open>The client loop: look at a chunk, use it, discard it, next chunk.\<close>

fun fifo_drain :: "('n \<Rightarrow> 's \<Rightarrow> u8 list option) \<Rightarrow> ('n \<Rightarrow> 's \<Rightarrow> 's option) \<Rightarrow>
    'n list \<Rightarrow> 's \<Rightarrow> (u8 list \<times> 's) option" where
  "fifo_drain pk dc [] s = Some ([], s)"
| "fifo_drain pk dc (n # ns) s =
     (case pk n s of None \<Rightarrow> None
      | Some bs \<Rightarrow> (case dc n s of None \<Rightarrow> None
        | Some s' \<Rightarrow> map_option (\<lambda>(cs, t). (bs @ cs, t)) (fifo_drain pk dc ns s')))"

context byte_fifo
begin

lemma drain_prefix:
  assumes "ok s" "\<forall>n \<in> set ns. 0 < bytes n" "sum_list (map bytes ns) \<le> length (contents s)"
  shows "\<exists>s'. fifo_drain peek discard ns s = Some (take (sum_list (map bytes ns)) (contents s), s')
    \<and> ok s' \<and> contents s' = drop (sum_list (map bytes ns)) (contents s)"
  using assms
proof (induction ns arbitrary: s)
  case Nil then show ?case by simp
next
  case (Cons n ns)
  then obtain s1 where s1: "discard n s = Some s1" "ok s1"
      "contents s1 = drop (bytes n) (contents s)"
    using discard_some [of s n] by auto
  moreover have "sum_list (map bytes ns) \<le> length (contents s1)"
    using Cons.prems s1 by simp
  ultimately obtain s2 where s2: "fifo_drain peek discard ns s1 =
      Some (take (sum_list (map bytes ns)) (contents s1), s2)" "ok s2"
      "contents s2 = drop (sum_list (map bytes ns)) (contents s1)"
    using Cons.IH [of s1] Cons.prems by auto
  have "peek n s = Some (take (bytes n) (contents s))"
    using Cons.prems by (intro peek_some) auto
  then show ?case using s1 s2 by (simp add: take_add add.commute)
qed

lemma drain_too_much:
  assumes "ok s" "length (contents s) < bytes n"
  shows "fifo_drain peek discard (n # ns) s = None"
  using assms by (simp add: peek_none)

end

end
