(* ===== verification/StressSource.thy ===== *)
theory StressSource
  imports ByteOrder ByteRing
begin

text \<open>
  The deterministic load generator: \<open>online_stress_test/src/zy100_stress_source.c\<close> and its
  header.  Every 20 ms period owes a block of \<open>rate / 50\<close> bytes of a seeded pattern; \<open>tick\<close>
  stores the owed blocks in a 4096 byte ring, the writer copies and consumes them.

  The ring pointer is an option (\<open>None\<close> is NULL); its bytes are a list of length 4096.  The
  functions here are called with the address of a static object, so their test of the state
  pointer for NULL is not a branch of the model.
\<close>

unbundle bit_operations_syntax

section \<open>Data\<close>

abbreviation (input) "ZY100_STRESS_PERIOD_MS \<equiv> (20 :: u32)"
abbreviation (input) "ZY100_STRESS_RING_BYTES \<equiv> (4096 :: u32)"
abbreviation (input) "ZY100_STRESS_HEADER_BYTES \<equiv> (64 :: u32)"
abbreviation (input) "ZY100_STRESS_DELAY_SLOTS \<equiv> (16 :: u32)"
abbreviation (input) "ZY100_STRESS_PROTOCOL_VERSION \<equiv> (1 :: u32)"
abbreviation (input) "ZY100_STRESS_QUERY_DETAIL \<equiv> (0x010C143F :: u32)"

abbreviation (input) "ZY100_STRESS_RING_FULL \<equiv> (1 :: u8)"
abbreviation (input) "ZY100_STRESS_RANGE \<equiv> (2 :: u8)"
abbreviation (input) "ZY100_STRESS_RESERVE \<equiv> (3 :: u8)"
abbreviation (input) "ZY100_STRESS_PROGRAM \<equiv> (4 :: u8)"
abbreviation (input) "ZY100_STRESS_VERIFY \<equiv> (5 :: u8)"
abbreviation (input) "ZY100_STRESS_COMMIT \<equiv> (6 :: u8)"
abbreviation (input) "ZY100_STRESS_OWNER \<equiv> (7 :: u8)"

record stress_source =
  src_ring :: "u8 list option"
  src_rate :: u32
  src_seed :: u32
  src_start_ms :: u32
  src_elapsed_ms :: u32
  src_expected :: u32
  src_generated :: u32
  src_consumed :: u32
  src_rejected :: u32
  src_peak :: u32
  src_delay_max_ms :: u32
  src_delays :: "u32 list"
  src_head :: u16
  src_used :: u16
  src_error :: u8
  src_frozen :: bool

definition stress_source_zero :: stress_source where
  "stress_source_zero =
     \<lparr>src_ring = None, src_rate = 0, src_seed = 0, src_start_ms = 0, src_elapsed_ms = 0,
      src_expected = 0, src_generated = 0, src_consumed = 0, src_rejected = 0, src_peak = 0,
      src_delay_max_ms = 0, src_delays = replicate 16 0, src_head = 0, src_used = 0,
      src_error = 0, src_frozen = False\<rparr>"

section \<open>Operations\<close>

definition zy100_stress_rate_valid :: "u32 \<Rightarrow> bool" where
  "zy100_stress_rate_valid rate \<longleftrightarrow>
     rate = 0 \<or> rate = 16000 \<or> rate = 32000 \<or> rate = 48000 \<or> rate = 64000 \<or> rate = 96000"

definition zy100_stress_pattern :: "u32 \<Rightarrow> u32 \<Rightarrow> u8" where
  "zy100_stress_pattern seed byte_offset =
     (let x = byte_offset XOR seed
      in ucast (x XOR drop_bit 8 x XOR drop_bit 16 x XOR drop_bit 24 x))"

definition zy100_stress_source_begin ::
  "stress_source \<Rightarrow> u8 list option \<Rightarrow> u32 \<Rightarrow> u32 \<Rightarrow> u32 \<Rightarrow> bool \<times> stress_source" where
  "zy100_stress_source_begin s ring rate seed now_ms =
     (if ring = None \<or> \<not> zy100_stress_rate_valid rate then (False, s)
      else (True, stress_source_zero\<lparr>src_ring := ring, src_rate := rate, src_seed := seed,
                    src_start_ms := now_ms\<rparr>))"

text \<open>The body of the generation loop: one block of pattern bytes behind the ring contents.\<close>

definition stress_put_block :: "u32 \<Rightarrow> stress_source \<Rightarrow> stress_source" where
  "stress_put_block block_bytes s =
     (let seq = src_generated s div block_bytes;
          delay = src_elapsed_ms s - (seq + 1) * ZY100_STRESS_PERIOD_MS;
          start = ucast (src_head s) + ucast (src_used s);
          used = ucast (ucast (src_used s) + block_bytes)
      in s\<lparr>src_delays := (src_delays s)[unat (seq mod ZY100_STRESS_DELAY_SLOTS) := delay],
           src_delay_max_ms := (if delay > src_delay_max_ms s then delay else src_delay_max_ms s),
           src_ring := map_option (\<lambda>ring. foldl
             (\<lambda>r i. r[unat ((start + of_nat i) mod ZY100_STRESS_RING_BYTES) :=
                       zy100_stress_pattern (src_seed s) (src_generated s + of_nat i)])
             ring [0..<unat block_bytes]) (src_ring s),
           src_generated := src_generated s + block_bytes,
           src_used := used,
           src_peak := (if ucast used > src_peak s then ucast used else src_peak s)\<rparr>)"

lemma block_bytes_bound: "unat ((rate :: u32) div 50) \<le> 85899345"
proof -
  have "unat rate \<le> 4294967295" using unat_lt_32 [of rate] by linarith
  then have "unat rate div 50 \<le> 4294967295 div 50" by (rule div_le_mono)
  then show ?thesis by (simp add: unat_div)
qed

lemma used_block_sum:
  fixes u :: u16 and rate :: u32
  shows "unat (ucast u + rate div 50) = unat u + unat rate div 50"
proof -
  have "unat u + unat (rate div 50) < 2 ^ LENGTH(32)"
    using block_bytes_bound [of rate] unat_lt_16 [of u] by (simp del: unat_div)
  then show ?thesis by (simp add: unat_add_no_wrap unat_div)
qed

lemma used_after_block:
  fixes u :: u16 and rate :: u32
  assumes "\<not> ucast u + rate div 50 > 4096"
  shows "unat (ucast (ucast u + rate div 50 :: u32) :: u16) = unat u + unat rate div 50"
    and "unat u + unat rate div 50 \<le> 4096"
proof -
  show le: "unat u + unat rate div 50 \<le> 4096"
    using assms by (simp add: word_less_nat_alt used_block_sum)
  then show "unat (ucast (ucast u + rate div 50 :: u32) :: u16) = unat u + unat rate div 50"
    by (subst unat_ucast_32_16) (simp_all add: used_block_sum)
qed

text \<open>The generation loop.  The early return for \<open>block_bytes == 0\<close> stands before it; the
  guard on the ring bounds the iterations by \<open>4096 / block_bytes\<close>.\<close>

function stress_fill :: "stress_source \<Rightarrow> bool \<times> stress_source" where
  "stress_fill s =
     (let block_bytes = src_rate s div (1000 div ZY100_STRESS_PERIOD_MS)
      in if block_bytes = 0 then (True, s)
         else if src_generated s < src_expected s then
           (if ucast (src_used s) + block_bytes > ZY100_STRESS_RING_BYTES
            then (False, s\<lparr>src_rejected := src_expected s - src_generated s,
                           src_error := ZY100_STRESS_RING_FULL, src_frozen := True\<rparr>)
            else stress_fill (stress_put_block block_bytes s))
         else (True, s))"
  by pat_completeness auto
termination
proof (relation "measure (\<lambda>s. 4097 - unat (src_used s))", goal_cases)
  case 1 show ?case by simp
next
  case (2 s x)
  let ?u = "src_used s" and ?r = "src_rate s"
  have "?r div 50 \<noteq> 0" using 2 by simp
  then have "unat (?r div 50) \<noteq> 0" by (simp only: unat_eq_zero not_False_eq_True)
  then have pos: "0 < unat ?r div 50" by (simp add: unat_div)
  have fits: "\<not> ucast ?u + ?r div 50 > (4096 :: u32)" using 2 by simp
  show ?case
    using 2 pos used_after_block [OF fits] by (simp add: stress_put_block_def Let_def)
qed

declare stress_fill.simps [simp del]

definition zy100_stress_source_tick :: "stress_source \<Rightarrow> u32 \<Rightarrow> bool \<times> stress_source" where
  "zy100_stress_source_tick s now_ms =
     (if src_ring s = None then (False, s)
      else if src_frozen s \<or> src_error s \<noteq> 0 then (src_error s = 0, s)
      else
        let s1 = s\<lparr>src_elapsed_ms := now_ms - src_start_ms s\<rparr>;
            block_bytes = src_rate s1 div (1000 div ZY100_STRESS_PERIOD_MS);
            due_blocks = src_elapsed_ms s1 div ZY100_STRESS_PERIOD_MS;
            expected = (ucast due_blocks * ucast block_bytes :: u64)
        in if expected > 0xFFFFFFFF \<or> src_elapsed_ms s1 \<ge> 0x80000000
           then (False, s1\<lparr>src_error := ZY100_STRESS_RANGE, src_frozen := True\<rparr>)
           else stress_fill (s1\<lparr>src_expected := ucast expected\<rparr>))"

definition zy100_stress_source_freeze :: "stress_source \<Rightarrow> u32 \<Rightarrow> bool \<times> stress_source" where
  "zy100_stress_source_freeze s now_ms =
     (let (ok, s1) = zy100_stress_source_tick s now_ms in (ok, s1\<lparr>src_frozen := True\<rparr>))"

definition the_ring :: "stress_source \<Rightarrow> u8 list" where
  "the_ring s = (case src_ring s of Some r \<Rightarrow> r | None \<Rightarrow> [])"

text \<open>\<open>copy\<close> writes at offset \<open>off\<close> of the page buffer \<open>dst\<close>.\<close>

definition zy100_stress_source_copy ::
  "stress_source \<Rightarrow> u8 list \<Rightarrow> nat \<Rightarrow> u32 \<Rightarrow> bool \<times> u8 list" where
  "zy100_stress_source_copy s dst off count =
     (if count > ucast (src_used s) then (False, dst)
      else (True, put_at off
        (map (\<lambda>i. the_ring s ! unat ((ucast (src_head s) + of_nat i) mod ZY100_STRESS_RING_BYTES))
             [0..<unat count]) dst))"

definition zy100_stress_source_consume :: "stress_source \<Rightarrow> u32 \<Rightarrow> bool \<times> stress_source" where
  "zy100_stress_source_consume s count =
     (if count > ucast (src_used s) then (False, s)
      else (True, s\<lparr>src_head := ucast ((ucast (src_head s) + count) mod ZY100_STRESS_RING_BYTES),
                    src_used := ucast (ucast (src_used s) - count),
                    src_consumed := src_consumed s + count\<rparr>))"

definition STRS :: "u8 list" where
  "STRS = [83, 84, 82, 83]"

definition zy100_stress_source_header ::
  "stress_source \<Rightarrow> u8 list \<Rightarrow> u32 \<Rightarrow> bool \<times> u8 list" where
  "zy100_stress_source_header s header blocks =
     (if src_rate s = 0 \<or> blocks = 0 \<or> blocks > 2 then (False, header)
      else
        let bytes = src_rate s div 50
        in if src_consumed s mod bytes \<noteq> 0 \<or> blocks * bytes > ucast (src_used s) then (False, header)
           else
             let seq = src_consumed s div bytes;
                 h0 = put_at 0 (replicate 64 0) header;
                 h1 = put_at 0 STRS h0;
                 h2 = h1[4 := ucast ZY100_STRESS_PROTOCOL_VERSION,
                         6 := ucast ZY100_STRESS_HEADER_BYTES];
                 h3 = zy100_put_u32_le 8 (src_seed s) h2;
                 h4 = zy100_put_u32_le 12 (src_rate s) h3;
                 h5 = zy100_put_u32_le 16 ZY100_STRESS_PERIOD_MS h4;
                 h6 = zy100_put_u32_le 20 seq h5;
                 h7 = zy100_put_u32_le 24 blocks h6;
                 h8 = zy100_put_u32_le 28 (src_consumed s) h7;
                 h9 = zy100_put_u32_le 32 (blocks * bytes) h8;
                 h10 = zy100_put_u32_le 36 ((seq + 1) * ZY100_STRESS_PERIOD_MS) h9;
                 h11 = zy100_put_u32_le 40
                         (src_delays s ! unat (seq mod ZY100_STRESS_DELAY_SLOTS)) h10;
                 h12 = (if blocks = 2
                        then zy100_put_u32_le 44
                               (src_delays s ! unat ((seq + 1) mod ZY100_STRESS_DELAY_SLOTS)) h11
                        else h11);
                 h13 = zy100_put_u32_le 48 1 h12;
                 h14 = zy100_put_u32_le 52 (src_start_ms s) h13
             in (True, h14))"

section \<open>The queue the ring represents\<close>

definition src_contents :: "stress_source \<Rightarrow> u8 list" where
  "src_contents s = ring_contents (the_ring s) (unat (src_head s)) (unat (src_used s))"

definition pattern_run :: "u32 \<Rightarrow> u32 \<Rightarrow> nat \<Rightarrow> u8 list" where
  "pattern_run seed off n = map (\<lambda>i. zy100_stress_pattern seed (off + of_nat i)) [0..<n]"

text \<open>The invariant: the ring holds exactly the pattern bytes between the consumed and the
  generated offset, and both offsets sit on the block grid of the rate.\<close>

definition source_ok :: "stress_source \<Rightarrow> bool" where
  "source_ok s \<longleftrightarrow> (\<exists>ring. src_ring s = Some ring \<and> length ring = 4096) \<and>
     unat (src_head s) < 4096 \<and> unat (src_used s) \<le> 4096 \<and> length (src_delays s) = 16 \<and>
     src_generated s = src_consumed s + ucast (src_used s) \<and>
     src_contents s = pattern_run (src_seed s) (src_consumed s) (unat (src_used s)) \<and>
     (unat (src_rate s) div 50) dvd unat (src_generated s)"

lemma length_pattern_run [simp]: "length (pattern_run seed off n) = n"
  by (simp add: pattern_run_def)

lemma pattern_run_append:
  "pattern_run seed off (m + n) = pattern_run seed off m @ pattern_run seed (off + of_nat m) n"
proof -
  have "[0..<m + n] = [0..<m] @ map (\<lambda>i. m + i) [0..<n]"
    by (simp add: map_add_upt add.commute upt_add_eq_append [of 0 m n, simplified])
  then show ?thesis by (simp add: pattern_run_def comp_def add.assoc)
qed

lemma take_pattern_run: "m \<le> n \<Longrightarrow> take m (pattern_run seed off n) = pattern_run seed off m"
  by (simp add: pattern_run_def take_map)

lemma drop_pattern_run:
  "m \<le> n \<Longrightarrow> drop m (pattern_run seed off n) = pattern_run seed (off + of_nat m) (n - m)"
  using pattern_run_append [of seed off m "n - m"] by simp

lemma mod_4096_unat: "unat ((x :: u32) mod 4096) = unat x mod 4096"
  by (simp add: unat_mod)

lemma source_okE:
  assumes "source_ok s"
  obtains ring where "src_ring s = Some ring" "the_ring s = ring" "length ring = 4096"
    "unat (src_head s) < 4096" "unat (src_used s) \<le> 4096" "length (src_delays s) = 16"
    "src_generated s = src_consumed s + ucast (src_used s)"
    "src_contents s = pattern_run (src_seed s) (src_consumed s) (unat (src_used s))"
    "(unat (src_rate s) div 50) dvd unat (src_generated s)"
  using assms by (auto simp: source_ok_def the_ring_def)

text \<open>The index loop of the source is the ring store of the shared theory.\<close>

lemma put_loop_eq:
  assumes "length ring = 4096" "unat h < 4096" "unat u + n \<le> 4096"
  shows "foldl (\<lambda>r i. r[unat ((ucast (h :: u16) + ucast (u :: u16) + of_nat i) mod 4096 :: u32) := f i]) ring [0..<n]
     = ring_store ring (unat h + unat u) (map f [0..<n])"
proof -
  have idx: "unat ((ucast h + ucast u + of_nat i) mod 4096 :: u32) = (unat h + unat u + i) mod 4096"
    if "i < n" for i
    using that assms by (simp add: mod_4096_unat unat_word_ariths take_bit_nat_eq_self_iff unat_of_nat mod_simps)
  show ?thesis
    unfolding ring_store_def using assms(1)
    by (auto intro!: foldl_cong simp: idx)
qed

lemma put_block_frame [simp]:
  "src_rate (stress_put_block b s) = src_rate s"
  "src_seed (stress_put_block b s) = src_seed s"
  "src_start_ms (stress_put_block b s) = src_start_ms s"
  "src_elapsed_ms (stress_put_block b s) = src_elapsed_ms s"
  "src_expected (stress_put_block b s) = src_expected s"
  "src_consumed (stress_put_block b s) = src_consumed s"
  "src_rejected (stress_put_block b s) = src_rejected s"
  "src_head (stress_put_block b s) = src_head s"
  "src_error (stress_put_block b s) = src_error s"
  "src_frozen (stress_put_block b s) = src_frozen s"
  "src_generated (stress_put_block b s) = src_generated s + b"
  by (simp_all add: stress_put_block_def Let_def)

lemma put_block_ok:
  assumes ok: "source_ok s" and b: "b = src_rate s div 50"
    and fits: "\<not> ucast (src_used s) + b > (4096 :: u32)"
    and room: "unat (src_generated s) + unat b < 2 ^ 32"
  shows "source_ok (stress_put_block b s)"
    and "unat (src_used (stress_put_block b s)) = unat (src_used s) + unat b"
proof -
  obtain ring where r: "src_ring s = Some ring" "the_ring s = ring" "length ring = 4096"
      "unat (src_head s) < 4096" "unat (src_used s) \<le> 4096" "length (src_delays s) = 16"
      "src_generated s = src_consumed s + ucast (src_used s)"
      "src_contents s = pattern_run (src_seed s) (src_consumed s) (unat (src_used s))"
      "(unat (src_rate s) div 50) dvd unat (src_generated s)"
    using ok by (rule source_okE)
  let ?t = "stress_put_block b s"
  have ub: "unat b = unat (src_rate s) div 50" by (simp add: b unat_div)
  note fits' = fits [unfolded b]
  show used: "unat (src_used ?t) = unat (src_used s) + unat b"
    using used_after_block(1) [OF fits'] by (simp add: stress_put_block_def Let_def b unat_div)
  have le: "unat (src_used s) + unat b \<le> 4096"
    using used_after_block(2) [OF fits'] by (simp add: ub)
  let ?xs = "map (\<lambda>i. zy100_stress_pattern (src_seed s) (src_generated s + of_nat i)) [0..<unat b]"
  have xs: "?xs = pattern_run (src_seed s) (src_generated s) (unat b)"
    by (simp add: pattern_run_def)
  have ring: "src_ring ?t = Some (ring_store ring (unat (src_head s) + unat (src_used s)) ?xs)"
    using put_loop_eq [OF r(3,4) le, of "\<lambda>i. zy100_stress_pattern (src_seed s) (src_generated s + of_nat i)"]
    by (simp add: stress_put_block_def Let_def r(1))
  have "src_contents ?t = src_contents s @ ?xs"
    unfolding src_contents_def the_ring_def ring used
    using ring_contents_store [of "unat (src_used s)" ?xs ring "unat (src_head s)"] le r(1,3)
    by (simp add: the_ring_def)
  then have cont: "src_contents ?t = pattern_run (src_seed s) (src_consumed s) (unat (src_used s) + unat b)"
    by (simp only: r(8) xs) (simp add: pattern_run_append r(7) of_nat_unat)
  have "unat (ucast (src_used s) + b) = unat (src_used s) + unat b"
    using le by (subst unat_add_no_wrap) simp_all
  then have "ucast (src_used s) + b = (ucast (src_used ?t) :: u32)"
    by (simp add: word_unat_eq_iff used)
  then have gen: "src_generated ?t = src_consumed ?t + ucast (src_used ?t)"
    by (simp add: r(7) add.assoc)
  have "unat (src_generated s + b) = unat (src_generated s) + unat b"
    using room by (simp add: unat_add_no_wrap)
  then have dvd: "(unat (src_rate s) div 50) dvd unat (src_generated s + b)"
    using r(9) by (simp add: ub)
  show "source_ok ?t"
    unfolding source_ok_def using r ring used le cont gen dvd
    by (simp add: stress_put_block_def [of b s] Let_def)
qed

text \<open>The generation loop as a whole.  Either every owed block is in the ring, or the ring was
  full and the shortfall is recorded.\<close>

lemma dvd_step_bound:
  "(b :: nat) dvd g \<Longrightarrow> b dvd e \<Longrightarrow> g < e \<Longrightarrow> g + b \<le> e"
  by (metis dvd_diff_nat dvd_imp_le le_add_diff_inverse less_imp_le_nat nat_add_left_cancel_le zero_less_diff)

lemma stress_fill_spec:
  assumes "source_ok s" "(unat (src_rate s) div 50) dvd unat (src_expected s)"
    and "stress_fill s = (r, t)"
  shows "source_ok t \<and> src_rate t = src_rate s \<and> src_seed t = src_seed s \<and>
     src_start_ms t = src_start_ms s \<and> src_elapsed_ms t = src_elapsed_ms s \<and>
     src_expected t = src_expected s \<and> src_consumed t = src_consumed s \<and>
     src_head t = src_head s \<and> src_generated s \<le> src_generated t \<and>
     (r \<longrightarrow> src_error t = src_error s \<and> src_frozen t = src_frozen s \<and>
          (unat (src_rate s) div 50 \<noteq> 0 \<longrightarrow> src_expected t \<le> src_generated t)) \<and>
     (\<not> r \<longrightarrow> src_error t = ZY100_STRESS_RING_FULL \<and> src_frozen t \<and>
          src_generated t + src_rejected t = src_expected t \<and> src_generated t < src_expected t \<and>
          4096 < unat (src_used t) + unat (src_rate s) div 50)"
  using assms
proof (induction s rule: stress_fill.induct)
  case (1 s)
  let ?b = "src_rate s div 50"
  have ub: "unat ?b = unat (src_rate s) div 50" by (simp add: unat_div)
  show ?case
  proof (cases "?b = 0")
    case True
    then have "stress_fill s = (True, s)" by (subst stress_fill.simps) simp
    moreover have "unat (src_rate s) div 50 = 0" using True ub by (metis unat_0)
    ultimately show ?thesis using "1.prems" by simp
  next
    case b: False
    show ?thesis
    proof (cases "src_generated s < src_expected s")
      case False
      then have "stress_fill s = (True, s)" using b by (subst stress_fill.simps) simp
      then show ?thesis using "1.prems" False by (auto simp: not_less)
    next
      case lt: True
      show ?thesis
      proof (cases "ucast (src_used s) + ?b > (4096 :: u32)")
        case True
        then have "stress_fill s = (False, s\<lparr>src_rejected := src_expected s - src_generated s,
            src_error := ZY100_STRESS_RING_FULL, src_frozen := True\<rparr>)"
          using b lt by (subst stress_fill.simps) simp
        moreover have "4096 < unat (src_used s) + unat (src_rate s) div 50"
          using True by (simp add: word_less_nat_alt used_block_sum)
        ultimately show ?thesis
          using "1.prems" lt by (auto simp: source_ok_def src_contents_def the_ring_def)
      next
        case fits: False
        let ?s1 = "stress_put_block ?b s"
        have gb: "unat (src_generated s) + unat ?b \<le> unat (src_expected s)"
          using dvd_step_bound [of "unat ?b" "unat (src_generated s)" "unat (src_expected s)"]
            "1.prems"(1,2) lt by (auto simp: source_ok_def ub word_less_nat_alt)
        then have room: "unat (src_generated s) + unat ?b < 2 ^ 32"
          using unat_lt_32 [of "src_expected s"] by simp
        have ok1: "source_ok ?s1" by (rule put_block_ok(1) [OF "1.prems"(1) refl fits room])
        have step: "stress_fill s = stress_fill ?s1"
          using b lt fits by (subst stress_fill.simps) simp
        have mono: "src_generated s \<le> src_generated s + ?b"
          using room by (simp add: word_le_nat_alt unat_add_no_wrap)
        have "stress_fill ?s1 = (r, t)" using step "1.prems"(3) by simp
        with "1.IH" [of ?b] b lt fits ok1 "1.prems"(2) mono show ?thesis by auto
      qed
    qed
  qed
qed

section \<open>Tick and freeze\<close>

lemma source_ok_upd [simp]:
  "source_ok (s\<lparr>src_elapsed_ms := x\<rparr>) = source_ok s"
  "source_ok (s\<lparr>src_expected := x\<rparr>) = source_ok s"
  "source_ok (s\<lparr>src_error := e\<rparr>) = source_ok s"
  "source_ok (s\<lparr>src_frozen := f\<rparr>) = source_ok s"
  by (simp_all add: source_ok_def src_contents_def the_ring_def)

lemma unat_expected:
  fixes e b :: u32
  assumes "\<not> (ucast e * ucast b :: u64) > 0xFFFFFFFF"
  shows "unat (ucast (ucast e * ucast b :: u64) :: u32) = unat e * unat b"
proof -
  have "unat e * unat b \<le> 4294967295 * 4294967295"
    using unat_lt_32 [of e] unat_lt_32 [of b] by (intro mult_le_mono) linarith+
  then have m: "unat (ucast e * ucast b :: u64) = unat e * unat b"
    by (simp add: unat_word_ariths)
  then have "unat e * unat b \<le> 0xFFFFFFFF" using assms by (simp add: word_less_nat_alt not_less)
  then show ?thesis by (simp add: unsigned_ucast_eq m take_bit_nat_eq_self_iff)
qed

lemma tick_spec:
  assumes ok: "source_ok s" and t: "zy100_stress_source_tick s now = (r, t)"
  shows "source_ok t \<and> src_rate t = src_rate s \<and> src_seed t = src_seed s \<and>
     src_consumed t = src_consumed s \<and> src_head t = src_head s \<and>
     src_generated s \<le> src_generated t"
    and "r \<Longrightarrow> src_error t = 0"
    and "\<not> r \<Longrightarrow> src_error t \<noteq> 0"
    and "\<lbrakk>r; \<not> src_frozen s; 50 \<le> src_rate s\<rbrakk> \<Longrightarrow> src_expected t \<le> src_generated t"
    and "\<lbrakk>r; \<not> src_frozen s\<rbrakk> \<Longrightarrow>
      unat (src_expected t) = unat ((now - src_start_ms s) div 20) * (unat (src_rate s) div 50)"
    and "\<lbrakk>\<not> r; src_error s = 0; \<not> src_frozen s; src_error t = ZY100_STRESS_RING_FULL\<rbrakk> \<Longrightarrow>
      src_generated t + src_rejected t = src_expected t \<and> src_generated t < src_expected t"
proof -
  define s1 where "s1 = s\<lparr>src_elapsed_ms := now - src_start_ms s\<rparr>"
  define e where "e = (ucast (src_elapsed_ms s1 div 20) * ucast (src_rate s1 div 50) :: u64)"
  define s2 where "s2 = s1\<lparr>src_expected := ucast e\<rparr>"
  obtain ring where ring: "src_ring s = Some ring" using ok by (auto simp: source_ok_def)
  have tick: "zy100_stress_source_tick s now =
      (if src_frozen s \<or> src_error s \<noteq> 0 then (src_error s = 0, s)
       else if e > 0xFFFFFFFF \<or> src_elapsed_ms s1 \<ge> 0x80000000
       then (False, s1\<lparr>src_error := ZY100_STRESS_RANGE, src_frozen := True\<rparr>)
       else stress_fill s2)"
    using ring by (simp add: zy100_stress_source_tick_def s2_def e_def s1_def Let_def)
  consider (stop) "src_frozen s \<or> src_error s \<noteq> 0" "r = (src_error s = 0)" "t = s"
    | (range) "\<not> src_frozen s" "src_error s = 0" "\<not> r"
        "t = s1\<lparr>src_error := ZY100_STRESS_RANGE, src_frozen := True\<rparr>"
    | (fill) "\<not> src_frozen s" "src_error s = 0" "\<not> e > 0xFFFFFFFF" "stress_fill s2 = (r, t)"
  proof (cases "src_frozen s \<or> src_error s \<noteq> 0")
    case True
    then have "zy100_stress_source_tick s now = (src_error s = 0, s)" using tick by simp
    then have "r = (src_error s = 0)" "t = s" using t by auto
    with True show ?thesis by (rule stop)
  next
    case no: False
    show ?thesis
    proof (cases "e > 0xFFFFFFFF \<or> src_elapsed_ms s1 \<ge> 0x80000000")
      case True
      then have "zy100_stress_source_tick s now =
          (False, s1\<lparr>src_error := ZY100_STRESS_RANGE, src_frozen := True\<rparr>)"
        using tick no by simp
      then have "\<not> r" "t = s1\<lparr>src_error := ZY100_STRESS_RANGE, src_frozen := True\<rparr>"
        using t by auto
      with no show ?thesis using range by blast
    next
      case False
      then have "zy100_stress_source_tick s now = stress_fill s2" using tick no by simp
      then have "stress_fill s2 = (r, t)" using t by simp
      with no False show ?thesis using fill by blast
    qed
  qed
  note cs = this
  have fill: "source_ok s2 \<and> src_rate s2 = src_rate s \<and> src_seed s2 = src_seed s \<and>
      src_consumed s2 = src_consumed s \<and> src_head s2 = src_head s \<and>
      src_generated s2 = src_generated s \<and> src_error s2 = src_error s \<and> src_expected s2 = ucast e"
    using ok by (simp add: s2_def s1_def)
  have e: "unat (src_expected s2) = unat ((now - src_start_ms s) div 20) * (unat (src_rate s) div 50)"
    if "\<not> e > 0xFFFFFFFF"
    using unat_expected [OF that [unfolded e_def]] by (simp add: s2_def e_def s1_def unat_div)
  have spec: "source_ok t \<and> src_rate t = src_rate s \<and> src_seed t = src_seed s \<and>
      src_consumed t = src_consumed s \<and> src_head t = src_head s \<and>
      src_generated s \<le> src_generated t \<and> src_expected t = src_expected s2 \<and>
      (r \<longrightarrow> src_error t = 0 \<and> (unat (src_rate s) div 50 \<noteq> 0 \<longrightarrow> src_expected t \<le> src_generated t)) \<and>
      (\<not> r \<longrightarrow> src_error t = 1 \<and> src_generated t + src_rejected t = src_expected t
         \<and> src_generated t < src_expected t)"
    if f: "\<not> e > 0xFFFFFFFF" "stress_fill s2 = (r, t)" "src_error s = 0"
    using stress_fill_spec [of s2 r t] fill f e [OF f(1)] by auto
  show "source_ok t \<and> src_rate t = src_rate s \<and> src_seed t = src_seed s \<and>
     src_consumed t = src_consumed s \<and> src_head t = src_head s \<and> src_generated s \<le> src_generated t"
    using cs by cases (use ok spec in \<open>auto simp: s1_def\<close>)
  show "r \<Longrightarrow> src_error t = 0" using cs by cases (use spec in auto)
  show "\<not> r \<Longrightarrow> src_error t \<noteq> 0" using cs by cases (use spec in auto)
  show "\<lbrakk>r; \<not> src_frozen s; 50 \<le> src_rate s\<rbrakk> \<Longrightarrow> src_expected t \<le> src_generated t"
  proof -
    assume h: "r" "\<not> src_frozen s" "50 \<le> src_rate s"
    then have "50 \<le> unat (src_rate s)" by (simp add: word_le_nat_alt)
    then have "unat (src_rate s) div 50 \<noteq> 0" by auto
    with cs h spec show ?thesis by cases auto
  qed
  show "\<lbrakk>r; \<not> src_frozen s\<rbrakk> \<Longrightarrow>
      unat (src_expected t) = unat ((now - src_start_ms s) div 20) * (unat (src_rate s) div 50)"
    using cs by cases (use spec e in auto)
  show "\<lbrakk>\<not> r; src_error s = 0; \<not> src_frozen s; src_error t = ZY100_STRESS_RING_FULL\<rbrakk> \<Longrightarrow>
      src_generated t + src_rejected t = src_expected t \<and> src_generated t < src_expected t"
    using cs by cases (use spec in auto)
qed

lemma source_begin_ok:
  "zy100_stress_source_begin s (Some ring) rate seed now = (True, t) \<Longrightarrow> length ring = 4096 \<Longrightarrow>
   source_ok t"
  by (auto simp: zy100_stress_source_begin_def stress_source_zero_def source_ok_def
      src_contents_def the_ring_def pattern_run_def split: if_splits)

section \<open>Copy, consume and the FIFO interface\<close>

lemma count_le: "\<not> count > ucast (u :: u16) \<longleftrightarrow> unat (count :: u32) \<le> unat u"
  by (simp add: word_less_nat_alt not_less)

lemma copy_eq:
  assumes "source_ok s" "unat count \<le> unat (src_used s)"
  shows "zy100_stress_source_copy s dst off count =
    (True, put_at off (take (unat count) (src_contents s)) dst)"
proof -
  obtain ring where r: "the_ring s = ring" "length ring = 4096" "unat (src_head s) < 4096"
      "unat (src_used s) \<le> 4096"
    using assms(1) by (rule source_okE)
  have idx: "unat ((ucast (src_head s) + of_nat i) mod 4096 :: u32) = (unat (src_head s) + i) mod 4096"
    if "i < unat count" for i
    using that assms(2) r by (simp add: mod_4096_unat unat_word_ariths take_bit_nat_eq_self_iff
        unat_of_nat mod_simps)
  have "map (\<lambda>i. the_ring s ! unat ((ucast (src_head s) + of_nat i) mod ZY100_STRESS_RING_BYTES))
      [0..<unat count] = ring_contents ring (unat (src_head s)) (unat count)"
    using r by (auto simp: ring_contents_def idx)
  then show ?thesis
    using assms(2) r
    by (simp add: zy100_stress_source_copy_def count_le src_contents_def take_ring_contents)
qed

lemma copy_refused:
  "unat (src_used s) < unat count \<Longrightarrow> zy100_stress_source_copy s dst off count = (False, dst)"
  by (simp add: zy100_stress_source_copy_def word_less_nat_alt)

lemma consume_refused:
  "unat (src_used s) < unat count \<Longrightarrow> zy100_stress_source_consume s count = (False, s)"
  by (simp add: zy100_stress_source_consume_def word_less_nat_alt)

lemma consume_ok:
  assumes ok: "source_ok s" and le: "unat count \<le> unat (src_used s)"
  shows "\<exists>t. zy100_stress_source_consume s count = (True, t) \<and> source_ok t \<and>
     src_contents t = drop (unat count) (src_contents s) \<and>
     src_consumed t = src_consumed s + count \<and> src_generated t = src_generated s \<and>
     src_seed t = src_seed s \<and> src_rate t = src_rate s \<and> src_error t = src_error s \<and>
     src_frozen t = src_frozen s \<and> src_start_ms t = src_start_ms s \<and>
     unat (src_used t) = unat (src_used s) - unat count"
proof -
  obtain ring where r: "src_ring s = Some ring" "the_ring s = ring" "length ring = 4096"
      "unat (src_head s) < 4096" "unat (src_used s) \<le> 4096" "length (src_delays s) = 16"
      "src_generated s = src_consumed s + ucast (src_used s)"
      "src_contents s = pattern_run (src_seed s) (src_consumed s) (unat (src_used s))"
      "(unat (src_rate s) div 50) dvd unat (src_generated s)"
    using ok by (rule source_okE)
  define t where "t = s\<lparr>src_head := ucast ((ucast (src_head s) + count) mod 4096 :: u32),
      src_used := ucast (ucast (src_used s) - count), src_consumed := src_consumed s + count\<rparr>"
  have run: "zy100_stress_source_consume s count = (True, t)"
    using le by (simp add: zy100_stress_source_consume_def count_le t_def)
  have le': "count \<le> ucast (src_used s)" using le by (simp add: word_le_nat_alt)
  have u: "unat (src_used t) = unat (src_used s) - unat count"
    unfolding t_def using le le' r(5) by (simp add: unat_ucast_32_16 unat_sub)
  have "unat ((ucast (src_head s) + count) mod 4096 :: u32) = (unat (src_head s) + unat count) mod 4096"
    using le r(4,5) by (simp add: mod_4096_unat unat_add_no_wrap)
  then have h: "unat (src_head t) = (unat (src_head s) + unat count) mod 4096"
    unfolding t_def by (simp add: unat_ucast_32_16 less_trans [OF mod_less_divisor])
  have "ucast (src_used t) = (ucast (src_used s) - count :: u32)"
    using u le' by (simp add: word_unat_eq_iff unat_sub)
  then have gen: "src_generated t = src_consumed t + ucast (src_used t)"
    by (simp add: t_def r(7))
  have ring_t: "the_ring t = ring" "src_ring t = Some ring" using r by (simp_all add: t_def the_ring_def)
  have cont: "src_contents t = drop (unat count) (src_contents s)"
    unfolding src_contents_def ring_t r(2) h u using r(3) by (simp add: drop_ring_contents)
  also have "\<dots> = pattern_run (src_seed t) (src_consumed t) (unat (src_used t))"
    using le by (simp add: r(8) drop_pattern_run u) (simp add: t_def)
  finally have "source_ok t"
    unfolding source_ok_def using r ring_t h u gen by (auto simp: t_def)
  then show ?thesis using run cont u by (auto simp: t_def)
qed

definition source_peek :: "u32 \<Rightarrow> stress_source \<Rightarrow> u8 list option" where
  "source_peek n s = (case zy100_stress_source_copy s (replicate (unat n) 0) 0 n of
     (True, bs) \<Rightarrow> Some bs | (False, _) \<Rightarrow> None)"

definition source_discard :: "u32 \<Rightarrow> stress_source \<Rightarrow> stress_source option" where
  "source_discard n s = (case zy100_stress_source_consume s n of
     (True, t) \<Rightarrow> Some t | (False, _) \<Rightarrow> None)"

lemma length_src_contents [simp]: "length (src_contents s) = unat (src_used s)"
  by (simp add: src_contents_def)

interpretation source_fifo: byte_fifo source_ok src_contents unat source_peek source_discard
proof (unfold_locales, goal_cases)
  case (1 s n)
  then have "unat n \<le> unat (src_used s)" by simp
  with 1 show ?case by (simp add: source_peek_def copy_eq put_at_def)
next
  case (2 s n) then show ?case by (simp add: source_peek_def copy_refused)
next
  case (3 s n)
  then show ?case using consume_ok [of s n] by (auto simp: source_discard_def)
next
  case (4 s n) then show ?case by (simp add: source_discard_def consume_refused)
qed

section \<open>The record header\<close>

lemma header_some:
  assumes "zy100_stress_source_header s page blocks = (True, hdr)"
  shows "src_rate s \<noteq> 0" "blocks = 1 \<or> blocks = 2" "src_consumed s mod (src_rate s div 50) = 0"
    "blocks * (src_rate s div 50) \<le> ucast (src_used s)"
proof -
  have c: "src_rate s \<noteq> 0 \<and> blocks \<noteq> 0 \<and> \<not> blocks > 2 \<and>
      src_consumed s mod (src_rate s div 50) = 0 \<and> \<not> blocks * (src_rate s div 50) > ucast (src_used s)"
    using assms by (auto simp: zy100_stress_source_header_def Let_def split: if_splits)
  then show "src_rate s \<noteq> 0" "src_consumed s mod (src_rate s div 50) = 0"
    "blocks * (src_rate s div 50) \<le> ucast (src_used s)" by auto
  have "unat blocks \<noteq> 0" "unat blocks \<le> 2" using c by (auto simp: word_less_nat_alt unat_eq_zero)
  then have "unat blocks = 1 \<or> unat blocks = 2" by linarith
  then show "blocks = 1 \<or> blocks = 2" by (auto simp: word_unat_eq_iff)
qed

lemma header_layout:
  assumes h: "zy100_stress_source_header s page blocks = (True, hdr)" and len: "64 \<le> length page"
  shows "length hdr = length page" "take 4 hdr = STRS" "hdr ! 4 = 1" "hdr ! 6 = 64"
    "zy100_get_u32_le hdr 8 = src_seed s"
    "zy100_get_u32_le hdr 12 = src_rate s"
    "zy100_get_u32_le hdr 16 = 20"
    "zy100_get_u32_le hdr 20 = src_consumed s div (src_rate s div 50)"
    "zy100_get_u32_le hdr 24 = blocks"
    "zy100_get_u32_le hdr 28 = src_consumed s"
    "zy100_get_u32_le hdr 32 = blocks * (src_rate s div 50)"
    "zy100_get_u32_le hdr 36 = (src_consumed s div (src_rate s div 50) + 1) * 20"
    "zy100_get_u32_le hdr 40 = src_delays s ! unat (src_consumed s div (src_rate s div 50) mod 16)"
    "zy100_get_u32_le hdr 48 = 1"
    "zy100_get_u32_le hdr 52 = src_start_ms s"
    "drop 64 hdr = drop 64 page"
  using h len
  by (auto simp: zy100_stress_source_header_def Let_def put_at_def STRS_def split: if_splits)

section \<open>Properties\<close>

text \<open>A freshly started source and its state after 40 ms: the concrete input of the witnesses.\<close>

definition demo_source :: stress_source where
  "demo_source = snd (zy100_stress_source_begin stress_source_zero (Some (replicate 4096 0)) 16000 7 100)"

lemma demo_source_ok: "source_ok demo_source"
proof -
  have "zy100_stress_source_begin stress_source_zero (Some (replicate 4096 0)) 16000 7 100 = (True, demo_source)"
    by (simp add: demo_source_def zy100_stress_source_begin_def zy100_stress_rate_valid_def)
  then show ?thesis by (rule source_begin_ok) simp
qed

lemma demo_source_fields [simp]:
  "src_rate demo_source = 16000" "src_error demo_source = 0" "\<not> src_frozen demo_source"
  "src_start_ms demo_source = 100" "src_used demo_source = 0" "src_generated demo_source = 0"
  "src_consumed demo_source = 0" "src_seed demo_source = 7"
  by (simp_all add: demo_source_def zy100_stress_source_begin_def zy100_stress_rate_valid_def
      stress_source_zero_def)

text \<open>C31: a tick generates exactly what the elapsed time owes.  On a running source it keeps the
  ring invariant and the consumed bytes; if it succeeds, at least \<open>floor(elapsed / 20) * (rate / 50)\<close>
  bytes have been generated; if it fails, an error is latched, and when the ring was full the bytes
  still missing are counted as rejected.\<close>

theorem tick_generates_owed:
  assumes "source_ok s" "\<not> src_frozen s" "src_error s = 0" "50 \<le> src_rate s"
    and "zy100_stress_source_tick s now = (r, t)"
  shows "source_ok t \<and> src_consumed t = src_consumed s \<and> src_generated s \<le> src_generated t \<and>
    (r \<longrightarrow> src_error t = 0 \<and> src_expected t \<le> src_generated t \<and>
       unat (src_expected t) = unat ((now - src_start_ms s) div 20) * (unat (src_rate s) div 50)) \<and>
    (\<not> r \<longrightarrow> src_error t \<noteq> 0 \<and>
       (src_error t = ZY100_STRESS_RING_FULL \<longrightarrow>
          src_generated t + src_rejected t = src_expected t \<and> src_generated t < src_expected t))"
  using tick_spec [OF assms(1,5)] assms(2,3,4) by blast

theorem tick_generates_owed_witness:
  "source_ok (snd (zy100_stress_source_tick demo_source 140)) \<and>
   src_consumed (snd (zy100_stress_source_tick demo_source 140)) = 0"
  using tick_generates_owed [OF demo_source_ok, of 140 "fst (zy100_stress_source_tick demo_source 140)"
      "snd (zy100_stress_source_tick demo_source 140)"]
  by (simp add: word_le_nat_alt)

text \<open>C32: whatever chunks the writer copies and consumes, it gets the seeded pattern in order,
  starting at the consumed offset, and the ring invariant holds for the rest.\<close>

theorem drained_bytes_are_the_pattern:
  assumes "source_ok s" "\<forall>n \<in> set ns. 0 < unat n" "sum_list (map unat ns) \<le> unat (src_used s)"
  shows "\<exists>t. fifo_drain source_peek source_discard ns s =
      Some (pattern_run (src_seed s) (src_consumed s) (sum_list (map unat ns)), t) \<and>
    source_ok t \<and> unat (src_used t) = unat (src_used s) - sum_list (map unat ns)"
proof -
  obtain t where t: "fifo_drain source_peek source_discard ns s =
      Some (take (sum_list (map unat ns)) (src_contents s), t)" "source_ok t"
      "src_contents t = drop (sum_list (map unat ns)) (src_contents s)"
    using source_fifo.drain_prefix [OF assms(1,2)] assms(3) by auto
  have "src_contents s = pattern_run (src_seed s) (src_consumed s) (unat (src_used s))"
    using assms(1) by (auto elim: source_okE)
  moreover have "unat (src_used t) = unat (src_used s) - sum_list (map unat ns)"
    using arg_cong [OF t(3), of length] by simp
  ultimately show ?thesis using t assms(3) by (simp add: take_pattern_run)
qed

text \<open>A source holding one block of 320 pattern bytes.\<close>

definition demo_filled :: stress_source where
  "demo_filled = stress_put_block 320 demo_source"

lemma demo_filled_ok: "source_ok demo_filled" "unat (src_used demo_filled) = 320"
  unfolding demo_filled_def
  using put_block_ok [OF demo_source_ok, of 320] by simp_all

theorem drained_bytes_are_the_pattern_witness:
  "\<exists>t. fifo_drain source_peek source_discard [100, 20] demo_filled = Some (pattern_run 7 0 120, t)"
proof -
  have "\<forall>n \<in> set [100 :: u32, 20]. 0 < unat n" "sum_list (map unat [100 :: u32, 20]) \<le> unat (src_used demo_filled)"
    by (simp_all add: demo_filled_ok)
  from drained_bytes_are_the_pattern [OF demo_filled_ok(1) this] show ?thesis
    by (auto simp: demo_filled_def)
qed

text \<open>C33: the 64 byte record header carries the seed, the rate, the period, the block sequence
  number, the byte offset and the length of the data that follows, and leaves the bytes behind it
  alone; it is only produced on a block boundary and for data the ring holds.\<close>

theorem record_header_layout:
  assumes "zy100_stress_source_header s page blocks = (True, hdr)" "64 \<le> length page"
  shows "take 4 hdr = STRS \<and> hdr ! 4 = 1 \<and> hdr ! 6 = 64 \<and>
    zy100_get_u32_le hdr 8 = src_seed s \<and> zy100_get_u32_le hdr 12 = src_rate s \<and>
    zy100_get_u32_le hdr 16 = 20 \<and>
    zy100_get_u32_le hdr 20 = src_consumed s div (src_rate s div 50) \<and>
    zy100_get_u32_le hdr 24 = blocks \<and> zy100_get_u32_le hdr 28 = src_consumed s \<and>
    zy100_get_u32_le hdr 32 = blocks * (src_rate s div 50) \<and>
    drop 64 hdr = drop 64 page \<and>
    src_consumed s mod (src_rate s div 50) = 0 \<and>
    blocks * (src_rate s div 50) \<le> ucast (src_used s)"
  using header_layout [OF assms] header_some [OF assms(1)] by simp

theorem record_header_layout_witness:
  "zy100_get_u32_le (snd (zy100_stress_source_header (demo_source\<lparr>src_used := 320\<rparr>)
     (replicate 256 0xFF) 1)) 32 = 320"
proof -
  have "zy100_stress_source_header (demo_source\<lparr>src_used := 320\<rparr>) (replicate 256 0xFF) 1 =
      (True, snd (zy100_stress_source_header (demo_source\<lparr>src_used := 320\<rparr>) (replicate 256 0xFF) 1))"
    by (simp add: zy100_stress_source_header_def Let_def)
  from record_header_layout [OF this] show ?thesis by simp
qed

end
