(* ===== verification/StressDiag.thy ===== *)
theory StressDiag
  imports ByteRing
begin

text \<open>
  The stress diagnostics: \<open>online_stress_test/src/zy100_stress_diag.c\<close> with
  \<open>ZY100_STRESS_IO_DIAG_ENABLE\<close>, \<open>BOUNDED_PUMP\<close> and \<open>ERASE_AHEAD\<close> on, as the stress
  build has them.  The static \<open>s_diag\<close> is the record \<open>sd_state\<close>; every operation takes and
  returns it.  The two clocks an operation reads (the millisecond time in \<open>prepare\<close>, the
  1 MHz down counter in \<open>freeze\<close>) are arguments; the counter is an option because the
  snapshot can fail.  A log line is its prefix, its text and its values.
\<close>

unbundle bit_operations_syntax

section \<open>Data\<close>

abbreviation (input) "SD_IO_PENDING \<equiv> (1 :: u32)"
abbreviation (input) "SD_IO_OVERFLOW \<equiv> (2 :: u32)"
abbreviation (input) "SD_IO_CLOCK \<equiv> (4 :: u32)"
abbreviation (input) "SD_IO_POLLED \<equiv> (8 :: u32)"
abbreviation (input) "SD_IO_BUS \<equiv> (16 :: u32)"
abbreviation (input) "SD_IO_WIP \<equiv> (32 :: u32)"
abbreviation (input) "SD_DEPTH \<equiv> (12 :: u32)"
abbreviation (input) "ZY100_SD_COUNT \<equiv> (9 :: u32)"
abbreviation (input) "ZY100_ONLINE_PUMP_MAX_STEPS \<equiv> (8 :: u32)"
abbreviation (input) "ZY100_ONLINE_PUMP_BUDGET_US \<equiv> (2000 :: u32)"

abbreviation (input) "ZY100_SD_OTHER \<equiv> (0 :: u32)"
abbreviation (input) "ZY100_SD_RAW_WRITE \<equiv> (1 :: u32)"
abbreviation (input) "ZY100_SD_RAW_COMMIT \<equiv> (2 :: u32)"
abbreviation (input) "ZY100_SD_ERASE \<equiv> (3 :: u32)"
abbreviation (input) "ZY100_SD_RESERVE \<equiv> (4 :: u32)"
abbreviation (input) "ZY100_SD_PROGRAM \<equiv> (5 :: u32)"
abbreviation (input) "ZY100_SD_VERIFY \<equiv> (6 :: u32)"
abbreviation (input) "ZY100_SD_COMMIT \<equiv> (7 :: u32)"
abbreviation (input) "ZY100_SD_PAIR \<equiv> (8 :: u32)"

record sd_io =
  io_metric :: "u32 list list"
  io_bus_count :: u32
  io_wip_count :: u32
  io_issue :: u32
  io_last_poll :: u32
  io_spans :: u32
  io_span_total :: u32
  io_span_max :: u32
  io_poll_max :: u32
  io_open_age :: u32
  io_flags :: u32
  io_bus_wait :: u32
  io_wip_wait :: u32

record sd_event =
  ev_ms :: u32
  ev_water :: u16
  ev_stage :: u8

record sd_state =
  sd_total :: "u32 list"
  sd_peak :: "u32 list"
  sd_gap_parts :: "u32 list"
  sd_best_parts :: "u32 list"
  sd_events :: "sd_event list"
  sd_session :: u32
  sd_start :: u32
  sd_rate :: u32
  sd_prepare_base :: u32
  sd_erase_base :: u32
  sd_prepare_erases :: u32
  sd_last :: u32
  sd_stage_since :: u32
  sd_pump_last :: u32
  sd_pump_max :: u32
  sd_gap_start :: u32
  sd_gap_water :: u32
  sd_best_start :: u32
  sd_best_end :: u32
  sd_best_water_start :: u32
  sd_best_water_end :: u32
  sd_best_freed :: u32
  sd_water :: u32
  sd_released :: u32
  sd_record_start :: u32
  sd_record_kind :: u32
  sd_record_page :: u32
  sd_record_pages :: u32
  sd_raw_max :: u32
  sd_stress_max :: u32
  sd_end :: u32
  sd_error :: u32
  sd_transitions :: u32
  sd_service_calls :: u32
  sd_service_steps :: u32
  sd_service_peak_us :: u32
  sd_service_limits :: u32
  sd_service_waits :: u32
  sd_service_clock_missing :: u32
  sd_erase_background :: u32
  sd_erase_urgent :: u32
  sd_erase_ahead_min :: u32
  sd_prepare_ms :: u32
  sd_io :: sd_io
  sd_stage :: u8
  sd_next :: u8
  sd_count :: u8
  sd_active :: bool
  sd_frozen :: bool
  sd_gap_active :: bool
  sd_pump_seen :: bool
  sd_prepared :: bool
  sd_best_open :: bool

definition sd_io_zero :: sd_io where
  "sd_io_zero = \<lparr>io_metric = replicate 4 (replicate 3 0), io_bus_count = 0, io_wip_count = 0,
     io_issue = 0, io_last_poll = 0, io_spans = 0, io_span_total = 0, io_span_max = 0,
     io_poll_max = 0, io_open_age = 0, io_flags = 0, io_bus_wait = 0, io_wip_wait = 0\<rparr>"

definition sd_zero :: sd_state where
  "sd_zero = \<lparr>sd_total = replicate 9 0, sd_peak = replicate 9 0, sd_gap_parts = replicate 9 0,
     sd_best_parts = replicate 9 0,
     sd_events = replicate 12 \<lparr>ev_ms = 0, ev_water = 0, ev_stage = 0\<rparr>,
     sd_session = 0, sd_start = 0, sd_rate = 0, sd_prepare_base = 0, sd_erase_base = 0,
     sd_prepare_erases = 0, sd_last = 0, sd_stage_since = 0, sd_pump_last = 0, sd_pump_max = 0,
     sd_gap_start = 0, sd_gap_water = 0, sd_best_start = 0, sd_best_end = 0,
     sd_best_water_start = 0, sd_best_water_end = 0, sd_best_freed = 0, sd_water = 0,
     sd_released = 0, sd_record_start = 0, sd_record_kind = 0, sd_record_page = 0,
     sd_record_pages = 0, sd_raw_max = 0, sd_stress_max = 0, sd_end = 0, sd_error = 0,
     sd_transitions = 0, sd_service_calls = 0, sd_service_steps = 0, sd_service_peak_us = 0,
     sd_service_limits = 0, sd_service_waits = 0, sd_service_clock_missing = 0,
     sd_erase_background = 0, sd_erase_urgent = 0, sd_erase_ahead_min = 0, sd_prepare_ms = 0,
     sd_io = sd_io_zero, sd_stage = 0, sd_next = 0, sd_count = 0, sd_active = False,
     sd_frozen = False, sd_gap_active = False, sd_pump_seen = False, sd_prepared = False,
     sd_best_open = False\<rparr>"

section \<open>Flash I/O counters\<close>

definition sd_max :: "u32 \<Rightarrow> u32 \<Rightarrow> u32" where
  "sd_max a b = (if a > b then a else b)"

text \<open>\<open>sd_io_add(&io->field, n)\<close>: the field is given by its selector and its update.\<close>

definition sd_io_add :: "(sd_io \<Rightarrow> u32) \<Rightarrow> ((u32 \<Rightarrow> u32) \<Rightarrow> sd_io \<Rightarrow> sd_io) \<Rightarrow> u32 \<Rightarrow> sd_io \<Rightarrow> sd_io" where
  "sd_io_add sel upd n io =
     (if n > 0xFFFFFFFF - sel io
      then (upd (\<lambda>_. 0xFFFFFFFF) io)\<lparr>io_flags := io_flags (upd (\<lambda>_. 0xFFFFFFFF) io) OR SD_IO_OVERFLOW\<rparr>
      else upd (\<lambda>_. sel io + n) io)"

definition metric_sel :: "nat \<Rightarrow> nat \<Rightarrow> sd_io \<Rightarrow> u32" where
  "metric_sel k j io = io_metric io ! k ! j"

definition metric_upd :: "nat \<Rightarrow> nat \<Rightarrow> (u32 \<Rightarrow> u32) \<Rightarrow> sd_io \<Rightarrow> sd_io" where
  "metric_upd k j f io = io\<lparr>io_metric := (io_metric io)[k := (io_metric io ! k)[j := f (io_metric io ! k ! j)]]\<rparr>"

definition zy100_stress_diag_io_note :: "u32 \<Rightarrow> u32 \<Rightarrow> bool \<Rightarrow> sd_state \<Rightarrow> sd_state" where
  "zy100_stress_diag_io_note kind elapsed valid d =
     (if \<not> sd_active d \<or> sd_frozen d \<or> kind \<ge> 4 then d
      else
        let k = unat kind;
            io1 = sd_io_add (metric_sel k 0) (metric_upd k 0) 1 (sd_io d)
        in if \<not> valid then d\<lparr>sd_io := io1\<lparr>io_flags := io_flags io1 OR SD_IO_CLOCK\<rparr>\<rparr>
           else
             let io2 = sd_io_add (metric_sel k 1) (metric_upd k 1) elapsed io1
             in d\<lparr>sd_io := metric_upd k 2 (\<lambda>m. sd_max m elapsed) io2\<rparr>)"

definition zy100_stress_diag_io_issue :: "u32 \<Rightarrow> bool \<Rightarrow> sd_state \<Rightarrow> sd_state" where
  "zy100_stress_diag_io_issue counter valid d =
     (if \<not> sd_active d \<or> sd_frozen d then d
      else if \<not> valid then d\<lparr>sd_io := (sd_io d)\<lparr>io_flags := io_flags (sd_io d) OR SD_IO_CLOCK\<rparr>\<rparr>
      else d\<lparr>sd_io := (sd_io d)\<lparr>io_issue := counter, io_last_poll := counter,
             io_flags := (io_flags (sd_io d) AND (SD_IO_OVERFLOW OR SD_IO_CLOCK)) OR SD_IO_PENDING\<rparr>\<rparr>)"

definition zy100_stress_diag_io_bus :: "sd_state \<Rightarrow> sd_state" where
  "zy100_stress_diag_io_bus d =
     (if sd_active d \<and> \<not> sd_frozen d
      then d\<lparr>sd_io := sd_io_add io_bus_count io_bus_count_update 1 (sd_io d)\<rparr> else d)"

definition zy100_stress_diag_io_poll ::
  "u32 \<Rightarrow> bool \<Rightarrow> bool \<Rightarrow> bool \<Rightarrow> bool \<Rightarrow> sd_state \<Rightarrow> sd_state" where
  "zy100_stress_diag_io_poll counter valid bus wip ok d =
     (if \<not> sd_active d \<or> sd_frozen d then d
      else
        let io1 = (if bus then sd_io_add io_bus_count io_bus_count_update 1 (sd_io d) else sd_io d);
            io2 = (if ok \<and> wip then sd_io_add io_wip_count io_wip_count_update 1 io1 else io1)
        in if \<not> valid then d\<lparr>sd_io := io2\<lparr>io_flags := io_flags io2 OR SD_IO_CLOCK\<rparr>\<rparr>
           else if io_flags io2 AND SD_IO_PENDING = 0 then d\<lparr>sd_io := io2\<rparr>
           else
             let delta = io_last_poll io2 - counter;
                 io3 = io2\<lparr>io_poll_max := sd_max (io_poll_max io2) delta\<rparr>;
                 io4 = (if io_flags io3 AND SD_IO_BUS \<noteq> 0
                        then sd_io_add io_bus_wait io_bus_wait_update delta io3 else io3);
                 io5 = (if io_flags io4 AND SD_IO_WIP \<noteq> 0
                        then sd_io_add io_wip_wait io_wip_wait_update delta io4 else io4);
                 io6 = io5\<lparr>io_last_poll := counter,
                           io_flags := (io_flags io5 AND NOT (SD_IO_BUS OR SD_IO_WIP)) OR
                             (SD_IO_POLLED OR (if bus then SD_IO_BUS else 0) OR
                              (if ok \<and> wip then SD_IO_WIP else 0))\<rparr>
             in if ok \<and> \<not> wip then
                  let delta2 = io_issue io6 - counter;
                      io7 = sd_io_add io_spans io_spans_update 1 io6;
                      io8 = sd_io_add io_span_total io_span_total_update delta2 io7;
                      io9 = io8\<lparr>io_span_max := sd_max (io_span_max io8) delta2\<rparr>
                  in d\<lparr>sd_io := io9\<lparr>io_flags := io_flags io9 AND
                         NOT (SD_IO_PENDING OR SD_IO_POLLED OR SD_IO_BUS OR SD_IO_WIP)\<rparr>\<rparr>
                else d\<lparr>sd_io := io6\<rparr>)"

section \<open>Stage accounting\<close>

definition sd_account :: "u32 \<Rightarrow> sd_state \<Rightarrow> sd_state" where
  "sd_account now d =
     (let delta = now - sd_last d; st = unat (sd_stage d)
      in d\<lparr>sd_total := (sd_total d)[st := sd_total d ! st + delta],
           sd_peak := (sd_peak d)[st := sd_max (sd_peak d ! st) (now - sd_stage_since d)],
           sd_gap_parts := (if sd_gap_active d then (sd_gap_parts d)[st := sd_gap_parts d ! st + delta]
                            else sd_gap_parts d),
           sd_last := now\<rparr>)"

definition sd_event :: "u32 \<Rightarrow> sd_state \<Rightarrow> sd_state" where
  "sd_event now d =
     d\<lparr>sd_events := (sd_events d)[unat (sd_next d) :=
         \<lparr>ev_ms = now - sd_start d, ev_water = ucast (sd_water d), ev_stage = sd_stage d\<rparr>],
       sd_next := ucast ((ucast (sd_next d) + 1) mod SD_DEPTH),
       sd_count := (if ucast (sd_count d) < SD_DEPTH then sd_count d + 1 else sd_count d),
       sd_transitions := sd_transitions d + 1\<rparr>"

definition sd_close_gap :: "u32 \<Rightarrow> u32 \<Rightarrow> u32 \<Rightarrow> bool \<Rightarrow> sd_state \<Rightarrow> sd_state" where
  "sd_close_gap now before freed open d =
     (if sd_gap_active d \<and> now - sd_gap_start d \<ge> sd_best_end d - sd_best_start d
      then d\<lparr>sd_best_start := sd_gap_start d - sd_start d,
             sd_best_end := now - sd_start d,
             sd_best_water_start := sd_gap_water d,
             sd_best_water_end := before,
             sd_best_freed := freed,
             sd_best_open := open,
             sd_best_parts := sd_gap_parts d\<rparr>
      else d)"

definition zy100_stress_diag_prepare :: "u32 \<Rightarrow> u32 \<Rightarrow> sd_state \<Rightarrow> sd_state" where
  "zy100_stress_diag_prepare os_time_ms erase_count d =
     d\<lparr>sd_prepare_ms := os_time_ms, sd_prepare_base := erase_count, sd_prepared := True\<rparr>"

definition zy100_stress_diag_begin :: "u32 \<Rightarrow> u32 \<Rightarrow> u32 \<Rightarrow> u32 \<Rightarrow> sd_state \<Rightarrow> sd_state" where
  "zy100_stress_diag_begin session now rate erase_count d =
     (let prep = (if sd_prepared d then erase_count - sd_prepare_base d else 0xFFFFFFFF);
          prep_ms = (if sd_prepared d then now - sd_prepare_ms d else 0xFFFFFFFF)
      in sd_event now (sd_zero\<lparr>sd_prepare_ms := prep_ms, sd_erase_ahead_min := 0xFFFFFFFF,
           sd_session := session, sd_start := now, sd_rate := rate, sd_last := now,
           sd_stage_since := now, sd_pump_last := now, sd_pump_seen := True,
           sd_erase_base := erase_count, sd_prepare_erases := prep, sd_active := True\<rparr>))"

definition zy100_stress_diag_water :: "u32 \<Rightarrow> u32 \<Rightarrow> sd_state \<Rightarrow> sd_state" where
  "zy100_stress_diag_water now water d =
     (if \<not> sd_active d \<or> sd_frozen d then d
      else
        let d1 = (sd_account now d)\<lparr>sd_water := water\<rparr>
        in if \<not> sd_gap_active d1 \<and> water \<noteq> 0
           then d1\<lparr>sd_gap_active := True, sd_gap_start := now, sd_gap_water := water,
                   sd_gap_parts := replicate 9 0\<rparr>
           else d1)"

definition zy100_stress_diag_stage :: "u32 \<Rightarrow> u32 \<Rightarrow> u32 \<Rightarrow> sd_state \<Rightarrow> sd_state" where
  "zy100_stress_diag_stage stage now water d =
     (if \<not> sd_active d \<or> sd_frozen d \<or> stage \<ge> ZY100_SD_COUNT then d
      else
        let d1 = zy100_stress_diag_water now water d
        in if stage \<noteq> ucast (sd_stage d1)
           then sd_event now (d1\<lparr>sd_stage := ucast stage, sd_stage_since := now\<rparr>)
           else d1)"

definition zy100_stress_diag_pump :: "u32 \<Rightarrow> sd_state \<Rightarrow> sd_state" where
  "zy100_stress_diag_pump now d =
     (if \<not> sd_active d \<or> sd_frozen d then d
      else d\<lparr>sd_pump_max := (if sd_pump_seen d then sd_max (sd_pump_max d) (now - sd_pump_last d)
                             else sd_pump_max d),
             sd_pump_last := now, sd_pump_seen := True\<rparr>)"

definition zy100_stress_diag_release :: "u32 \<Rightarrow> u32 \<Rightarrow> u32 \<Rightarrow> sd_state \<Rightarrow> sd_state" where
  "zy100_stress_diag_release now before bytes d =
     (if \<not> sd_active d \<or> sd_frozen d \<or> bytes = 0 \<or> bytes > before then d
      else
        let d1 = sd_close_gap now before bytes False (zy100_stress_diag_water now before d)
        in d1\<lparr>sd_released := sd_released d1 + bytes, sd_water := before - bytes,
              sd_gap_active := (before - bytes \<noteq> 0), sd_gap_start := now,
              sd_gap_water := before - bytes, sd_gap_parts := replicate 9 0\<rparr>)"

definition zy100_stress_diag_record_begin :: "u32 \<Rightarrow> u32 \<Rightarrow> u32 \<Rightarrow> sd_state \<Rightarrow> sd_state" where
  "zy100_stress_diag_record_begin kind now pages d =
     (if \<not> sd_active d \<or> sd_frozen d then d
      else d\<lparr>sd_record_kind := kind, sd_record_start := now, sd_record_page := 0,
             sd_record_pages := pages\<rparr>)"

definition zy100_stress_diag_record_page :: "u32 \<Rightarrow> sd_state \<Rightarrow> sd_state" where
  "zy100_stress_diag_record_page page d =
     (if sd_active d \<and> \<not> sd_frozen d then d\<lparr>sd_record_page := page\<rparr> else d)"

definition zy100_stress_diag_record_end :: "u32 \<Rightarrow> sd_state \<Rightarrow> sd_state" where
  "zy100_stress_diag_record_end now d =
     (if \<not> sd_active d \<or> sd_frozen d then d
      else d\<lparr>sd_raw_max := (if sd_record_kind d = 1
                            then sd_max (sd_raw_max d) (now - sd_record_start d) else sd_raw_max d),
             sd_stress_max := (if sd_record_kind d = 4
                            then sd_max (sd_stress_max d) (now - sd_record_start d)
                            else sd_stress_max d),
             sd_record_kind := 0, sd_record_page := 0, sd_record_pages := 0\<rparr>)"

text \<open>\<open>snapshot\<close> is what \<open>bsp_capture_timebase_snapshot\<close> yields, \<open>None\<close> when it fails.\<close>

definition zy100_stress_diag_freeze :: "u32 option \<Rightarrow> u32 \<Rightarrow> u32 \<Rightarrow> u32 \<Rightarrow> sd_state \<Rightarrow> sd_state" where
  "zy100_stress_diag_freeze snapshot now water error d =
     (if \<not> sd_active d \<or> sd_frozen d then d
      else
        let d1 = sd_close_gap now water 0 True (zy100_stress_diag_water now water d);
            io = sd_io d1;
            io1 = (if io_flags io AND SD_IO_PENDING \<noteq> 0
                   then (case snapshot of Some counter \<Rightarrow> io\<lparr>io_open_age := io_issue io - counter\<rparr>
                         | None \<Rightarrow> io\<lparr>io_flags := io_flags io OR SD_IO_CLOCK\<rparr>)
                   else io)
        in d1\<lparr>sd_io := io1, sd_end := now, sd_error := error, sd_frozen := True\<rparr>)"

definition zy100_stress_diag_erases :: "u32 \<Rightarrow> sd_state \<Rightarrow> u32" where
  "zy100_stress_diag_erases cumulative d = (if sd_active d then cumulative - sd_erase_base d else 0)"

definition zy100_stress_diag_service :: "u32 \<Rightarrow> u32 \<Rightarrow> bool \<Rightarrow> bool \<Rightarrow> sd_state \<Rightarrow> sd_state" where
  "zy100_stress_diag_service steps elapsed_us waits clock_missing d =
     (if \<not> sd_active d \<or> sd_frozen d then d
      else d\<lparr>sd_service_calls := sd_service_calls d + 1,
             sd_service_steps := sd_service_steps d + steps,
             sd_service_peak_us := sd_max (sd_service_peak_us d) elapsed_us,
             sd_service_limits := (if steps \<ge> ZY100_ONLINE_PUMP_MAX_STEPS \<or>
                                      elapsed_us \<ge> ZY100_ONLINE_PUMP_BUDGET_US
                                   then sd_service_limits d + 1 else sd_service_limits d),
             sd_service_waits := (if waits then sd_service_waits d + 1 else sd_service_waits d),
             sd_service_clock_missing := (if clock_missing then sd_service_clock_missing d + 1
                                          else sd_service_clock_missing d)\<rparr>)"

definition zy100_stress_diag_erase :: "bool \<Rightarrow> bool \<Rightarrow> u32 \<Rightarrow> sd_state \<Rightarrow> sd_state" where
  "zy100_stress_diag_erase urgent issued ahead d =
     (if \<not> sd_active d \<or> sd_frozen d then d
      else
        let d1 = (if ahead < sd_erase_ahead_min d then d\<lparr>sd_erase_ahead_min := ahead\<rparr> else d)
        in if issued
           then (if urgent then d1\<lparr>sd_erase_urgent := sd_erase_urgent d1 + 1\<rparr>
                 else d1\<lparr>sd_erase_background := sd_erase_background d1 + 1\<rparr>)
           else d1)"

section \<open>The log\<close>

text \<open>A printed line: its kind of line (\<open>SD_LOG\<close>, \<open>OPT_LOG\<close>, \<open>IO_LOG\<close>), the number it carries,
  its text and its values.  The version code, the session and the start stand in every line.\<close>

datatype sd_line =
    SD_LOG u32 string "u32 list"
  | OPT_LOG u32 string "u32 list"
  | IO_LOG u32 string "u32 list"

abbreviation "flag_value b \<equiv> (if b then 1 else 0 :: u32)"

definition sd_io_log :: "sd_state \<Rightarrow> u32 \<Rightarrow> bool \<times> sd_line option" where
  "sd_io_log d n =
     (let io = sd_io d
      in if n = 0 then (False, Some (IO_LOG n ''fifo flags'' [1, io_flags io AND 7]))
         else if n \<le> 8 then
           (let m = io_metric io ! unat ((n - 1) div 2)
            in if n AND 1 \<noteq> 0 then (False, Some (IO_LOG n ''calls total'' [m ! 0, m ! 1]))
               else (False, Some (IO_LOG n ''peak unit'' [m ! 2, 1])))
         else if n = 9 then (False, Some (IO_LOG n ''bus wip'' [io_bus_count io, io_wip_count io]))
         else if n = 10 then (False, Some (IO_LOG n ''spans total'' [io_spans io, io_span_total io]))
         else if n = 11 then (False, Some (IO_LOG n ''span_max poll_max'' [io_span_max io, io_poll_max io]))
         else if n = 12 then
           (False, Some (IO_LOG n ''open_us pending'' [io_open_age io, io_flags io AND SD_IO_PENDING]))
         else if n = 13 then (False, Some (IO_LOG n ''bus_us wip_us'' [io_bus_wait io, io_wip_wait io]))
         else if n = 14 then (False, Some (IO_LOG n ''end lines'' [1, 15]))
         else (True, None))"

definition zy100_stress_diag_log_step :: "u32 \<Rightarrow> u32 \<Rightarrow> sd_state \<Rightarrow> bool \<times> sd_line option" where
  "zy100_stress_diag_log_step session index d =
     (if \<not> sd_frozen d \<or> session \<noteq> sd_session d then (True, None)
      else if index = 0 then
        (False, Some (SD_LOG index ''begin'' [sd_rate d, sd_end d - sd_start d]))
      else if index = 1 then (False, Some (SD_LOG index ''state'' [sd_error d, sd_water d]))
      else if index = 2 then (False, Some (SD_LOG index ''count'' [sd_released d, sd_pump_max d]))
      else if index = 3 then
        (False, Some (SD_LOG index ''prep'' [sd_prepare_erases d, ucast (sd_count d)]))
      else if index = 4 then (False, Some (SD_LOG index ''trace'' [sd_transitions d]))
      else if index = 5 then (False, Some (SD_LOG index ''gap'' [sd_best_start d, sd_best_end d]))
      else if index = 6 then
        (False, Some (SD_LOG index ''water'' [sd_best_water_start d, sd_best_water_end d]))
      else if index = 7 then
        (False, Some (SD_LOG index ''release'' [sd_best_freed d, flag_value (sd_best_open d)]))
      else if index = 8 then
        (False, Some (SD_LOG index ''record'' [sd_record_kind d,
           (if sd_record_kind d \<noteq> 0 then sd_end d - sd_record_start d else 0)]))
      else if index = 9 then (False, Some (SD_LOG index ''page'' [sd_record_page d, sd_record_pages d]))
      else if index = 10 then (False, Some (SD_LOG index ''max'' [sd_raw_max d, sd_stress_max d]))
      else if index < 11 + 2 * ZY100_SD_COUNT then
        (let n = (index - 11) div 2
         in if (index - 11) mod 2 = 0
            then (False, Some (SD_LOG index ''stage'' [n, sd_total d ! unat n, sd_peak d ! unat n]))
            else (False, Some (SD_LOG index ''part'' [n, sd_best_parts d ! unat n])))
      else if index < 11 + 2 * ZY100_SD_COUNT + ucast (sd_count d) then
        (let n = index - 11 - 2 * ZY100_SD_COUNT;
             first = (ucast (sd_next d) + SD_DEPTH - ucast (sd_count d)) mod SD_DEPTH;
             e = sd_events d ! unat ((first + n) mod SD_DEPTH)
         in (False, Some (SD_LOG index ''event'' [ev_ms e, ucast (ev_stage e), ucast (ev_water e)])))
      else if index = 11 + 2 * ZY100_SD_COUNT + ucast (sd_count d) then
        (False, Some (SD_LOG index ''end'' [index + 1]))
      else if index < 11 + 2 * ZY100_SD_COUNT + ucast (sd_count d) + 7 then
        (let n = index - (12 + 2 * ZY100_SD_COUNT + ucast (sd_count d))
         in if n = 0 then (False, Some (OPT_LOG n ''pump erase'' [1, 1]))
            else if n = 1 then (False, Some (OPT_LOG n ''calls steps'' [sd_service_calls d, sd_service_steps d]))
            else if n = 2 then
              (False, Some (OPT_LOG n ''peak_us limits'' [sd_service_peak_us d, sd_service_limits d]))
            else if n = 3 then
              (False, Some (OPT_LOG n ''waits no_clock'' [sd_service_waits d, sd_service_clock_missing d]))
            else if n = 4 then
              (False, Some (OPT_LOG n ''bg urgent'' [sd_erase_background d, sd_erase_urgent d]))
            else (False, Some (OPT_LOG n ''prep_ms ahead'' [sd_prepare_ms d, sd_erase_ahead_min d])))
      else sd_io_log d (index - (12 + 2 * ZY100_SD_COUNT + ucast (sd_count d) + 6)))"

section \<open>Invariant\<close>

text \<open>Every millisecond between the start and the last observation is booked to exactly one
  stage; the running gap and the longest gap are split over the stages in the same way.\<close>

definition diag_shape :: "sd_state \<Rightarrow> bool" where
  "diag_shape d \<longleftrightarrow> length (sd_total d) = 9 \<and> length (sd_peak d) = 9 \<and>
     length (sd_gap_parts d) = 9 \<and> length (sd_best_parts d) = 9 \<and> length (sd_events d) = 12 \<and>
     unat (sd_stage d) < 9 \<and> unat (sd_next d) < 12 \<and> unat (sd_count d) \<le> 12"

definition diag_time :: "sd_state \<Rightarrow> bool" where
  "diag_time d \<longleftrightarrow> sum_list (sd_total d) = sd_last d - sd_start d \<and>
     (sd_gap_active d \<longrightarrow> sum_list (sd_gap_parts d) = sd_last d - sd_gap_start d) \<and>
     sum_list (sd_best_parts d) = sd_best_end d - sd_best_start d"

definition diag_ok :: "sd_state \<Rightarrow> bool" where
  "diag_ok d \<longleftrightarrow> diag_shape d \<and> diag_time d"

lemma account_ok: "diag_ok d \<Longrightarrow> diag_ok (sd_account now d)"
  by (auto simp: diag_ok_def diag_shape_def diag_time_def sd_account_def Let_def sum_list_upd_add)

lemma account_frame [simp]:
  "sd_start (sd_account now d) = sd_start d"
  "sd_gap_active (sd_account now d) = sd_gap_active d"
  "sd_gap_start (sd_account now d) = sd_gap_start d"
  "sd_last (sd_account now d) = now"
  "sd_active (sd_account now d) = sd_active d"
  "sd_frozen (sd_account now d) = sd_frozen d"
  "sd_stage (sd_account now d) = sd_stage d"
  "sd_io (sd_account now d) = sd_io d"
  by (simp_all add: sd_account_def Let_def)

lemma event_ok: "diag_ok d \<Longrightarrow> diag_ok (sd_event now d)"
proof -
  assume ok: "diag_ok d"
  have n: "unat ((ucast (sd_next d) + 1) mod 12 :: u32) < 12"
    by (simp add: unat_mod)
  have n': "unat (ucast ((ucast (sd_next d) + 1) mod 12 :: u32) :: u8) < 12"
    using n by (simp add: unat_ucast_32_8)
  have c: "unat (sd_count d + 1) \<le> 12" if "ucast (sd_count d) < (12 :: u32)"
    using that by (simp add: word_less_nat_alt unat_add_no_wrap)
  show ?thesis
    using ok n' c by (auto simp: diag_ok_def diag_shape_def diag_time_def sd_event_def)
qed

lemma water_ok:
  assumes "diag_ok d" shows "diag_ok (zy100_stress_diag_water now water d)"
proof -
  have a: "diag_ok (sd_account now d)" by (rule account_ok [OF assms])
  then show ?thesis using assms
    by (simp add: zy100_stress_diag_water_def Let_def)
      (simp add: diag_ok_def diag_shape_def diag_time_def)
qed

lemma water_last:
  "sd_active d \<Longrightarrow> \<not> sd_frozen d \<Longrightarrow> sd_last (zy100_stress_diag_water now water d) = now"
  by (simp add: zy100_stress_diag_water_def Let_def)

lemma close_gap_ok:
  "diag_ok d \<Longrightarrow> sd_last d = now \<Longrightarrow> diag_ok (sd_close_gap now before freed open d)"
  by (auto simp: sd_close_gap_def diag_ok_def diag_shape_def diag_time_def)

lemma close_gap_last [simp]: "sd_last (sd_close_gap now before freed open d) = sd_last d"
  by (simp add: sd_close_gap_def)

lemma diag_ok_upd [simp]:
  "diag_ok (d\<lparr>sd_io := io\<rparr>) = diag_ok d"
  "diag_ok (d\<lparr>sd_end := a\<rparr>) = diag_ok d"
  "diag_ok (d\<lparr>sd_error := a\<rparr>) = diag_ok d"
  "diag_ok (d\<lparr>sd_frozen := b\<rparr>) = diag_ok d"
  "diag_ok (d\<lparr>sd_record_page := a\<rparr>) = diag_ok d"
  by (simp_all add: diag_ok_def diag_shape_def diag_time_def)

lemma stage_ok:
  assumes "diag_ok d" shows "diag_ok (zy100_stress_diag_stage stage now water d)"
proof -
  let ?w = "zy100_stress_diag_water now water d"
  have "diag_ok (?w\<lparr>sd_stage := ucast stage, sd_stage_since := now\<rparr>)" if "stage < 9"
  proof -
    have "unat stage < 9" using that by (simp add: word_less_nat_alt)
    then have "unat (ucast stage :: u8) < 9"
      by (simp add: unat_ucast_32_8)
    then show ?thesis using water_ok [OF assms, of now water]
      by (simp add: diag_ok_def diag_shape_def diag_time_def)
  qed
  then show ?thesis
    using assms water_ok [OF assms, of now water]
    by (auto simp: zy100_stress_diag_stage_def Let_def not_le intro!: event_ok)
qed

lemma begin_ok: "diag_ok (zy100_stress_diag_begin session now rate erases d)"
  unfolding zy100_stress_diag_begin_def Let_def
  by (rule event_ok) (simp add: diag_ok_def diag_shape_def diag_time_def sd_zero_def)

lemma release_ok:
  assumes "diag_ok d" shows "diag_ok (zy100_stress_diag_release now before bytes d)"
proof (cases "\<not> sd_active d \<or> sd_frozen d")
  case True then show ?thesis using assms by (simp add: zy100_stress_diag_release_def)
next
  case False
  let ?w = "zy100_stress_diag_water now before d"
  let ?c = "sd_close_gap now before bytes False ?w"
  have l: "sd_last ?w = now" using False by (simp add: water_last)
  have "diag_ok ?c" using water_ok [OF assms] l by (rule close_gap_ok)
  then show ?thesis
    using l assms by (simp add: zy100_stress_diag_release_def Let_def diag_ok_def diag_shape_def diag_time_def)
qed

lemma freeze_ok:
  assumes "diag_ok d" shows "diag_ok (zy100_stress_diag_freeze snap now water error d)"
proof (cases "\<not> sd_active d \<or> sd_frozen d")
  case True then show ?thesis using assms by (simp add: zy100_stress_diag_freeze_def)
next
  case False
  let ?w = "zy100_stress_diag_water now water d"
  have "diag_ok (sd_close_gap now water 0 True ?w)"
    using water_ok [OF assms] water_last by (rule close_gap_ok) (use False in auto)
  then show ?thesis using assms by (simp add: zy100_stress_diag_freeze_def Let_def)
qed

section \<open>The event ring\<close>

definition sd_history :: "sd_state \<Rightarrow> sd_event list" where
  "sd_history d = ring_contents (sd_events d)
     ((unat (sd_next d) + 12 - unat (sd_count d)) mod 12) (unat (sd_count d))"

lemma ring_store_one: "ring_store ring start [x] = ring[start mod length ring := x]"
  by (simp add: ring_store_def)

lemma ring_first:
  assumes "n < 12" "c < (12 :: nat)"
  shows "((n + 1) mod 12 + 12 - (c + 1)) mod 12 = (n + 12 - c) mod 12"
proof (cases "n = 11")
  case True
  have "(23 - c) mod 12 = 12 - (c + 1)"
    using assms by (simp add: mod_if)
  then show ?thesis using True assms by simp
next
  case False
  then have "(n + 1) mod 12 + 12 - (c + 1) = n + 12 - c" using assms by simp
  then show ?thesis by (rule arg_cong)
qed

lemma history_event:
  assumes "diag_shape d"
  shows "sd_history (sd_event now d) =
     (if unat (sd_count d) < 12 then sd_history d else tl (sd_history d)) @
     [\<lparr>ev_ms = now - sd_start d, ev_water = ucast (sd_water d), ev_stage = sd_stage d\<rparr>]"
proof -
  let ?e = "\<lparr>ev_ms = now - sd_start d, ev_water = ucast (sd_water d), ev_stage = sd_stage d\<rparr>"
  let ?n = "unat (sd_next d)" and ?c = "unat (sd_count d)"
  have sh: "length (sd_events d) = 12" "?n < 12" "?c \<le> 12"
    using assms by (simp_all add: diag_shape_def)
  have "unat ((ucast (sd_next d) + 1) mod 12 :: u32) = (?n + 1) mod 12"
    using sh by (simp add: unat_mod unat_add_no_wrap)
  then have nxt: "unat (sd_next (sd_event now d)) = (?n + 1) mod 12"
    by (simp add: sd_event_def unat_ucast_32_8 less_trans [OF mod_less_divisor])
  have ev: "sd_events (sd_event now d) = (sd_events d)[?n := ?e]" by (simp add: sd_event_def)
  show ?thesis
  proof (cases "?c < 12")
    case True
    then have c: "unat (sd_count (sd_event now d)) = ?c + 1"
      by (simp add: sd_event_def word_less_nat_alt unat_add_no_wrap)
    let ?h = "(?n + 12 - ?c) mod 12"
    have h: "((?n + 1) mod 12 + 12 - (?c + 1)) mod 12 = ?h"
      using True sh ring_first [of ?n ?c] by simp
    have p: "(?h + ?c) mod 12 = ?n" using sh by (simp add: mod_simps)
    have "ring_store (sd_events d) (?h + ?c) [?e] = (sd_events d)[?n := ?e]"
      by (simp only: ring_store_one sh p)
    then show ?thesis
      unfolding sd_history_def ev nxt c h
      using ring_contents_store [of ?c "[?e]" "sd_events d" ?h] True sh by simp
  next
    case False
    then have c12: "?c = 12" using sh by simp
    then have c: "unat (sd_count (sd_event now d)) = 12"
      by (simp add: sd_event_def word_less_nat_alt)
    let ?h = "(?n + 1) mod 12"
    have p: "(?h + 11) mod 12 = ?n" using sh by (cases "?n = 11") auto
    have "ring_store (sd_events d) (?h + 11) [?e] = (sd_events d)[?n := ?e]"
      by (simp only: ring_store_one sh p)
    moreover have "tl (sd_history d) = ring_contents (sd_events d) ?h 11"
      using drop_ring_contents [of 1 "sd_events d" ?n 12] sh
      by (simp add: sd_history_def c12 drop_Suc)
    ultimately show ?thesis
      using ring_contents_store [of 11 "[?e]" "sd_events d" ?h] sh
      by (simp add: sd_history_def ev nxt c c12)
  qed
qed

section \<open>Steps\<close>

text \<open>What the pump, the record writer and the spool may do to the diagnostics between a
  \<open>begin\<close> and the next one.\<close>

inductive diag_step :: "sd_state \<Rightarrow> sd_state \<Rightarrow> bool" where
  step_note: "diag_step d (zy100_stress_diag_io_note kind elapsed valid d)"
| step_issue: "diag_step d (zy100_stress_diag_io_issue counter valid d)"
| step_bus: "diag_step d (zy100_stress_diag_io_bus d)"
| step_poll: "diag_step d (zy100_stress_diag_io_poll counter valid bus wip ok d)"
| step_water: "diag_step d (zy100_stress_diag_water now water d)"
| step_stage: "diag_step d (zy100_stress_diag_stage stage now water d)"
| step_pump: "diag_step d (zy100_stress_diag_pump now d)"
| step_release: "diag_step d (zy100_stress_diag_release now before bytes d)"
| step_record_begin: "diag_step d (zy100_stress_diag_record_begin kind now pages d)"
| step_record_page: "diag_step d (zy100_stress_diag_record_page page d)"
| step_record_end: "diag_step d (zy100_stress_diag_record_end now d)"
| step_service: "diag_step d (zy100_stress_diag_service steps elapsed waits missing d)"
| step_erase: "diag_step d (zy100_stress_diag_erase urgent issued ahead d)"
| step_freeze: "diag_step d (zy100_stress_diag_freeze snap now water error d)"

inductive diag_reach :: "sd_state \<Rightarrow> bool" where
  reach_begin: "diag_reach (zy100_stress_diag_begin session now rate erases d)"
| reach_step: "diag_reach d \<Longrightarrow> diag_step d d' \<Longrightarrow> diag_reach d'"

lemmas diag_ops = zy100_stress_diag_io_note_def zy100_stress_diag_io_issue_def
  zy100_stress_diag_io_bus_def zy100_stress_diag_io_poll_def zy100_stress_diag_pump_def
  zy100_stress_diag_record_begin_def zy100_stress_diag_record_page_def
  zy100_stress_diag_record_end_def zy100_stress_diag_service_def zy100_stress_diag_erase_def

lemma pure_ops_ok:
  assumes "diag_ok d"
  shows "diag_ok (zy100_stress_diag_io_note kind elapsed valid d)"
    "diag_ok (zy100_stress_diag_io_issue counter valid d)"
    "diag_ok (zy100_stress_diag_io_bus d)"
    "diag_ok (zy100_stress_diag_io_poll counter valid bus wip ok d)"
    "diag_ok (zy100_stress_diag_record_page page d)"
  using assms by (simp_all add: diag_ops Let_def)

lemma count_ops_ok:
  assumes "diag_ok d"
  shows "diag_ok (zy100_stress_diag_pump now d)"
    "diag_ok (zy100_stress_diag_record_begin kind now pages d)"
    "diag_ok (zy100_stress_diag_record_end now d)"
    "diag_ok (zy100_stress_diag_service steps elapsed waits missing d)"
    "diag_ok (zy100_stress_diag_erase urgent issued ahead d)"
  using assms by (simp_all add: diag_ops Let_def diag_ok_def diag_shape_def diag_time_def)

lemma diag_step_ok: "diag_step d d' \<Longrightarrow> diag_ok d \<Longrightarrow> diag_ok d'"
  by (induction rule: diag_step.induct)
    (simp_all only: pure_ops_ok count_ops_ok water_ok stage_ok release_ok freeze_ok)

lemma diag_reach_ok: "diag_reach d \<Longrightarrow> diag_ok d"
  by (induction rule: diag_reach.induct) (simp_all only: begin_ok diag_step_ok)

lemma frozen_step: "diag_step d d' \<Longrightarrow> sd_frozen d \<Longrightarrow> d' = d"
  by (induction rule: diag_step.induct)
    (simp_all add: diag_ops zy100_stress_diag_water_def zy100_stress_diag_stage_def
      zy100_stress_diag_release_def zy100_stress_diag_freeze_def)

lemma freeze_freezes: "sd_active d \<Longrightarrow> sd_frozen (zy100_stress_diag_freeze snap now water error d)"
  by (simp add: zy100_stress_diag_freeze_def Let_def)

section \<open>Saturating counters\<close>

lemma sd_io_add_saturates:
  assumes "\<And>f io. sel (upd f io) = f (sel io)" "\<And>io x. sel (io\<lparr>io_flags := x\<rparr>) = sel io"
  shows "unat (sel (sd_io_add sel upd n io)) = min (unat (sel io) + unat n) 4294967295"
proof -
  have l: "unat (0xFFFFFFFF - sel io) = 4294967295 - unat (sel io)"
    using unat_lt_32 [of "sel io"] by (subst unat_diff_le) (simp_all add: word_le_nat_alt)
  show ?thesis
  proof (cases "n > 0xFFFFFFFF - sel io")
    case True
    then show ?thesis using l assms by (simp add: sd_io_add_def word_less_nat_alt)
  next
    case False
    then have "unat (sel io) + unat n \<le> 4294967295"
      using l unat_lt_32 [of "sel io"] by (simp add: word_less_nat_alt not_less)
    then show ?thesis using False assms by (simp add: sd_io_add_def unat_add_no_wrap)
  qed
qed

lemma sd_io_add_flag:
  assumes "\<And>f io. io_flags (upd f io) = io_flags io"
  shows "io_flags (sd_io_add sel upd n io) =
    (if unat (sel io) + unat n > 4294967295 then io_flags io OR SD_IO_OVERFLOW else io_flags io)"
proof -
  have l: "unat (0xFFFFFFFF - sel io) = 4294967295 - unat (sel io)"
    using unat_lt_32 [of "sel io"] by (subst unat_diff_le) (simp_all add: word_le_nat_alt)
  show ?thesis
    using l assms unat_lt_32 [of "sel io"] by (auto simp: sd_io_add_def word_less_nat_alt)
qed

lemma sd_io_add_other:
  "\<lbrakk>\<And>f io. g (upd f io) = g io; \<And>io x. g (io\<lparr>io_flags := x\<rparr>) = g io\<rbrakk> \<Longrightarrow>
   g (sd_io_add sel upd n io) = g io"
  by (simp add: sd_io_add_def)

section \<open>The log is complete\<close>

lemma io_log_lines:
  "n < 15 \<Longrightarrow> \<exists>k ws. sd_io_log d n = (False, Some (IO_LOG n k ws))"
  "15 \<le> n \<Longrightarrow> sd_io_log d n = (True, None)"
proof -
  assume "n < 15"
  then have "unat n < 15" by (simp add: word_less_nat_alt)
  then show "\<exists>k ws. sd_io_log d n = (False, Some (IO_LOG n k ws))"
    by (auto simp: sd_io_log_def Let_def word_le_nat_alt word_unat_eq_iff)
next
  assume "15 \<le> n"
  then have "15 \<le> unat n" by (simp add: word_le_nat_alt)
  then show "sd_io_log d n = (True, None)"
    by (auto simp: sd_io_log_def Let_def word_le_nat_alt word_unat_eq_iff)
qed

lemma log_step_lines:
  assumes f: "sd_frozen d" and c: "unat (sd_count d) \<le> 12"
  shows "unat index < 51 + unat (sd_count d) \<Longrightarrow>
      \<exists>l. zy100_stress_diag_log_step (sd_session d) index d = (False, Some l)"
    and "51 + unat (sd_count d) \<le> unat index \<Longrightarrow>
      zy100_stress_diag_log_step (sd_session d) index d = (True, None)"
proof -
  let ?c = "ucast (sd_count d) :: u32"
  have c29: "unat (29 + ?c) = 29 + unat (sd_count d)" using c by (subst unat_add_no_wrap) simp_all
  have c36: "unat (36 + ?c) = 36 + unat (sd_count d)" using c by (subst unat_add_no_wrap) simp_all
  have io: "unat (index - (36 + ?c)) = unat index - (36 + unat (sd_count d))"
    if "36 + unat (sd_count d) \<le> unat index"
    using that c36 by (subst unat_diff_le) (simp_all add: word_le_nat_alt)
  have step: "zy100_stress_diag_log_step (sd_session d) index d = sd_io_log d (index - (36 + ?c))"
    if "36 + unat (sd_count d) \<le> unat index"
  proof -
    have "\<not> index < 36 + ?c" "\<not> index < 29 + ?c" "index \<noteq> 29 + ?c" "\<not> index < 29"
      using that c29 c36 by (auto simp: word_less_nat_alt)
    moreover have "index \<notin> {0, 1, 2, 3, 4, 5, 6, 7, 8, 9, 10}" using that by auto
    ultimately show ?thesis
      using f by (simp add: zy100_stress_diag_log_step_def)
  qed
  {
    assume u: "51 + unat (sd_count d) \<le> unat index"
    then have "15 \<le> index - (36 + ?c)" using io by (simp add: word_le_nat_alt)
    then show "zy100_stress_diag_log_step (sd_session d) index d = (True, None)"
      using step io_log_lines(2) u by simp
  }
  assume l: "unat index < 51 + unat (sd_count d)"
  show "\<exists>l. zy100_stress_diag_log_step (sd_session d) index d = (False, Some l)"
  proof (cases "36 + unat (sd_count d) \<le> unat index")
    case True
    then have "index - (36 + ?c) < 15" using io l by (simp add: word_less_nat_alt)
    then show ?thesis using step [OF True] io_log_lines(1) by fastforce
  next
    case False
    then have "index < 36 + ?c" using c36 by (simp add: word_less_nat_alt)
    then show ?thesis
      using f by (auto simp: zy100_stress_diag_log_step_def Let_def ac_simps)
  qed
qed

section \<open>Properties\<close>

definition demo_diag :: sd_state where
  "demo_diag = zy100_stress_diag_freeze (Some 5) 160 30 0
     (zy100_stress_diag_stage ZY100_SD_ERASE 130 20 (zy100_stress_diag_begin 1 100 16000 0 sd_zero))"

lemma demo_diag_reach: "diag_reach demo_diag"
  unfolding demo_diag_def
  by (rule reach_step [OF reach_step [OF reach_begin step_stage] step_freeze])

text \<open>C34: in every reachable state the time from the start to the last observation is split over
  the stages without loss or double counting, and so are the running gap and the longest gap
  reported.\<close>

theorem diag_time_conserved:
  assumes "diag_reach d"
  shows "sum_list (sd_total d) = sd_last d - sd_start d \<and>
    (sd_gap_active d \<longrightarrow> sum_list (sd_gap_parts d) = sd_last d - sd_gap_start d) \<and>
    sum_list (sd_best_parts d) = sd_best_end d - sd_best_start d"
  using diag_reach_ok [OF assms] by (simp add: diag_ok_def diag_time_def)

theorem diag_time_conserved_witness: "sum_list (sd_total demo_diag) = sd_last demo_diag - sd_start demo_diag"
  using diag_time_conserved [OF demo_diag_reach] by blast

text \<open>C35: once frozen, the diagnostics are evidence: no sequence of observations changes them.\<close>

theorem frozen_diag_immutable:
  assumes "diag_step\<^sup>*\<^sup>* d d'" "sd_frozen d"
  shows "d' = d"
  using assms by (induction rule: rtranclp_induct) (auto dest: frozen_step)

lemma demo_diag_frozen: "sd_frozen demo_diag"
  unfolding demo_diag_def
  by (rule freeze_freezes) (simp add: zy100_stress_diag_stage_def zy100_stress_diag_water_def
      zy100_stress_diag_begin_def sd_event_def sd_zero_def Let_def)

theorem frozen_diag_immutable_witness: "zy100_stress_diag_pump 500 demo_diag = demo_diag"
  by (rule frozen_diag_immutable [OF _ demo_diag_frozen]) (intro r_into_rtranclp step_pump)

text \<open>C36: the event ring keeps the last twelve stage changes in order: a new event is appended, and
  the oldest one is dropped when the ring is full.\<close>

theorem event_ring_keeps_latest:
  assumes "diag_reach d"
  shows "sd_history (sd_event now d) =
     (if unat (sd_count d) < 12 then sd_history d else tl (sd_history d)) @
     [\<lparr>ev_ms = now - sd_start d, ev_water = ucast (sd_water d), ev_stage = sd_stage d\<rparr>]"
  using diag_reach_ok [OF assms] by (intro history_event) (simp add: diag_ok_def)

theorem event_ring_keeps_latest_witness:
  "last (sd_history (sd_event 200 demo_diag)) =
     \<lparr>ev_ms = 200 - sd_start demo_diag, ev_water = ucast (sd_water demo_diag), ev_stage = sd_stage demo_diag\<rparr>"
  by (subst event_ring_keeps_latest [OF demo_diag_reach]) simp

text \<open>C37: the log of a frozen session is complete and finite: exactly \<open>51 + count\<close> indexes print
  one line each and every further index ends the log.\<close>

theorem log_prints_every_line_once:
  assumes "diag_reach d" "sd_frozen d"
  shows "(fst (zy100_stress_diag_log_step (sd_session d) index d) \<longleftrightarrow>
      51 + unat (sd_count d) \<le> unat index) \<and>
    (snd (zy100_stress_diag_log_step (sd_session d) index d) = None \<longleftrightarrow>
      51 + unat (sd_count d) \<le> unat index)"
proof -
  have c: "unat (sd_count d) \<le> 12"
    using diag_reach_ok [OF assms(1)] by (simp add: diag_ok_def diag_shape_def)
  note l = log_step_lines [OF assms(2) c, of index]
  show ?thesis
  proof (cases "51 + unat (sd_count d) \<le> unat index")
    case True
    then show ?thesis using l(2) by simp
  next
    case False
    then obtain x where "zy100_stress_diag_log_step (sd_session d) index d = (False, Some x)"
      using l(1) by (auto simp: not_le)
    then show ?thesis using False by simp
  qed
qed

theorem log_prints_every_line_once_witness:
  "\<not> fst (zy100_stress_diag_log_step (sd_session demo_diag) 50 demo_diag)"
  using log_prints_every_line_once [OF demo_diag_reach demo_diag_frozen, of 50] by simp



end
