(* ===== verification/Crc32.thy ===== *)
theory Crc32
  imports Prelude
begin

text \<open>
  The IEEE CRC-32 of \<open>service/zy100_crc32.c\<close>: reflected polynomial \<open>0xEDB88320\<close>, one
  bit at a time, with the begin / update / finish interface the writers use to fold a
  record page by page.
\<close>

unbundle bit_operations_syntax

definition zy100_crc32_ieee_begin :: u32 where
  "zy100_crc32_ieee_begin = 0xFFFFFFFF"

definition crc_bit :: "u32 \<Rightarrow> u32" where
  "crc_bit crc = (if crc AND 1 \<noteq> 0 then drop_bit 1 crc XOR 0xEDB88320 else drop_bit 1 crc)"

definition crc_byte :: "u32 \<Rightarrow> u8 \<Rightarrow> u32" where
  "crc_byte crc b = (crc_bit ^^ 8) (crc XOR ucast b)"

definition zy100_crc32_ieee_update :: "u32 \<Rightarrow> u8 list \<Rightarrow> u32" where
  "zy100_crc32_ieee_update crc data = foldl crc_byte crc data"

definition zy100_crc32_ieee_finish :: "u32 \<Rightarrow> u32" where
  "zy100_crc32_ieee_finish crc = crc XOR 0xFFFFFFFF"

definition zy100_crc32_ieee :: "u8 list \<Rightarrow> u32" where
  "zy100_crc32_ieee data =
     zy100_crc32_ieee_finish (zy100_crc32_ieee_update zy100_crc32_ieee_begin data)"

section \<open>Folding page by page\<close>

lemma crc_update_Nil [simp]: "zy100_crc32_ieee_update c [] = c"
  by (simp add: zy100_crc32_ieee_update_def)

lemma crc_update_Cons [simp]:
  "zy100_crc32_ieee_update c (b # bs) = zy100_crc32_ieee_update (crc_byte c b) bs"
  by (simp add: zy100_crc32_ieee_update_def)

lemma crc_update_append [simp]:
  "zy100_crc32_ieee_update c (xs @ ys) = zy100_crc32_ieee_update (zy100_crc32_ieee_update c xs) ys"
  by (simp add: zy100_crc32_ieee_update_def)

section \<open>The register step is injective\<close>

text \<open>Bit 31 of the polynomial is set and a shift leaves bit 31 clear, so bit 31 of the
  new register tells which branch was taken.\<close>

lemma xor_cancel_right [simp]: "x XOR z = y XOR z \<longleftrightarrow> x = y" for x y z :: "'a::len word"
  by (metis xor_self_eq xor.assoc xor.right_neutral)

lemma xor_cancel_left [simp]: "z XOR x = z XOR y \<longleftrightarrow> x = y" for x y z :: "'a::len word"
  by (metis xor_self_eq xor.assoc xor.left_neutral)

lemma and_one_iff_bit0: "x AND 1 \<noteq> 0 \<longleftrightarrow> bit x 0" for x :: "'a::len word"
  by (simp add: and_one_eq bit_0 odd_iff_mod_2_eq_one)

lemma not_bit_32 [simp]: "\<not> bit (c :: u32) 32"
  using bit_imp_le_length [of c 32] by auto

lemma crc_bit_31: "bit (crc_bit c) 31 = bit c 0"
  unfolding crc_bit_def and_one_iff_bit0 by (simp add: bit_simps)

lemma crc_bit_inj: "inj crc_bit"
proof (rule injI)
  fix x y :: u32 assume eq: "crc_bit x = crc_bit y"
  then have b0: "bit x 0 = bit y 0" by (metis crc_bit_31)
  with eq have d: "drop_bit 1 x = drop_bit 1 y"
    unfolding crc_bit_def and_one_iff_bit0 by (auto split: if_splits)
  show "x = y"
  proof (rule bit_word_eqI)
    fix n assume "n < LENGTH(32)"
    show "bit x n = bit y n"
    proof (cases n)
      case 0 then show ?thesis using b0 by simp
    next
      case (Suc m)
      have "bit (drop_bit 1 x) m = bit (drop_bit 1 y) m" using d by simp
      then show ?thesis using Suc by (simp add: bit_simps)
    qed
  qed
qed

lemma crc_bit_pow_inj: "inj (crc_bit ^^ n)"
proof (induction n)
  case 0 show ?case by simp
next
  case (Suc n)
  then show ?case using inj_compose [OF crc_bit_inj Suc] by (simp add: comp_def)
qed

lemma crc_byte_eq_iff: "crc_byte c a = crc_byte d b \<longleftrightarrow> c XOR ucast a = d XOR ucast b"
  unfolding crc_byte_def by (rule inj_eq [OF crc_bit_pow_inj])

lemma crc_byte_inj_state [simp]: "crc_byte c a = crc_byte d a \<longleftrightarrow> c = d"
  by (simp add: crc_byte_eq_iff)

lemma crc_update_inj [simp]:
  "zy100_crc32_ieee_update c xs = zy100_crc32_ieee_update d xs \<longleftrightarrow> c = d"
  by (induction xs arbitrary: c d) simp_all

lemma crc_finish_inj [simp]: "zy100_crc32_ieee_finish x = zy100_crc32_ieee_finish y \<longleftrightarrow> x = y"
  by (simp add: zy100_crc32_ieee_finish_def)

lemma crc_byte_inj_byte [simp]: "crc_byte c a = crc_byte c b \<longleftrightarrow> a = b"
  by (simp add: crc_byte_eq_iff)

section \<open>Error detection\<close>

text \<open>Two messages that differ in exactly one byte never share a CRC.\<close>

lemma crc_detects_byte:
  "zy100_crc32_ieee (xs @ a # ys) = zy100_crc32_ieee (xs @ b # ys) \<longleftrightarrow> a = b"
  by (simp add: zy100_crc32_ieee_def)

lemma crc_detects_update:
  assumes "i < length xs"
  shows "zy100_crc32_ieee (xs[i := a]) = zy100_crc32_ieee xs \<longleftrightarrow> a = xs ! i"
  using crc_detects_byte [of "take i xs" a "drop (Suc i) xs" "xs ! i"] assms
  by (simp add: upd_conv_take_nth_drop id_take_nth_drop [symmetric])

section \<open>Properties\<close>

text \<open>C39: the record CRC folded chunk by chunk is the CRC of the whole record, and it changes
  whenever exactly one byte of the record changes.\<close>

theorem chunked_crc_detects_one_byte:
  "zy100_crc32_ieee_finish (foldl zy100_crc32_ieee_update zy100_crc32_ieee_begin chunks) =
     zy100_crc32_ieee (concat chunks) \<and>
   (zy100_crc32_ieee (xs @ a # ys) = zy100_crc32_ieee (xs @ b # ys) \<longleftrightarrow> a = b)"
proof -
  have "foldl zy100_crc32_ieee_update c chunks = zy100_crc32_ieee_update c (concat chunks)" for c
    by (induction chunks arbitrary: c) simp_all
  then show ?thesis by (simp add: crc_detects_byte) (simp add: zy100_crc32_ieee_def)
qed

end
