(* ===== verification/OnlineState.thy ===== *)
theory OnlineState
  imports StressSource StressDiag Crc32
begin

text \<open>
  The state the online stress test works on: the flash driver and the clocks it calls, the
  spool of records in the flash (the types of \<open>zy100_online_spool.h\<close> and the static state of
  \<open>zy100_online_spool.c\<close>), the stress writer (the static state of \<open>zy100_online_stress.c\<close>) and
  the diagnostics.  The spool and the writer call each other and both note their I/O in the
  diagnostics, so the operations that reach the hardware work on one \<open>world\<close>.

  The driver, the bus arbiter and the clocks are a record of functions on a state of their own:
  nothing is assumed of them, so every theorem holds for a flash that fails, lies or stays busy
  at any point.  A read gets the old buffer and yields the new one, of the same length.
\<close>

section \<open>The flash device and the clocks\<close>

datatype imu_status =
    IMU_STATUS_OK | IMU_STATUS_INVALID | IMU_STATUS_TIMEOUT | IMU_STATUS_BUS_ERROR
  | IMU_STATUS_NOT_READY | IMU_STATUS_NOT_FOUND | IMU_STATUS_VERIFY | IMU_STATUS_UNSUPPORTED
  | IMU_STATUS_FLASH_BUSY

fun imu_status_code :: "imu_status \<Rightarrow> u32" where
  "imu_status_code IMU_STATUS_OK = 0"
| "imu_status_code IMU_STATUS_INVALID = 1"
| "imu_status_code IMU_STATUS_TIMEOUT = 2"
| "imu_status_code IMU_STATUS_BUS_ERROR = 3"
| "imu_status_code IMU_STATUS_NOT_READY = 4"
| "imu_status_code IMU_STATUS_NOT_FOUND = 5"
| "imu_status_code IMU_STATUS_VERIFY = 6"
| "imu_status_code IMU_STATUS_UNSUPPORTED = 7"
| "imu_status_code IMU_STATUS_FLASH_BUSY = 8"

record 'd device =
  gd25q32e_init :: "'d \<Rightarrow> imu_status \<times> 'd"
  gd25q32e_is_busy :: "'d \<Rightarrow> imu_status \<times> bool \<times> 'd"
  gd25q32e_wait_while_busy :: "u32 \<Rightarrow> 'd \<Rightarrow> imu_status \<times> 'd"
  gd25q32e_page_program :: "u32 \<Rightarrow> u8 list \<Rightarrow> 'd \<Rightarrow> imu_status \<times> 'd"
  gd25q32e_read_fast :: "u32 \<Rightarrow> u8 list \<Rightarrow> 'd \<Rightarrow> imu_status \<times> u8 list \<times> 'd"
  gd25q32e_sector_erase_4k :: "u32 \<Rightarrow> 'd \<Rightarrow> imu_status \<times> 'd"
  gd25q32e_block_erase_32k :: "u32 \<Rightarrow> 'd \<Rightarrow> imu_status \<times> 'd"
  spi_bus_owner_none :: "'d \<Rightarrow> bool \<times> 'd"
  bsp_capture_timebase_snapshot :: "'d \<Rightarrow> bool \<times> u32 \<times> 'd"
  imu_bsp_local_timestamp_us :: "'d \<Rightarrow> u64 \<times> 'd"
  zy100_os_time_ms :: "'d \<Rightarrow> u32 \<times> 'd"
  svc_app_watchdog_poll :: "u32 \<Rightarrow> 'd \<Rightarrow> 'd"

section \<open>The spool\<close>

abbreviation (input) "ZY100_ONLINE_SPOOL_REGION_BASE_ADDR \<equiv> (0x2F8000 :: u32)"
abbreviation (input) "ZY100_ONLINE_SPOOL_REGION_BYTES \<equiv> (0x100000 :: u32)"
abbreviation (input) "ZY100_ONLINE_SPOOL_END \<equiv> (0x3F8000 :: u32)"
abbreviation (input) "ZY100_ONLINE_SPOOL_SECTOR_COUNT \<equiv> (256 :: u32)"
abbreviation (input) "ZY100_ONLINE_SPOOL_RECORD_MAGIC \<equiv> (0x534C4E4F :: u32)"
abbreviation (input) "ZY100_ONLINE_SPOOL_INVALID_INDEX \<equiv> (0xFFFFFFFF :: u32)"
abbreviation (input) "ZY100_ONLINE_SPOOL_BLOCK32_SECTORS \<equiv> (8 :: u32)"
abbreviation (input) "ZY100_ONLINE_SPOOL_RECORD_HEADER_BYTES \<equiv> (256 :: u32)"
abbreviation (input) "ZY100_ONLINE_RECORD_TYPE_COUNT \<equiv> (5 :: u32)"
abbreviation (input) "ZY100_ONLINE_RECORD_IN_FLIGHT_MAX \<equiv> (4 :: u32)"
abbreviation (input) "ZY100_ONLINE_SPOOL_PREERASE_MIN_BYTES \<equiv> (65536 :: u32)"
abbreviation (input) "ZY100_FE_RAW_IMU_MAG_SOURCE_RECORD_BYTES_MAX \<equiv> (17920 :: u32)"
abbreviation (input) "GD25Q32E_PAGE_BYTES \<equiv> (256 :: u32)"
abbreviation (input) "GD25Q32E_SECTOR_BYTES \<equiv> (4096 :: u32)"
abbreviation (input) "GD25Q32E_BLOCK32_BYTES \<equiv> (32768 :: u32)"
abbreviation (input) "GD25Q32E_SECTOR_ERASE_TIMEOUT_MS \<equiv> (5000 :: u32)"
abbreviation (input) "GD25Q32E_BLOCK32_ERASE_TIMEOUT_MS \<equiv> (5000 :: u32)"

datatype spool_pump_result = PUMP_IDLE | PUMP_PROGRESS | PUMP_COMMITTED | PUMP_ERROR
datatype spool_io_result = IO_OK | IO_EMPTY | IO_BUSY | IO_ERROR
datatype spool_erase_result = ERASE_IDLE | ERASE_PROGRESS | ERASE_BLOCKED | ERASE_ERROR
datatype spool_start_prep_status = START_PREP_IDLE | START_PREP_BUSY | START_PREP_DONE | START_PREP_ERROR
datatype spool_reserve_block = BLOCK_NONE | BLOCK_UNACKED | BLOCK_ERASE_PENDING
datatype store_reserve_result = RESERVE_OK | RESERVE_BUSY | RESERVE_FULL | RESERVE_ERROR
datatype flash_prepare_status = PREP_BUSY | PREP_DONE | PREP_ABORTED | PREP_ERROR | PREP_TIMEOUT
datatype spool_commit_state =
  COMMIT_IDLE | COMMIT_CRC | COMMIT_HEADER_READY | COMMIT_HEADER_WIP | COMMIT_HEADER_VERIFY

fun commit_state_code :: "spool_commit_state \<Rightarrow> u32" where
  "commit_state_code COMMIT_IDLE = 0"
| "commit_state_code COMMIT_CRC = 1"
| "commit_state_code COMMIT_HEADER_READY = 2"
| "commit_state_code COMMIT_HEADER_WIP = 3"
| "commit_state_code COMMIT_HEADER_VERIFY = 4"

record spool_reservation =
  res_active :: bool
  res_data_done :: bool
  res_crc_final_valid :: bool
  res_type :: u8
  res_source_id :: u32
  res_capture_segment_id :: u32
  res_segment_start_offset_ms :: u32
  res_record_id :: u32
  res_token :: u32
  res_header_addr :: u32
  res_data_addr :: u32
  res_source_record_bytes :: u32
  res_payload_bytes :: u32
  res_total_bytes :: u32
  res_crc_offset :: u32
  res_crc :: u32
  res_crc32_final :: u32
  res_commit_state :: spool_commit_state

definition reservation_zero :: spool_reservation where
  "reservation_zero = \<lparr>res_active = False, res_data_done = False, res_crc_final_valid = False,
     res_type = 0, res_source_id = 0, res_capture_segment_id = 0, res_segment_start_offset_ms = 0,
     res_record_id = 0, res_token = 0, res_header_addr = 0, res_data_addr = 0,
     res_source_record_bytes = 0, res_payload_bytes = 0, res_total_bytes = 0, res_crc_offset = 0,
     res_crc = 0, res_crc32_final = 0, res_commit_state = COMMIT_IDLE\<rparr>"

record spool_plan =
  plan_start_pos :: u32
  plan_gap_bytes :: u32
  plan_header_addr :: u32
  plan_total_bytes :: u32
  plan_generation :: u16

record spool_record =
  rec_type :: u8
  rec_flags :: u8
  rec_generation :: u16
  rec_record_id :: u32
  rec_header_addr :: u32
  rec_data_addr :: u32
  rec_record_bytes :: u32
  rec_source_record_bytes :: u32
  rec_payload_bytes :: u32
  rec_crc32 :: u32
  rec_capture_segment_id :: u32
  rec_segment_start_offset_ms :: u32
  rec_source_id :: u32

definition record_zero :: spool_record where
  "record_zero = \<lparr>rec_type = 0, rec_flags = 0, rec_generation = 0, rec_record_id = 0,
     rec_header_addr = 0, rec_data_addr = 0, rec_record_bytes = 0, rec_source_record_bytes = 0,
     rec_payload_bytes = 0, rec_crc32 = 0, rec_capture_segment_id = 0,
     rec_segment_start_offset_ms = 0, rec_source_id = 0\<rparr>"

record store_target =
  tgt_data_addr :: u32
  tgt_capacity_bytes :: u32
  tgt_online_record_id :: u32
  tgt_token :: u32

record spool_stats =
  st_produced :: "u32 list"
  st_committed :: "u32 list"
  st_acked :: "u32 list"
  st_dropped :: "u32 list"
  st_reserve_attempt :: "u32 list"
  st_reserve_ok :: "u32 list"
  st_reserve_busy :: "u32 list"
  st_reserve_full :: "u32 list"
  st_reserve_error :: "u32 list"
  st_reserve_busy_owner :: "u32 list"
  st_capacity_blocked :: u32
  st_erase_blocked :: u32
  st_generation_mismatch :: u32
  st_logical_used_bytes :: u32
  st_reserve_generation :: u32
  st_ack_generation :: u32
  st_reserve_ptr :: u32
  st_commit_ptr :: u32
  st_tx_ptr :: u32
  st_pending_bytes :: u32
  st_pending_high_water :: u32
  st_pending_records :: u32
  st_erased_ahead_bytes :: u32
  st_erased_ahead_min_bytes :: u32
  st_erased_sector_count :: u32
  st_reclaimable_sector_count :: u32
  st_erase_count :: u32
  st_wrap_count :: u32
  st_crc_pages :: u32
  st_crc_total_us :: u32
  st_crc_max_us :: u32
  st_header_programs :: u32
  st_erase_total_ms :: u32
  st_erase_max_ms :: u32
  st_read_errors :: u32
  st_write_errors :: u32
  st_erase_errors :: u32
  st_tx_read_wip_blocked :: u32
  st_tx_read_spi_busy :: u32
  st_tx_read_busy_retry :: u32
  st_erase_tx_conflict_prevented :: u32
  st_erase_issue_count :: u32
  st_erase_complete_count :: u32
  st_block32_erase_issue_count :: u32
  st_block32_erase_complete_count :: u32
  st_erase_timeout_count :: u32
  st_state_errors :: u32
  st_ack_errors :: u32
  st_last_error :: u32
  st_last_error_detail :: u32

definition stats_zero :: spool_stats where
  "stats_zero = \<lparr>st_produced = replicate 5 0, st_committed = replicate 5 0,
     st_acked = replicate 5 0, st_dropped = replicate 5 0, st_reserve_attempt = replicate 5 0,
     st_reserve_ok = replicate 5 0, st_reserve_busy = replicate 5 0, st_reserve_full = replicate 5 0,
     st_reserve_error = replicate 5 0, st_reserve_busy_owner = replicate 5 0,
     st_capacity_blocked = 0, st_erase_blocked = 0, st_generation_mismatch = 0,
     st_logical_used_bytes = 0, st_reserve_generation = 0, st_ack_generation = 0,
     st_reserve_ptr = 0, st_commit_ptr = 0, st_tx_ptr = 0, st_pending_bytes = 0,
     st_pending_high_water = 0, st_pending_records = 0, st_erased_ahead_bytes = 0,
     st_erased_ahead_min_bytes = 0, st_erased_sector_count = 0, st_reclaimable_sector_count = 0,
     st_erase_count = 0, st_wrap_count = 0, st_crc_pages = 0, st_crc_total_us = 0,
     st_crc_max_us = 0, st_header_programs = 0, st_erase_total_ms = 0, st_erase_max_ms = 0,
     st_read_errors = 0, st_write_errors = 0, st_erase_errors = 0, st_tx_read_wip_blocked = 0,
     st_tx_read_spi_busy = 0, st_tx_read_busy_retry = 0, st_erase_tx_conflict_prevented = 0,
     st_erase_issue_count = 0, st_erase_complete_count = 0, st_block32_erase_issue_count = 0,
     st_block32_erase_complete_count = 0, st_erase_timeout_count = 0, st_state_errors = 0,
     st_ack_errors = 0, st_last_error = 0, st_last_error_detail = 0\<rparr>"

record spool_state =
  sp_ready :: bool
  sp_session_active :: bool
  sp_page_retry_pending :: bool
  sp_erase_wip :: bool
  sp_start_prepare_active :: bool
  sp_start_prepare_minimum_bytes :: u32
  sp_start_prepare_erase_errors :: u32
  sp_start_prepare_timeout_count :: u32
  sp_clear_active :: bool
  sp_tx_cached :: bool
  sp_session_id :: u32
  sp_capture_segment_id :: u32
  sp_segment_start_offset_ms :: u32
  sp_next_record_id :: u32
  sp_next_token :: u32
  sp_reserve_pos :: u32
  sp_commit_pos :: u32
  sp_ack_pos :: u32
  sp_send_pos :: u32
  sp_wrap_gap_start :: u32
  sp_wrap_gap_bytes :: u32
  sp_erase_sector :: u32
  sp_erase_sector_count :: u32
  sp_erase_timeout_ms :: u32
  sp_erase_start_us :: u32
  sp_clear_next_sector :: u32
  sp_progress_seq :: u32
  sp_erased_bitmap :: "u32 list"
  sp_dirty_bitmap :: "u32 list"
  sp_reclaimable_bitmap :: "u32 list"
  sp_error_printed_bitmap :: u32
  sp_page :: "u8 list"
  sp_reservation :: spool_reservation
  sp_tx_record :: spool_record
  sp_sent_records :: "spool_record list"
  sp_sent_head :: u8
  sp_sent_count :: u8
  sp_last_reserve_block :: spool_reserve_block
  sp_stats :: spool_stats

definition spool_zero :: spool_state where
  "spool_zero = \<lparr>sp_ready = False, sp_session_active = False, sp_page_retry_pending = False,
     sp_erase_wip = False, sp_start_prepare_active = False, sp_start_prepare_minimum_bytes = 0,
     sp_start_prepare_erase_errors = 0, sp_start_prepare_timeout_count = 0,
     sp_clear_active = False, sp_tx_cached = False, sp_session_id = 0, sp_capture_segment_id = 0,
     sp_segment_start_offset_ms = 0, sp_next_record_id = 0, sp_next_token = 0,
     sp_reserve_pos = 0, sp_commit_pos = 0, sp_ack_pos = 0, sp_send_pos = 0,
     sp_wrap_gap_start = 0, sp_wrap_gap_bytes = 0, sp_erase_sector = 0, sp_erase_sector_count = 0,
     sp_erase_timeout_ms = 0, sp_erase_start_us = 0, sp_clear_next_sector = 0, sp_progress_seq = 0,
     sp_erased_bitmap = replicate 8 0, sp_dirty_bitmap = replicate 8 0,
     sp_reclaimable_bitmap = replicate 8 0, sp_error_printed_bitmap = 0,
     sp_page = replicate 256 0, sp_reservation = reservation_zero, sp_tx_record = record_zero,
     sp_sent_records = replicate 4 record_zero, sp_sent_head = 0, sp_sent_count = 0,
     sp_last_reserve_block = BLOCK_NONE, sp_stats = stats_zero\<rparr>"

section \<open>The stress writer\<close>

text \<open>\<open>page\<close> and \<open>verify\<close> point into the workspace of the mode; here they are the 256 bytes
  they point to, \<open>None\<close> for NULL.\<close>

record online_stress =
  os_source :: stress_source
  os_target :: store_target
  os_page :: "u8 list option"
  os_verify :: "u8 list option"
  os_session :: u32
  os_configured_rate :: u32
  os_committed :: u32
  os_acked :: u32
  os_record_bytes :: u32
  os_record_data :: u32
  os_data_left :: u32
  os_page_offset :: u32
  os_page_data :: u32
  os_crc :: u32
  os_cache_wait :: u32
  os_flash_wait :: u32
  os_send_wait :: u32
  os_ack_wait :: u32
  os_publish_ms :: u32
  os_skipped :: u32
  os_first_failure :: u32
  os_build_max_us :: u32
  os_program_max_us :: u32
  os_verify_max_us :: u32
  os_record_max_ms :: u32
  os_record_start_ms :: u32
  os_snapshot :: "u32 list"
  os_conn :: u8
  os_phase :: u8
  os_io_waiting :: bool
  os_queried :: bool
  os_negotiated :: bool
  os_armed :: bool
  os_configured :: bool
  os_prepared :: bool
  os_status_pending :: bool
  os_terminal_frozen :: bool

definition target_zero :: store_target where
  "target_zero = \<lparr>tgt_data_addr = 0, tgt_capacity_bytes = 0, tgt_online_record_id = 0, tgt_token = 0\<rparr>"

definition online_stress_zero :: online_stress where
  "online_stress_zero = \<lparr>os_source = stress_source_zero, os_target = target_zero, os_page = None,
     os_verify = None, os_session = 0, os_configured_rate = 0, os_committed = 0, os_acked = 0,
     os_record_bytes = 0, os_record_data = 0, os_data_left = 0, os_page_offset = 0,
     os_page_data = 0, os_crc = 0, os_cache_wait = 0, os_flash_wait = 0, os_send_wait = 0,
     os_ack_wait = 0, os_publish_ms = 0, os_skipped = 0, os_first_failure = 0,
     os_build_max_us = 0, os_program_max_us = 0, os_verify_max_us = 0, os_record_max_ms = 0,
     os_record_start_ms = 0, os_snapshot = replicate 40 0, os_conn = 0, os_phase = 0,
     os_io_waiting = False, os_queried = False, os_negotiated = False, os_armed = False,
     os_configured = False, os_prepared = False, os_status_pending = False,
     os_terminal_frozen = False\<rparr>"

section \<open>The world\<close>

record 'd world =
  w_spool :: spool_state
  w_diag :: sd_state
  w_stress :: online_stress
  w_dev :: 'd

text \<open>Updates of one part.\<close>

definition on_spool :: "(spool_state \<Rightarrow> spool_state) \<Rightarrow> 'd world \<Rightarrow> 'd world" where
  "on_spool f w = w\<lparr>w_spool := f (w_spool w)\<rparr>"

definition on_diag :: "(sd_state \<Rightarrow> sd_state) \<Rightarrow> 'd world \<Rightarrow> 'd world" where
  "on_diag f w = w\<lparr>w_diag := f (w_diag w)\<rparr>"

definition on_stress :: "(online_stress \<Rightarrow> online_stress) \<Rightarrow> 'd world \<Rightarrow> 'd world" where
  "on_stress f w = w\<lparr>w_stress := f (w_stress w)\<rparr>"

definition on_stats :: "(spool_stats \<Rightarrow> spool_stats) \<Rightarrow> spool_state \<Rightarrow> spool_state" where
  "on_stats f s = s\<lparr>sp_stats := f (sp_stats s)\<rparr>"

lemma on_spool_sel [simp]:
  "w_spool (on_spool f w) = f (w_spool w)" "w_diag (on_spool f w) = w_diag w"
  "w_stress (on_spool f w) = w_stress w" "w_dev (on_spool f w) = w_dev w"
  by (simp_all add: on_spool_def)

lemma on_diag_sel [simp]:
  "w_spool (on_diag g w) = w_spool w" "w_diag (on_diag g w) = g (w_diag w)"
  "w_stress (on_diag g w) = w_stress w" "w_dev (on_diag g w) = w_dev w"
  by (simp_all add: on_diag_def)

lemma on_stress_sel [simp]:
  "w_spool (on_stress h w) = w_spool w" "w_diag (on_stress h w) = w_diag w"
  "w_stress (on_stress h w) = h (w_stress w)" "w_dev (on_stress h w) = w_dev w"
  by (simp_all add: on_stress_def)

text \<open>Clock reads and the bus arbiter.\<close>

definition timebase_snapshot :: "'d device \<Rightarrow> 'd world \<Rightarrow> bool \<times> u32 \<times> 'd world" where
  "timebase_snapshot D w =
     (let (valid, t, d) = bsp_capture_timebase_snapshot D (w_dev w) in (valid, t, w\<lparr>w_dev := d\<rparr>))"

definition local_timestamp_us :: "'d device \<Rightarrow> 'd world \<Rightarrow> u32 \<times> 'd world" where
  "local_timestamp_us D w =
     (let (t, d) = imu_bsp_local_timestamp_us D (w_dev w) in (ucast t, w\<lparr>w_dev := d\<rparr>))"

definition os_time_ms :: "'d device \<Rightarrow> 'd world \<Rightarrow> u32 \<times> 'd world" where
  "os_time_ms D w = (let (t, d) = zy100_os_time_ms D (w_dev w) in (t, w\<lparr>w_dev := d\<rparr>))"

definition bus_owner_none :: "'d device \<Rightarrow> 'd world \<Rightarrow> bool \<times> 'd world" where
  "bus_owner_none D w = (let (r, d) = spi_bus_owner_none D (w_dev w) in (r, w\<lparr>w_dev := d\<rparr>))"

lemma clock_frames [simp]:
  "w_spool (snd (snd (timebase_snapshot D w))) = w_spool w"
  "w_stress (snd (snd (timebase_snapshot D w))) = w_stress w"
  "w_diag (snd (snd (timebase_snapshot D w))) = w_diag w"
  "w_spool (snd (local_timestamp_us D w)) = w_spool w"
  "w_stress (snd (local_timestamp_us D w)) = w_stress w"
  "w_diag (snd (local_timestamp_us D w)) = w_diag w"
  "w_spool (snd (os_time_ms D w)) = w_spool w"
  "w_stress (snd (os_time_ms D w)) = w_stress w"
  "w_diag (snd (os_time_ms D w)) = w_diag w"
  "w_spool (snd (bus_owner_none D w)) = w_spool w"
  "w_stress (snd (bus_owner_none D w)) = w_stress w"
  "w_diag (snd (bus_owner_none D w)) = w_diag w"
  by (simp_all add: timebase_snapshot_def local_timestamp_us_def os_time_ms_def bus_owner_none_def
      split: prod.splits)

end
