(* ===== verification/SpoolPos.thy ===== *)
theory SpoolPos
  imports OnlineState
begin

text \<open>
  Positions, the wrap gap, the sector bitmaps and the erase protection of
  \<open>zy100_online_spool.c\<close>: the helpers that only read the spool state or change one
  field of it.  A position grows without bound over the session; its low 20 bits are the offset
  in the 1 MiB region, the rest is the generation.  A static helper is only called with the
  address of an object, so its NULL branch is not part of the model.
\<close>

unbundle bit_operations_syntax

section \<open>Positions and the wrap gap\<close>

definition spool_pos_offset :: "u32 \<Rightarrow> u32" where
  "spool_pos_offset pos = pos AND (ZY100_ONLINE_SPOOL_REGION_BYTES - 1)"

definition spool_pos_addr :: "u32 \<Rightarrow> u32" where
  "spool_pos_addr pos = ZY100_ONLINE_SPOOL_REGION_BASE_ADDR + spool_pos_offset pos"

definition spool_pos_generation :: "u32 \<Rightarrow> u16" where
  "spool_pos_generation pos = ucast (pos div ZY100_ONLINE_SPOOL_REGION_BYTES)"

definition spool_pos_generation_valid :: "u32 \<Rightarrow> bool" where
  "spool_pos_generation_valid pos \<longleftrightarrow> pos div ZY100_ONLINE_SPOOL_REGION_BYTES \<le> 0xFFFF"

definition spool_skip_gap_value :: "u32 \<Rightarrow> spool_state \<Rightarrow> u32" where
  "spool_skip_gap_value pos s =
     (if sp_wrap_gap_bytes s \<noteq> 0 \<and> pos = sp_wrap_gap_start s
      then pos + sp_wrap_gap_bytes s else pos)"

text \<open>The position is passed by reference in the source; here it is returned.\<close>

definition spool_skip_gap :: "u32 \<Rightarrow> bool \<Rightarrow> spool_state \<Rightarrow> bool \<times> u32 \<times> spool_state" where
  "spool_skip_gap pos release s =
     (let nxt = spool_skip_gap_value pos s
      in if nxt < pos then (False, pos, s)
         else if nxt \<noteq> pos
         then (True, nxt, if release then s\<lparr>sp_wrap_gap_start := 0, sp_wrap_gap_bytes := 0\<rparr> else s)
         else (True, pos, s))"

definition spool_skip_gap_bounded ::
  "u32 \<Rightarrow> u32 \<Rightarrow> bool \<Rightarrow> spool_state \<Rightarrow> bool \<times> u32 \<times> spool_state" where
  "spool_skip_gap_bounded pos limit release s =
     (let nxt = spool_skip_gap_value pos s
      in if nxt < pos \<or> nxt > limit then (nxt \<ge> pos, pos, s)
         else if nxt \<noteq> pos
         then (True, nxt, if release then s\<lparr>sp_wrap_gap_start := 0, sp_wrap_gap_bytes := 0\<rparr> else s)
         else (True, pos, s))"

definition spool_used_bytes :: "spool_state \<Rightarrow> u32 option" where
  "spool_used_bytes s =
     (if sp_reserve_pos s < sp_ack_pos s then None
      else
        let used = sp_reserve_pos s - sp_ack_pos s
        in if used > ZY100_ONLINE_SPOOL_REGION_BYTES then None else Some used)"

definition spool_align_page :: "u32 \<Rightarrow> u32" where
  "spool_align_page value = (value + GD25Q32E_PAGE_BYTES - 1) AND NOT (GD25Q32E_PAGE_BYTES - 1)"

definition spool_sector_index :: "u32 \<Rightarrow> u32" where
  "spool_sector_index addr =
     (if addr < ZY100_ONLINE_SPOOL_REGION_BASE_ADDR \<or> addr \<ge> ZY100_ONLINE_SPOOL_END
      then ZY100_ONLINE_SPOOL_INVALID_INDEX
      else (addr - ZY100_ONLINE_SPOOL_REGION_BASE_ADDR) div GD25Q32E_SECTOR_BYTES)"

definition spool_sector_addr :: "u32 \<Rightarrow> u32" where
  "spool_sector_addr sector = ZY100_ONLINE_SPOOL_REGION_BASE_ADDR + sector * GD25Q32E_SECTOR_BYTES"

section \<open>Sector bitmaps\<close>

definition spool_bitmap_get :: "u32 list \<Rightarrow> u32 \<Rightarrow> bool" where
  "spool_bitmap_get bitmap index =
     (if index \<ge> ZY100_ONLINE_SPOOL_SECTOR_COUNT then False
      else (bitmap ! unat (index div 32)) AND push_bit (unat (index mod 32)) 1 \<noteq> 0)"

definition spool_bitmap_set :: "u32 \<Rightarrow> u32 list \<Rightarrow> u32 list" where
  "spool_bitmap_set index bitmap =
     (if index < ZY100_ONLINE_SPOOL_SECTOR_COUNT
      then bitmap[unat (index div 32) :=
             (bitmap ! unat (index div 32)) OR push_bit (unat (index mod 32)) 1]
      else bitmap)"

definition spool_bitmap_clear :: "u32 \<Rightarrow> u32 list \<Rightarrow> u32 list" where
  "spool_bitmap_clear index bitmap =
     (if index < ZY100_ONLINE_SPOOL_SECTOR_COUNT
      then bitmap[unat (index div 32) :=
             (bitmap ! unat (index div 32)) AND NOT (push_bit (unat (index mod 32)) 1)]
      else bitmap)"

definition spool_bitmap_count :: "u32 list \<Rightarrow> u32" where
  "spool_bitmap_count bitmap =
     foldl (\<lambda>count index. if (bitmap ! (index div 32)) AND push_bit (index mod 32) 1 \<noteq> 0
                          then count + 1 else count) 0 [0..<256]"

definition spool_latch_error :: "u32 \<Rightarrow> u32 \<Rightarrow> spool_state \<Rightarrow> spool_state" where
  "spool_latch_error code detail s =
     (let bitm = (if code < 32 then push_bit (unat code) 1 else 0 :: u32);
          s1 = s\<lparr>sp_stats := (sp_stats s)\<lparr>st_last_error := code, st_last_error_detail := detail\<rparr>\<rparr>
      in if bitm \<noteq> 0 \<and> sp_error_printed_bitmap s1 AND bitm \<noteq> 0 then s1
         else s1\<lparr>sp_error_printed_bitmap := sp_error_printed_bitmap s1 OR bitm\<rparr>)"

section \<open>Erased bytes ahead\<close>

function erased_loop :: "u32 list \<Rightarrow> u32 \<Rightarrow> u32 \<Rightarrow> u32 \<Rightarrow> u32" where
  "erased_loop bitmap limit_bytes bytes sector =
     (if bytes < limit_bytes \<and> spool_bitmap_get bitmap sector
      then
        let add = (if GD25Q32E_SECTOR_BYTES > limit_bytes - bytes then limit_bytes - bytes
                   else GD25Q32E_SECTOR_BYTES)
        in erased_loop bitmap limit_bytes (bytes + add) ((sector + 1) mod ZY100_ONLINE_SPOOL_SECTOR_COUNT)
      else bytes)"
  by pat_completeness auto
termination
proof (relation "measure (\<lambda>(bm, l, b, s). unat l - unat b)", goal_cases)
  case 1 show ?case by simp
next
  case (2 bm l b s add)
  have lt: "unat b < unat l" using 2 by (simp add: word_less_nat_alt)
  then have d: "unat (l - b) = unat l - unat b"
    by (simp add: unat_diff_le word_le_nat_alt)
  have "0 < unat add \<and> unat add \<le> unat l - unat b"
    using 2 d lt by (auto simp: word_less_nat_alt not_less)
  moreover from this have "unat (b + add) = unat b + unat add"
    using lt unat_lt_32 [of l] by (intro unat_add_no_wrap) (simp, linarith)
  ultimately show ?case using lt by (simp, linarith)
qed

declare erased_loop.simps [simp del]

definition spool_erased_from_pos :: "u32 \<Rightarrow> u32 \<Rightarrow> spool_state \<Rightarrow> u32" where
  "spool_erased_from_pos pos limit_bytes s =
     (let offset = spool_pos_offset pos
      in if limit_bytes = 0 \<or> limit_bytes > ZY100_ONLINE_SPOOL_REGION_BYTES then 0
         else
           let sector = offset div GD25Q32E_SECTOR_BYTES;
               part = offset mod GD25Q32E_SECTOR_BYTES
           in if part \<noteq> 0
              then
                let bytes = GD25Q32E_SECTOR_BYTES - part;
                    bytes1 = (if bytes > limit_bytes then limit_bytes else bytes)
                in erased_loop (sp_erased_bitmap s) limit_bytes bytes1
                     ((sector + 1) mod ZY100_ONLINE_SPOOL_SECTOR_COUNT)
              else erased_loop (sp_erased_bitmap s) limit_bytes 0 sector)"

definition spool_erased_ahead_bytes :: "spool_state \<Rightarrow> u32" where
  "spool_erased_ahead_bytes s =
     (case spool_used_bytes s of None \<Rightarrow> 0
      | Some used \<Rightarrow> spool_erased_from_pos (sp_reserve_pos s) (ZY100_ONLINE_SPOOL_REGION_BYTES - used) s)"

definition spool_refresh_stats :: "spool_state \<Rightarrow> spool_state" where
  "spool_refresh_stats s =
     (let used = (case spool_used_bytes s of Some u \<Rightarrow> u | None \<Rightarrow> 0);
          ahead = spool_erased_ahead_bytes s
      in s\<lparr>sp_stats := (sp_stats s)
             \<lparr>st_logical_used_bytes := used,
              st_reserve_generation := ucast (spool_pos_generation (sp_reserve_pos s)),
              st_ack_generation := ucast (spool_pos_generation (sp_ack_pos s)),
              st_reserve_ptr := spool_pos_addr (sp_reserve_pos s),
              st_commit_ptr := spool_pos_addr (sp_commit_pos s),
              st_tx_ptr := spool_pos_addr (sp_ack_pos s),
              st_erased_ahead_bytes := ahead,
              st_erased_ahead_min_bytes :=
                (if sp_session_active s \<and> ahead < st_erased_ahead_min_bytes (sp_stats s)
                 then ahead else st_erased_ahead_min_bytes (sp_stats s)),
              st_erased_sector_count := spool_bitmap_count (sp_erased_bitmap s),
              st_reclaimable_sector_count := spool_bitmap_count (sp_reclaimable_bitmap s)\<rparr>\<rparr>)"

section \<open>Live bytes and erase protection\<close>

definition spool_ranges_overlap :: "u32 \<Rightarrow> u32 \<Rightarrow> u32 \<Rightarrow> u32 \<Rightarrow> bool" where
  "spool_ranges_overlap first_addr first_bytes second_addr second_bytes =
     (let first_end = first_addr + first_bytes; second_end = second_addr + second_bytes
      in first_addr < second_end \<and> second_addr < first_end)"

lemma pos_offset_mod: "spool_pos_offset pos = pos mod 0x100000"
proof -
  have "(0x100000 :: u32) - 1 = mask 20" by (simp add: mask_eq_exp_minus_1)
  then have "spool_pos_offset pos = take_bit 20 pos"
    by (simp only: spool_pos_offset_def take_bit_eq_mask)
  then show ?thesis by (simp add: take_bit_eq_mod)
qed

lemma unat_pos_offset: "unat (spool_pos_offset pos) = unat pos mod 0x100000"
  by (simp add: pos_offset_mod unat_mod)

text \<open>The loop variable \<open>live_offset\<close> is the offset of a position: of \<open>ack_pos\<close> first and of 0
  in every later round, so the loop runs on the position.\<close>

function live_loop :: "u32 \<Rightarrow> u32 \<Rightarrow> u32 \<Rightarrow> bool" where
  "live_loop sector_offset used live_pos =
     (if used = 0 then False
      else
        let live_offset = spool_pos_offset live_pos;
            rest = ZY100_ONLINE_SPOOL_REGION_BYTES - live_offset;
            chunk = (if rest > used then used else rest)
        in if live_offset < sector_offset + GD25Q32E_SECTOR_BYTES \<and> sector_offset < live_offset + chunk
           then True
           else live_loop sector_offset (used - chunk) 0)"
  by pat_completeness auto
termination
proof (relation "measure (\<lambda>(so, used, lp). unat used)", goal_cases)
  case 1 show ?case by simp
next
  case (2 so used lp live_offset rest chunk)
  have "unat live_offset < 0x100000" using 2 by (simp add: unat_pos_offset)
  then have "0 < unat rest"
    using 2 by (simp add: unat_diff_le word_le_nat_alt)
  moreover have "0 < unat used" using 2 by (simp add: unat_gt_0)
  ultimately have "0 < unat chunk" "chunk \<le> used" using 2 by (auto simp: not_less)
  moreover from this have "unat chunk \<le> unat used" by (simp add: word_le_nat_alt)
  ultimately show ?case by (simp add: unat_diff_le)
qed

declare live_loop.simps [simp del]

definition spool_sector_contains_live_bytes :: "u32 \<Rightarrow> spool_state \<Rightarrow> bool" where
  "spool_sector_contains_live_bytes sector s =
     (if sector \<ge> ZY100_ONLINE_SPOOL_SECTOR_COUNT then False
      else (case spool_used_bytes s of None \<Rightarrow> False
        | Some used \<Rightarrow> live_loop (sector * GD25Q32E_SECTOR_BYTES) used (sp_ack_pos s)))"

definition spool_reservation_range_valid :: "u32 \<Rightarrow> u32 \<Rightarrow> u32 \<Rightarrow> spool_state \<Rightarrow> bool" where
  "spool_reservation_range_valid token addr len s =
     (let r = sp_reservation s
      in if \<not> res_active r \<or> res_token r \<noteq> token \<or> len = 0 \<or> addr < res_data_addr r then False
         else
           let data_end = res_data_addr r + res_source_record_bytes r
           in addr < data_end \<and> len \<le> data_end - addr)"

definition sent_record :: "spool_state \<Rightarrow> nat \<Rightarrow> spool_record" where
  "sent_record s i = sp_sent_records s ! ((unat (sp_sent_head s) + i) mod 4)"

definition spool_sector_erase_protected :: "u32 \<Rightarrow> spool_state \<Rightarrow> bool" where
  "spool_sector_erase_protected sector s =
     (if sector \<ge> ZY100_ONLINE_SPOOL_SECTOR_COUNT then True
      else if \<not> sp_session_active s then False
      else if \<not> spool_bitmap_get (sp_reclaimable_bitmap s) sector then True
      else if spool_sector_contains_live_bytes sector s then True
      else
        let sector_addr = spool_sector_addr sector
        in if res_active (sp_reservation s) \<and>
              spool_ranges_overlap sector_addr GD25Q32E_SECTOR_BYTES
                (res_header_addr (sp_reservation s)) (res_total_bytes (sp_reservation s)) then True
           else if sp_tx_cached s \<and>
              spool_ranges_overlap sector_addr GD25Q32E_SECTOR_BYTES
                (rec_header_addr (sp_tx_record s)) (rec_record_bytes (sp_tx_record s)) then True
           else list_ex (\<lambda>i. spool_ranges_overlap sector_addr GD25Q32E_SECTOR_BYTES
                  (rec_header_addr (sent_record s i)) (rec_record_bytes (sent_record s i)))
                [0..<unat (sp_sent_count s)])"

definition spool_block32_reclaimable :: "u32 \<Rightarrow> spool_state \<Rightarrow> bool" where
  "spool_block32_reclaimable first_sector s =
     (if first_sector \<ge> ZY100_ONLINE_SPOOL_SECTOR_COUNT \<or>
         first_sector + ZY100_ONLINE_SPOOL_BLOCK32_SECTORS > ZY100_ONLINE_SPOOL_SECTOR_COUNT \<or>
         spool_sector_addr first_sector mod GD25Q32E_BLOCK32_BYTES \<noteq> 0 then False
      else list_all (\<lambda>offset.
        let sector = first_sector + of_nat offset
        in spool_bitmap_get (sp_erased_bitmap s) sector \<or>
           (spool_bitmap_get (sp_reclaimable_bitmap s) sector \<and>
            \<not> spool_sector_erase_protected sector s)) [0..<8])"

definition spool_block32_erased :: "u32 \<Rightarrow> spool_state \<Rightarrow> bool" where
  "spool_block32_erased first_sector s =
     (if first_sector \<ge> ZY100_ONLINE_SPOOL_SECTOR_COUNT \<or>
         first_sector + ZY100_ONLINE_SPOOL_BLOCK32_SECTORS > ZY100_ONLINE_SPOOL_SECTOR_COUNT then False
      else list_all (\<lambda>offset. spool_bitmap_get (sp_erased_bitmap s) (first_sector + of_nat offset))
             [0..<8])"

section \<open>Bitmap laws\<close>

lemma bitmap_get_bit:
  "spool_bitmap_get bm i \<longleftrightarrow> unat i < 256 \<and> bit (bm ! (unat i div 32)) (unat i mod 32)"
  by (simp add: spool_bitmap_get_def bit_iff_and_push_bit_not_eq_0 word_le_nat_alt unat_div unat_mod not_le)

lemma length_bitmap [simp]:
  "length (spool_bitmap_set i bm) = length bm" "length (spool_bitmap_clear i bm) = length bm"
  by (simp_all add: spool_bitmap_set_def spool_bitmap_clear_def)

lemma sector_slot: "i div 32 = j div 32 \<and> i mod 32 = j mod 32 \<longleftrightarrow> i = (j :: nat)"
  by (metis mult_div_mod_eq)

lemma bitmap_get_set [simp]:
  assumes "length bm = 8"
  shows "spool_bitmap_get (spool_bitmap_set i bm) j \<longleftrightarrow>
     spool_bitmap_get bm j \<or> (i = j \<and> unat i < 256)"
proof (cases "unat i < 256")
  case True
  have "unat i div 32 < 8" using True by simp
  then show ?thesis
    using assms True sector_slot [of "unat i" "unat j"]
    by (auto simp: spool_bitmap_set_def bitmap_get_bit word_less_nat_alt unat_div unat_mod
        nth_list_update bit_simps word_unat_eq_iff)
next
  case False
  then show ?thesis by (simp add: spool_bitmap_set_def word_less_nat_alt)
qed

lemma bitmap_get_clear [simp]:
  assumes "length bm = 8"
  shows "spool_bitmap_get (spool_bitmap_clear i bm) j \<longleftrightarrow> spool_bitmap_get bm j \<and> i \<noteq> j"
proof (cases "unat i < 256")
  case True
  have "unat i div 32 < 8" using True by simp
  then show ?thesis
    using assms True sector_slot [of "unat i" "unat j"]
    by (auto simp: spool_bitmap_clear_def bitmap_get_bit word_less_nat_alt unat_div unat_mod
        nth_list_update bit_simps word_unat_eq_iff)
next
  case False
  then show ?thesis by (auto simp: spool_bitmap_clear_def word_less_nat_alt bitmap_get_bit)
qed

lemma bitmap_get_replicate0 [simp]: "\<not> spool_bitmap_get (replicate 8 0) i"
  by (simp add: bitmap_get_bit)

text \<open>Counting the bits of a bitmap.\<close>

lemma bitmap_count_eq:
  "unat (spool_bitmap_count bm) = card {i. i < 256 \<and> spool_bitmap_get bm (of_nat i)}"
proof -
  let ?P = "\<lambda>i. (bm ! (i div 32)) AND push_bit (i mod 32) (1 :: u32) \<noteq> 0"
  have "n \<le> 256 \<Longrightarrow> unat (foldl (\<lambda>count index. if ?P index then count + 1 else count) (0 :: u32) [0..<n]) =
      card {i. i < n \<and> ?P i}" for n
  proof (induction n)
    case 0 then show ?case by simp
  next
    case (Suc n)
    have "card {i. i < n \<and> ?P i} \<le> card {..<n}" by (rule card_mono) auto
    then have le: "card {i. i < n \<and> ?P i} \<le> n" by simp
    have "{i. i < Suc n \<and> ?P i} = (if ?P n then insert n {i. i < n \<and> ?P i} else {i. i < n \<and> ?P i})"
      by (auto simp: less_Suc_eq)
    then show ?case
      using Suc le by (auto simp: unat_add_no_wrap)
  qed
  moreover have "?P i \<longleftrightarrow> spool_bitmap_get bm (of_nat i)" if "i < 256" for i
    using that by (simp add: bitmap_get_bit bit_iff_and_push_bit_not_eq_0 unat_of_nat take_bit_nat_eq_self_iff)
  ultimately have "unat (spool_bitmap_count bm) = card {i. i < 256 \<and> ?P i}"
    by (simp add: spool_bitmap_count_def)
  also have "{i. i < 256 \<and> ?P i} = {i. i < 256 \<and> spool_bitmap_get bm (of_nat i)}"
    using \<open>\<And>i. i < 256 \<Longrightarrow> ?P i \<longleftrightarrow> spool_bitmap_get bm (of_nat i)\<close> by blast
  finally show ?thesis .
qed

section \<open>Live sectors\<close>

text \<open>What the loop decides: some position between \<open>ack_pos\<close> and \<open>reserve_pos\<close> lies in
  the sector.\<close>

definition sector_live :: "u32 \<Rightarrow> spool_state \<Rightarrow> bool" where
  "sector_live sector s \<longleftrightarrow> (\<exists>p. unat (sp_ack_pos s) \<le> p \<and> p < unat (sp_reserve_pos s) \<and>
     (p mod 0x100000) div 4096 = unat sector)"

lemma used_bytes_some:
  "spool_used_bytes s = Some used \<longleftrightarrow> sp_ack_pos s \<le> sp_reserve_pos s \<and>
     unat (sp_reserve_pos s) - unat (sp_ack_pos s) \<le> 0x100000 \<and>
     used = sp_reserve_pos s - sp_ack_pos s"
  by (auto simp: spool_used_bytes_def Let_def word_less_nat_alt word_le_nat_alt unat_diff_le not_less)

lemma unat_used:
  "spool_used_bytes s = Some used \<Longrightarrow> unat used = unat (sp_reserve_pos s) - unat (sp_ack_pos s)"
  by (auto simp: used_bytes_some unat_diff_le)

lemma sector_interval:
  "(p :: nat) div 4096 = k \<longleftrightarrow> k * 4096 \<le> p \<and> p < k * 4096 + 4096"
  by auto

lemma interval_meets:
  fixes ofs chunk k :: nat
  assumes "0 < chunk"
  shows "(ofs < k * 4096 + 4096 \<and> k * 4096 < ofs + chunk) \<longleftrightarrow> (\<exists>i < chunk. (ofs + i) div 4096 = k)"
proof
  assume h: "ofs < k * 4096 + 4096 \<and> k * 4096 < ofs + chunk"
  show "\<exists>i < chunk. (ofs + i) div 4096 = k"
  proof (cases "k * 4096 \<le> ofs")
    case True
    then have "ofs div 4096 = k" using h by (simp only: sector_interval)
    then show ?thesis using assms by (intro exI [of _ 0]) simp
  next
    case False
    then show ?thesis using h by (intro exI [of _ "k * 4096 - ofs"]) simp
  qed
next
  assume "\<exists>i < chunk. (ofs + i) div 4096 = k"
  then obtain i where "i < chunk" "(ofs + i) div 4096 = k" by blast
  then have "k * 4096 \<le> ofs + i" "ofs + i < k * 4096 + 4096" "i < chunk"
    by (simp_all only: sector_interval)
  then show "ofs < k * 4096 + 4096 \<and> k * 4096 < ofs + chunk" by linarith
qed

lemma wrap_mod:
  fixes p R :: nat
  assumes "0 < R"
  shows "(p + ((R - p mod R) + i)) mod R = i mod R"
proof -
  have "p mod R \<le> R" "p mod R \<le> p" using assms by (simp_all add: less_imp_le)
  then have "p + ((R - p mod R) + i) = (p - p mod R) + R + i" by linarith
  also have "\<dots> = i + (p div R + 1) * R" by (simp add: minus_mod_eq_div_mult)
  finally show ?thesis by (simp only: mod_mult_self1)
qed

lemma live_loop_eq:
  assumes "unat used \<le> 0x100000" "k < 256"
  shows "live_loop (of_nat (k * 4096)) used pos \<longleftrightarrow>
     (\<exists>i < unat used. ((unat pos + i) mod 0x100000) div 4096 = k)"
  using assms(1)
proof (induction "of_nat (k * 4096) :: u32" used pos rule: live_loop.induct)
  case (1 used pos)
  let ?R = "0x100000 :: nat" and ?o = "unat pos mod 0x100000"
  let ?rest = "0x100000 - spool_pos_offset pos"
  let ?chunk = "if ?rest > used then used else ?rest"
  have so: "unat (of_nat (k * 4096) :: u32) = k * 4096"
    using assms(2) by (simp add: unat_of_nat take_bit_nat_eq_self_iff del: of_nat_mult)
  have o: "unat (spool_pos_offset pos) = ?o" "?o < ?R" by (simp_all add: unat_pos_offset)
  have r: "unat ?rest = ?R - ?o" using o by (subst unat_diff_le) (simp_all add: word_le_nat_alt)
  have c: "unat ?chunk = min (unat used) (?R - ?o)" using r by (auto simp: word_less_nat_alt)
  show ?case
  proof (cases "used = 0")
    case True then show ?thesis by (simp add: live_loop.simps)
  next
    case False
    then have u: "0 < unat used" by (simp add: unat_gt_0)
    have cpos: "0 < unat ?chunk" using u o c by auto
    have wrap: "((unat pos + i) mod ?R) = ?o + i" if "i < unat ?chunk" for i
    proof -
      have "?o + i < ?R" using that c by linarith
      then show ?thesis by (metis mod_add_left_eq mod_less)
    qed
    have e1: "unat (of_nat (k * 4096) + 4096 :: u32) = k * 4096 + 4096"
      using so assms(2) by (subst unat_add_no_wrap) simp_all
    have e2: "unat (spool_pos_offset pos + ?chunk) = ?o + unat ?chunk"
      using o c by (subst unat_add_no_wrap) auto
    have meets: "(spool_pos_offset pos < of_nat (k * 4096) + 4096 \<and>
        of_nat (k * 4096) < spool_pos_offset pos + ?chunk) \<longleftrightarrow>
        (\<exists>i < unat ?chunk. ((unat pos + i) mod ?R) div 4096 = k)"
    proof -
      obtain ch where ch: "ch = ?chunk" by blast
      have "(spool_pos_offset pos < of_nat (k * 4096) + 4096 \<and>
          of_nat (k * 4096) < spool_pos_offset pos + ch) \<longleftrightarrow>
          ?o < k * 4096 + 4096 \<and> k * 4096 < ?o + unat ch"
        by (simp only: word_less_nat_alt e1 e2 [folded ch] so o(1))
      also have "\<dots> \<longleftrightarrow> (\<exists>i < unat ch. (?o + i) div 4096 = k)"
        using interval_meets [OF cpos [folded ch], of ?o k] .
      also have "\<dots> \<longleftrightarrow> (\<exists>i < unat ch. ((unat pos + i) mod ?R) div 4096 = k)"
        using wrap [folded ch] by auto
      finally show ?thesis by (simp only: ch)
    qed
    have step: "live_loop (of_nat (k * 4096)) used pos \<longleftrightarrow>
        (\<exists>i < unat ?chunk. ((unat pos + i) mod ?R) div 4096 = k) \<or>
        live_loop (of_nat (k * 4096)) (used - ?chunk) 0"
      using False meets by (subst live_loop.simps) (auto simp: Let_def)
    have d: "unat (used - ?chunk) = unat used - unat ?chunk"
      using c by (intro unat_diff_le) (simp add: word_le_nat_alt)
    show ?thesis
    proof (cases "\<exists>i < unat ?chunk. ((unat pos + i) mod ?R) div 4096 = k")
      case True
      then show ?thesis using step c by auto
    next
      case no: False
      have IH: "live_loop (of_nat (k * 4096)) (used - ?chunk) 0 \<longleftrightarrow>
          (\<exists>i < unat used - unat ?chunk. (i mod ?R) div 4096 = k)"
      proof -
        have "\<not> (spool_pos_offset pos < of_nat (k * 4096) + 4096 \<and>
            of_nat (k * 4096) < spool_pos_offset pos + ?chunk)" using no meets by blast
        moreover have "unat (used - ?chunk) \<le> 0x100000" using d 1(2) by linarith
        ultimately have "live_loop (of_nat (k * 4096)) (used - ?chunk) 0 \<longleftrightarrow>
            (\<exists>i < unat (used - ?chunk). ((unat (0 :: u32) + i) mod ?R) div 4096 = k)"
          by (intro 1(1) [OF False refl refl refl])
        then show ?thesis by (simp only: d unat_0 add_0)
      qed
      have shift: "(unat pos + (unat ?chunk + i)) mod ?R = i mod ?R" if "i < unat used - unat ?chunk" for i
      proof -
        have "unat ?chunk = ?R - ?o" using that c by linarith
        then show ?thesis using wrap_mod [of ?R "unat pos" i] by (simp only: zero_less_numeral)
      qed
      have "(\<exists>i < unat used. ((unat pos + i) mod ?R) div 4096 = k) \<longleftrightarrow>
          (\<exists>i < unat used - unat ?chunk. ((unat pos + (unat ?chunk + i)) mod ?R) div 4096 = k)"
        (is "?l \<longleftrightarrow> ?r")
      proof
        assume ?l
        then obtain i where i: "i < unat used" "((unat pos + i) mod ?R) div 4096 = k" by blast
        have "unat ?chunk \<le> i"
        proof (rule ccontr)
          assume "\<not> unat ?chunk \<le> i"
          then have "i < unat ?chunk" by (simp only: not_le)
          with i(2) no show False by blast
        qed
        then obtain j where "i = unat ?chunk + j" by (auto simp: le_iff_add)
        then show ?r using i by (intro exI [of _ j]) simp
      next
        assume ?r then show ?l by (metis less_diff_conv add.commute)
      qed
      also have "\<dots> \<longleftrightarrow> (\<exists>i < unat used - unat ?chunk. (i mod ?R) div 4096 = k)"
        using shift by auto
      finally show ?thesis using step no IH by simp
    qed
  qed
qed

lemma contains_live_iff:
  assumes "unat sector < 256"
  shows "spool_sector_contains_live_bytes sector s \<longleftrightarrow>
     spool_used_bytes s \<noteq> None \<and> sector_live sector s"
proof (cases "spool_used_bytes s")
  case None then show ?thesis by (simp add: spool_sector_contains_live_bytes_def)
next
  case (Some used)
  have e: "sector * 4096 = of_nat (unat sector * 4096)" by simp
  have "unat used \<le> 0x100000" using Some by (auto simp: used_bytes_some unat_diff_le)
  then have "spool_sector_contains_live_bytes sector s \<longleftrightarrow>
      (\<exists>i < unat used. ((unat (sp_ack_pos s) + i) mod 0x100000) div 4096 = unat sector)"
    using live_loop_eq [of used "unat sector" "sp_ack_pos s"] Some assms
    by (simp add: spool_sector_contains_live_bytes_def word_le_nat_alt not_le e del: of_nat_mult)
  also have "\<dots> \<longleftrightarrow> sector_live sector s" (is "?l \<longleftrightarrow> ?r")
  proof
    assume ?l then obtain i where "i < unat used"
      "((unat (sp_ack_pos s) + i) mod 0x100000) div 4096 = unat sector" by blast
    then show ?r using unat_used [OF Some]
      unfolding sector_live_def by (intro exI [of _ "unat (sp_ack_pos s) + i"]) auto
  next
    assume ?r then obtain p where p: "unat (sp_ack_pos s) \<le> p" "p < unat (sp_reserve_pos s)"
      "(p mod 0x100000) div 4096 = unat sector" unfolding sector_live_def by blast
    then show ?l using unat_used [OF Some] by (intro exI [of _ "p - unat (sp_ack_pos s)"]) auto
  qed
  finally show ?thesis using Some by simp
qed

end
