(* ===== verification/SpoolIo.thy ===== *)
theory SpoolIo
  imports SpoolPos
begin

text \<open>
  The flash accesses of \<open>zy100_online_spool.c\<close>: the three driver calls with their
  diagnostics, the readiness test of the transmit path, the completion poll of an erase and the
  two operations that issue one.  A result comes first in the returned tuple, then an out
  parameter, then the world.
\<close>

unbundle bit_operations_syntax

section \<open>Driver calls with diagnostics\<close>

definition spool_io_busy :: "'d device \<Rightarrow> 'd world \<Rightarrow> imu_status \<times> bool \<times> 'd world" where
  "spool_io_busy D w =
     (let (va, a, w1) = timebase_snapshot D w;
          (status, busy, d) = gd25q32e_is_busy D (w_dev w1);
          (vb, b, w2) = timebase_snapshot D (w1\<lparr>w_dev := d\<rparr>);
          w3 = on_diag (zy100_stress_diag_io_note 3 (a - b) (va \<and> vb)) w2;
          w4 = on_diag (zy100_stress_diag_io_poll b vb (status = IMU_STATUS_BUS_ERROR) busy
                 (status = IMU_STATUS_OK)) w3
      in (status, busy, w4))"

definition spool_io_program :: "'d device \<Rightarrow> u32 \<Rightarrow> u8 list \<Rightarrow> 'd world \<Rightarrow> imu_status \<times> 'd world" where
  "spool_io_program D addr data w =
     (let (va, a, w1) = timebase_snapshot D w;
          (status, d) = gd25q32e_page_program D addr data (w_dev w1);
          (vb, b, w2) = timebase_snapshot D (w1\<lparr>w_dev := d\<rparr>);
          w3 = on_diag (zy100_stress_diag_io_note 0 (a - b) (va \<and> vb)) w2;
          w4 = (if status = IMU_STATUS_OK
                then on_spool (sp_page_retry_pending_update (\<lambda>_. True))
                       (on_diag (zy100_stress_diag_io_issue a va) w3)
                else w3);
          w5 = (if status = IMU_STATUS_BUS_ERROR then on_diag zy100_stress_diag_io_bus w4 else w4)
      in (status, w5))"

text \<open>The buffer of length \<open>len\<close> is an argument and its new contents a result.\<close>

definition spool_io_read ::
  "'d device \<Rightarrow> u32 \<Rightarrow> u32 \<Rightarrow> u8 list \<Rightarrow> 'd world \<Rightarrow> imu_status \<times> u8 list \<times> 'd world" where
  "spool_io_read D kind addr buf w =
     (let (va, a, w1) = timebase_snapshot D w;
          (status, bytes, d) = gd25q32e_read_fast D addr buf (w_dev w1);
          w2 = w1\<lparr>w_dev := d\<rparr>;
          w3 = (if kind = 1 \<and> status = IMU_STATUS_OK
                then on_spool (sp_page_retry_pending_update (\<lambda>_. False)) w2 else w2);
          (vb, b, w4) = timebase_snapshot D w3;
          w5 = on_diag (zy100_stress_diag_io_note kind (a - b) (va \<and> vb)) w4;
          w6 = (if status = IMU_STATUS_BUS_ERROR then on_diag zy100_stress_diag_io_bus w5 else w5)
      in (status, fit (length buf) bytes, w6))"

definition zy100_online_spool_page_retry_pending :: "'d device \<Rightarrow> 'd world \<Rightarrow> bool \<times> 'd world" where
  "zy100_online_spool_page_retry_pending D w =
     (let s = w_spool w
      in if sp_session_active s \<and> res_active (sp_reservation s) \<and>
            sp_page_retry_pending s \<and> \<not> sp_erase_wip s
         then bus_owner_none D w else (False, w))"

definition spool_flash_busy :: "'d device \<Rightarrow> 'd world \<Rightarrow> bool \<times> bool \<times> 'd world" where
  "spool_flash_busy D w =
     (let (status, busy, w1) = spool_io_busy D w
      in if status = IMU_STATUS_BUS_ERROR then (False, busy, w1)
         else if status \<noteq> IMU_STATUS_OK
         then (False, busy, on_spool (spool_latch_error 1 (imu_status_code status) \<circ>
                 on_stats (inc st_read_errors_update)) w1)
         else (True, busy, w1))"

section \<open>Transmit path\<close>

definition note_tx_spi_busy :: "spool_state \<Rightarrow> spool_state" where
  "note_tx_spi_busy = on_stats (inc st_tx_read_busy_retry_update \<circ> inc st_tx_read_spi_busy_update)"

definition note_tx_wip :: "spool_state \<Rightarrow> spool_state" where
  "note_tx_wip = on_stats (inc st_tx_read_busy_retry_update \<circ> inc st_tx_read_wip_blocked_update)"

text \<open>The owner test of the transmit path and of the commit pump notes a blocked poll.\<close>

definition note_bus_poll :: "'d device \<Rightarrow> 'd world \<Rightarrow> 'd world" where
  "note_bus_poll D w =
     (let (valid, t, w1) = timebase_snapshot D w
      in on_diag (zy100_stress_diag_io_poll t valid True False False) w1)"

definition spool_tx_read_ready :: "'d device \<Rightarrow> 'd world \<Rightarrow> spool_io_result \<times> 'd world" where
  "spool_tx_read_ready D w =
     (if sp_erase_wip (w_spool w) then (IO_BUSY, on_spool note_tx_wip w)
      else
        let (owner_none, w1) = bus_owner_none D w
        in if \<not> owner_none then (IO_BUSY, on_spool note_tx_spi_busy (note_bus_poll D w1))
           else
             let (status, busy, w2) = spool_io_busy D w1
             in if status = IMU_STATUS_BUS_ERROR then (IO_BUSY, on_spool note_tx_spi_busy w2)
                else if status \<noteq> IMU_STATUS_OK
                then (IO_ERROR, on_spool (spool_latch_error 16 (imu_status_code status) \<circ>
                        on_stats (inc st_read_errors_update)) w2)
                else if busy then (IO_BUSY, on_spool note_tx_wip w2)
                else (IO_OK, w2))"

section \<open>Erase completion\<close>

text \<open>The sectors an erase freed: erased, neither dirty nor reclaimable.\<close>

definition mark_sectors_erased :: "u32 \<Rightarrow> u32 \<Rightarrow> spool_state \<Rightarrow> spool_state" where
  "mark_sectors_erased first count s =
     foldl (\<lambda>s offset.
        let sector = first + of_nat offset
        in s\<lparr>sp_erased_bitmap := spool_bitmap_set sector (sp_erased_bitmap s),
             sp_dirty_bitmap := spool_bitmap_clear sector (sp_dirty_bitmap s),
             sp_reclaimable_bitmap := spool_bitmap_clear sector (sp_reclaimable_bitmap s)\<rparr>)
       s [0..<unat count]"

definition finish_erase_counts :: "spool_state \<Rightarrow> spool_state" where
  "finish_erase_counts s =
     (let s1 = on_stats (inc st_erase_complete_count_update \<circ> inc st_erase_count_update)
                 (s\<lparr>sp_erase_wip := False\<rparr>)
      in if sp_erase_sector_count s1 = ZY100_ONLINE_SPOOL_BLOCK32_SECTORS
         then on_stats (inc st_block32_erase_complete_count_update) s1 else s1)"

definition spool_poll_erase_wip :: "'d device \<Rightarrow> 'd world \<Rightarrow> bool \<times> 'd world" where
  "spool_poll_erase_wip D w =
     (if \<not> sp_erase_wip (w_spool w) then (False, w)
      else
        let (ok, busy, w1) = spool_flash_busy D w
        in if \<not> ok then (True, w1)
           else if busy then
             let (now, w2) = local_timestamp_us D w1; s = w_spool w2
             in if now - sp_erase_start_us s \<ge> sp_erase_timeout_ms s * 1000 \<and>
                   (st_last_error (sp_stats s) \<noteq> 17 \<or>
                    st_last_error_detail (sp_stats s) \<noteq> sp_erase_sector s)
                then (True, on_spool (spool_latch_error 17 (sp_erase_sector s) \<circ>
                        on_stats (inc st_erase_timeout_count_update \<circ> inc st_erase_errors_update)) w2)
                else (True, w2)
           else
             let w2 = on_spool (\<lambda>s. finish_erase_counts
                        (mark_sectors_erased (sp_erase_sector s) (sp_erase_sector_count s) s)) w1;
                 (now, w3) = local_timestamp_us D w2;
                 erase_ms = (now - sp_erase_start_us (w_spool w3)) div 1000
             in (True, on_spool (\<lambda>s. spool_refresh_stats
                   ((on_stats (\<lambda>st. st\<lparr>st_erase_total_ms := st_erase_total_ms st + erase_ms,
                        st_erase_max_ms := (if erase_ms > st_erase_max_ms st then erase_ms
                                            else st_erase_max_ms st)\<rparr>) s)
                    \<lparr>sp_erase_start_us := 0, sp_erase_sector_count := 0, sp_erase_timeout_ms := 0\<rparr>)) w3))"

section \<open>Issuing an erase\<close>

definition erase_issued :: "'d device \<Rightarrow> u32 \<Rightarrow> u32 \<Rightarrow> u32 \<Rightarrow> 'd world \<Rightarrow> 'd world" where
  "erase_issued D sector count timeout_ms w =
     (let w1 = on_spool (\<lambda>s. (on_stats (inc st_erase_issue_count_update) s)
            \<lparr>sp_erase_wip := True, sp_erase_sector := sector, sp_erase_sector_count := count,
             sp_erase_timeout_ms := timeout_ms\<rparr>) w;
          (now, w2) = local_timestamp_us D w1
      in on_spool (sp_erase_start_us_update (\<lambda>_. now)) w2)"

definition spool_issue_erase :: "'d device \<Rightarrow> u32 \<Rightarrow> 'd world \<Rightarrow> bool \<times> 'd world" where
  "spool_issue_erase D sector w =
     (if sector \<ge> ZY100_ONLINE_SPOOL_SECTOR_COUNT \<or> sp_erase_wip (w_spool w) then (False, w)
      else if spool_sector_erase_protected sector (w_spool w)
      then (False, on_spool (on_stats (inc st_erase_tx_conflict_prevented_update)) w)
      else
        let (ok, busy, w1) = spool_flash_busy D w
        in if \<not> ok \<or> busy then (False, w1)
           else
             let (status, d) = gd25q32e_init D (w_dev w1); w2 = w1\<lparr>w_dev := d\<rparr>
             in if status = IMU_STATUS_BUS_ERROR then (False, w2)
                else if status \<noteq> IMU_STATUS_OK
                then (False, on_spool (spool_latch_error 2 sector \<circ>
                        on_stats (inc st_erase_errors_update)) w2)
                else
                  let (status2, d2) = gd25q32e_sector_erase_4k D (spool_sector_addr sector) (w_dev w2);
                      w3 = w2\<lparr>w_dev := d2\<rparr>
                  in if status2 = IMU_STATUS_BUS_ERROR then (False, w3)
                     else if status2 \<noteq> IMU_STATUS_OK
                     then (False, on_spool (spool_latch_error 2 sector \<circ>
                             on_stats (inc st_erase_errors_update)) w3)
                     else (True, erase_issued D sector 1 GD25Q32E_SECTOR_ERASE_TIMEOUT_MS w3))"

definition spool_issue_erase_block32 :: "'d device \<Rightarrow> u32 \<Rightarrow> 'd world \<Rightarrow> bool \<times> 'd world" where
  "spool_issue_erase_block32 D first_sector w =
     (if sp_erase_wip (w_spool w) \<or> \<not> spool_block32_reclaimable first_sector (w_spool w) then (False, w)
      else
        let (ok, busy, w1) = spool_flash_busy D w
        in if \<not> ok \<or> busy then (False, w1)
           else
             let (status, d) = gd25q32e_block_erase_32k D (spool_sector_addr first_sector) (w_dev w1);
                 w2 = w1\<lparr>w_dev := d\<rparr>
             in if status = IMU_STATUS_BUS_ERROR then (False, w2)
                else if status \<noteq> IMU_STATUS_OK
                then (False, on_spool (spool_latch_error 18 first_sector \<circ>
                        on_stats (inc st_erase_errors_update)) w2)
                else (True, erase_issued D first_sector ZY100_ONLINE_SPOOL_BLOCK32_SECTORS
                        GD25Q32E_BLOCK32_ERASE_TIMEOUT_MS
                        (on_spool (on_stats (inc st_block32_erase_issue_count_update)) w2)))"

section \<open>What an access leaves alone\<close>

text \<open>A status poll and a bus note only touch the diagnostics and the device; a program and a
  read also move the retry hint.\<close>

lemma io_busy_frame:
  assumes "spool_io_busy D w = (st, b, w')"
  shows "w_spool w' = w_spool w \<and>
    w_stress w' = w_stress w"
  using assms by (auto simp: spool_io_busy_def timebase_snapshot_def Let_def split: prod.splits)

lemma note_bus_poll_frame [simp]:
  "w_spool (note_bus_poll D w) = w_spool w" "w_stress (note_bus_poll D w) = w_stress w"
  by (auto simp: note_bus_poll_def timebase_snapshot_def Let_def split: prod.splits)

lemma io_program_frame:
  assumes "spool_io_program D addr bs w = (st, w')"
  shows "(w_spool w' = (if st = IMU_STATUS_OK then (w_spool w)\<lparr>sp_page_retry_pending := True\<rparr> else w_spool w)) \<and>
    w_stress w' = w_stress w"
  using assms by (auto simp: spool_io_program_def timebase_snapshot_def Let_def split: prod.splits if_splits)

lemma io_read_frame:
  assumes "spool_io_read D kind addr buf w = (st, bs, w')"
  shows "(w_spool w' = (if kind = 1 \<and> st = IMU_STATUS_OK
      then (w_spool w)\<lparr>sp_page_retry_pending := False\<rparr> else w_spool w)) \<and>
    w_stress w' = w_stress w \<and>
    length bs = length buf"
  using assms by (auto simp: spool_io_read_def timebase_snapshot_def Let_def split: prod.splits if_splits)

lemma timestamp_frame:
  assumes "local_timestamp_us D w = (t, w')"
  shows "w_spool w' = w_spool w \<and>
    w_stress w' = w_stress w"
  using clock_frames(4,5) [of D w] assms by simp_all

lemma owner_frame:
  assumes "bus_owner_none D w = (r, w')"
  shows "w_spool w' = w_spool w \<and>
    w_stress w' = w_stress w"
  using clock_frames(10,11) [of D w] assms by simp_all

lemma snapshot_frame:
  assumes "timebase_snapshot D w = (v, t, w')"
  shows "w_spool w' = w_spool w \<and>
    w_stress w' = w_stress w"
  using clock_frames(1,2) [of D w] assms by simp_all

lemma os_time_frame:
  assumes "os_time_ms D w = (t, w')"
  shows "w_spool w' = w_spool w \<and>
    w_stress w' = w_stress w"
  using clock_frames(7,8) [of D w] assms by simp_all

text \<open>The part of the spool a driver call, an error or a counter never changes: positions, gap,
  reservation and transmit window, the sector bitmaps, the erase in progress and the counters
  of pending records.\<close>

definition spool_core :: "spool_state \<Rightarrow> spool_state" where
  "spool_core s = s\<lparr>sp_page_retry_pending := False, sp_progress_seq := 0,
     sp_error_printed_bitmap := 0, sp_page := [], sp_last_reserve_block := BLOCK_NONE,
     sp_stats := stats_zero\<lparr>st_pending_records := st_pending_records (sp_stats s),
                          st_pending_bytes := st_pending_bytes (sp_stats s)\<rparr>\<rparr>"

lemma core_latch [simp]: "spool_core (spool_latch_error code detail s) = spool_core s"
  by (simp add: spool_core_def spool_latch_error_def Let_def)

lemma core_refresh [simp]: "spool_core (spool_refresh_stats s) = spool_core s"
  by (simp add: spool_core_def spool_refresh_stats_def Let_def)

lemma core_on_stats [simp]:
  "st_pending_records (f (sp_stats s)) = st_pending_records (sp_stats s) \<Longrightarrow>
   st_pending_bytes (f (sp_stats s)) = st_pending_bytes (sp_stats s) \<Longrightarrow>
   spool_core (on_stats f s) = spool_core s"
  by (simp add: spool_core_def on_stats_def)

lemma core_upd [simp]:
  "spool_core (s\<lparr>sp_page_retry_pending := b\<rparr>) = spool_core s"
  "spool_core (s\<lparr>sp_progress_seq := n\<rparr>) = spool_core s"
  "spool_core (s\<lparr>sp_page := p\<rparr>) = spool_core s"
  "spool_core (s\<lparr>sp_last_reserve_block := k\<rparr>) = spool_core s"
  by (simp_all add: spool_core_def)

text \<open>Equal cores agree on every field of the core.\<close>

lemma core_sel:
  shows "sp_ready (spool_core s) = sp_ready s"
  "sp_session_active (spool_core s) = sp_session_active s"
  "sp_erase_wip (spool_core s) = sp_erase_wip s"
  "sp_tx_cached (spool_core s) = sp_tx_cached s"
  "sp_session_id (spool_core s) = sp_session_id s"
  "sp_reserve_pos (spool_core s) = sp_reserve_pos s"
  "sp_commit_pos (spool_core s) = sp_commit_pos s"
  "sp_ack_pos (spool_core s) = sp_ack_pos s"
  "sp_send_pos (spool_core s) = sp_send_pos s"
  "sp_wrap_gap_start (spool_core s) = sp_wrap_gap_start s"
  "sp_wrap_gap_bytes (spool_core s) = sp_wrap_gap_bytes s"
  "sp_erase_sector (spool_core s) = sp_erase_sector s"
  "sp_erase_sector_count (spool_core s) = sp_erase_sector_count s"
  "sp_erased_bitmap (spool_core s) = sp_erased_bitmap s"
  "sp_dirty_bitmap (spool_core s) = sp_dirty_bitmap s"
  "sp_reclaimable_bitmap (spool_core s) = sp_reclaimable_bitmap s"
  "sp_reservation (spool_core s) = sp_reservation s"
  "sp_tx_record (spool_core s) = sp_tx_record s"
  "sp_sent_records (spool_core s) = sp_sent_records s"
  "sp_sent_head (spool_core s) = sp_sent_head s"
  "sp_sent_count (spool_core s) = sp_sent_count s"
  "sp_next_record_id (spool_core s) = sp_next_record_id s"
  "sp_next_token (spool_core s) = sp_next_token s"
  "sp_capture_segment_id (spool_core s) = sp_capture_segment_id s"
  "sp_segment_start_offset_ms (spool_core s) = sp_segment_start_offset_ms s"
  and "st_pending_records (sp_stats (spool_core s)) = st_pending_records (sp_stats s)"
  and "st_pending_bytes (sp_stats (spool_core s)) = st_pending_bytes (sp_stats s)"
  by (simp_all add: spool_core_def)

lemma core_fields:
  assumes "spool_core s = spool_core t"
  shows "sp_ready s = sp_ready t"
    "sp_session_active s = sp_session_active t"
    "sp_erase_wip s = sp_erase_wip t"
    "sp_tx_cached s = sp_tx_cached t"
    "sp_session_id s = sp_session_id t"
    "sp_reserve_pos s = sp_reserve_pos t"
    "sp_commit_pos s = sp_commit_pos t"
    "sp_ack_pos s = sp_ack_pos t"
    "sp_send_pos s = sp_send_pos t"
    "sp_wrap_gap_start s = sp_wrap_gap_start t"
    "sp_wrap_gap_bytes s = sp_wrap_gap_bytes t"
    "sp_erase_sector s = sp_erase_sector t"
    "sp_erase_sector_count s = sp_erase_sector_count t"
    "sp_erased_bitmap s = sp_erased_bitmap t"
    "sp_dirty_bitmap s = sp_dirty_bitmap t"
    "sp_reclaimable_bitmap s = sp_reclaimable_bitmap t"
    "sp_reservation s = sp_reservation t"
    "sp_tx_record s = sp_tx_record t"
    "sp_sent_records s = sp_sent_records t"
    "sp_sent_head s = sp_sent_head t"
    "sp_sent_count s = sp_sent_count t"
    "sp_next_record_id s = sp_next_record_id t"
    "sp_next_token s = sp_next_token t"
    "sp_capture_segment_id s = sp_capture_segment_id t"
    "sp_segment_start_offset_ms s = sp_segment_start_offset_ms t"
    "st_pending_records (sp_stats s) = st_pending_records (sp_stats t)"
    "st_pending_bytes (sp_stats s) = st_pending_bytes (sp_stats t)"
  by (simp_all only: core_sel [of s, symmetric] core_sel [of t, symmetric] assms)

lemma flash_busy_frame:
  assumes "spool_flash_busy D w = (ok, b, w')"
  shows "spool_core (w_spool w') = spool_core (w_spool w) \<and>
    w_stress w' = w_stress w \<and>
    sp_page_retry_pending (w_spool w') = sp_page_retry_pending (w_spool w)"
  using assms
  by (auto simp: spool_flash_busy_def Let_def on_stats_def spool_latch_error_def spool_core_def
      dest!: io_busy_frame split: prod.splits if_splits)

lemma tx_ready_frame:
  assumes "spool_tx_read_ready D w = (r, w')"
  shows "spool_core (w_spool w') = spool_core (w_spool w) \<and>
    w_stress w' = w_stress w \<and>
    sp_page_retry_pending (w_spool w') = sp_page_retry_pending (w_spool w)"
  using assms
  by (auto simp: spool_tx_read_ready_def Let_def note_tx_wip_def note_tx_spi_busy_def on_stats_def
      spool_latch_error_def spool_core_def
      dest!: io_busy_frame owner_frame split: prod.splits if_splits)

text \<open>The queue of records: the core without the sector bitmaps and the erase in progress.\<close>

definition queue_core :: "spool_state \<Rightarrow> spool_state" where
  "queue_core s = (spool_core s)\<lparr>sp_erased_bitmap := [], sp_dirty_bitmap := [],
     sp_reclaimable_bitmap := [], sp_erase_wip := False, sp_erase_sector := 0,
     sp_erase_sector_count := 0, sp_erase_timeout_ms := 0, sp_erase_start_us := 0\<rparr>"

lemma queue_core_cong: "spool_core s = spool_core t \<Longrightarrow> queue_core s = queue_core t"
  by (simp add: queue_core_def)

lemma queue_core_simps [simp]:
  "queue_core (spool_latch_error code detail s) = queue_core s"
  "queue_core (spool_refresh_stats s) = queue_core s"
  "queue_core (s\<lparr>sp_page_retry_pending := b\<rparr>) = queue_core s"
  "queue_core (s\<lparr>sp_progress_seq := n\<rparr>) = queue_core s"
  "queue_core (s\<lparr>sp_page := p\<rparr>) = queue_core s"
  "queue_core (s\<lparr>sp_last_reserve_block := k\<rparr>) = queue_core s"
  "queue_core (s\<lparr>sp_erased_bitmap := bm\<rparr>) = queue_core s"
  "queue_core (s\<lparr>sp_dirty_bitmap := bm\<rparr>) = queue_core s"
  "queue_core (s\<lparr>sp_reclaimable_bitmap := bm\<rparr>) = queue_core s"
  "queue_core (s\<lparr>sp_erase_wip := b\<rparr>) = queue_core s"
  "queue_core (s\<lparr>sp_erase_sector := n\<rparr>) = queue_core s"
  "queue_core (s\<lparr>sp_erase_sector_count := n\<rparr>) = queue_core s"
  "queue_core (s\<lparr>sp_erase_timeout_ms := n\<rparr>) = queue_core s"
  "queue_core (s\<lparr>sp_erase_start_us := n\<rparr>) = queue_core s"
  by (simp_all add: queue_core_def) (simp_all add: spool_core_def)

lemma queue_core_on_stats [simp]:
  "st_pending_records (f (sp_stats s)) = st_pending_records (sp_stats s) \<Longrightarrow>
   st_pending_bytes (f (sp_stats s)) = st_pending_bytes (sp_stats s) \<Longrightarrow>
   queue_core (on_stats f s) = queue_core s"
  by (simp add: queue_core_def)

lemma queue_sel:
  shows "sp_ready (queue_core s) = sp_ready s"
    "sp_session_active (queue_core s) = sp_session_active s"
    "sp_tx_cached (queue_core s) = sp_tx_cached s"
    "sp_session_id (queue_core s) = sp_session_id s"
    "sp_reserve_pos (queue_core s) = sp_reserve_pos s"
    "sp_commit_pos (queue_core s) = sp_commit_pos s"
    "sp_ack_pos (queue_core s) = sp_ack_pos s"
    "sp_send_pos (queue_core s) = sp_send_pos s"
    "sp_wrap_gap_start (queue_core s) = sp_wrap_gap_start s"
    "sp_wrap_gap_bytes (queue_core s) = sp_wrap_gap_bytes s"
    "sp_reservation (queue_core s) = sp_reservation s"
    "sp_tx_record (queue_core s) = sp_tx_record s"
    "sp_sent_records (queue_core s) = sp_sent_records s"
    "sp_sent_head (queue_core s) = sp_sent_head s"
    "sp_sent_count (queue_core s) = sp_sent_count s"
    "sp_next_record_id (queue_core s) = sp_next_record_id s"
    "sp_next_token (queue_core s) = sp_next_token s"
    "sp_capture_segment_id (queue_core s) = sp_capture_segment_id s"
    "sp_segment_start_offset_ms (queue_core s) = sp_segment_start_offset_ms s"
  and "st_pending_records (sp_stats (queue_core s)) = st_pending_records (sp_stats s)"
  and "st_pending_bytes (sp_stats (queue_core s)) = st_pending_bytes (sp_stats s)"
  by (simp_all add: queue_core_def core_sel)

lemma queue_fields:
  assumes "queue_core s = queue_core t"
  shows "sp_ready s = sp_ready t"
    "sp_session_active s = sp_session_active t"
    "sp_tx_cached s = sp_tx_cached t"
    "sp_session_id s = sp_session_id t"
    "sp_reserve_pos s = sp_reserve_pos t"
    "sp_commit_pos s = sp_commit_pos t"
    "sp_ack_pos s = sp_ack_pos t"
    "sp_send_pos s = sp_send_pos t"
    "sp_wrap_gap_start s = sp_wrap_gap_start t"
    "sp_wrap_gap_bytes s = sp_wrap_gap_bytes t"
    "sp_reservation s = sp_reservation t"
    "sp_tx_record s = sp_tx_record t"
    "sp_sent_records s = sp_sent_records t"
    "sp_sent_head s = sp_sent_head t"
    "sp_sent_count s = sp_sent_count t"
    "sp_next_record_id s = sp_next_record_id t"
    "sp_next_token s = sp_next_token t"
    "sp_capture_segment_id s = sp_capture_segment_id t"
    "sp_segment_start_offset_ms s = sp_segment_start_offset_ms t"
    "st_pending_records (sp_stats s) = st_pending_records (sp_stats t)"
    "st_pending_bytes (sp_stats s) = st_pending_bytes (sp_stats t)"
  by (simp_all only: queue_sel [of s, symmetric] queue_sel [of t, symmetric] assms)

lemma mark_erased_queue [simp]:
  "queue_core (mark_sectors_erased first count s) = queue_core s"
  "sp_page_retry_pending (mark_sectors_erased first count s) = sp_page_retry_pending s"
proof -
  let ?f = "\<lambda>s offset. let sector = first + of_nat offset
        in s\<lparr>sp_erased_bitmap := spool_bitmap_set sector (sp_erased_bitmap s),
             sp_dirty_bitmap := spool_bitmap_clear sector (sp_dirty_bitmap s),
             sp_reclaimable_bitmap := spool_bitmap_clear sector (sp_reclaimable_bitmap s)\<rparr>"
  have "queue_core (foldl ?f s ns) = queue_core s \<and>
      sp_page_retry_pending (foldl ?f s ns) = sp_page_retry_pending s" for ns
    by (induction ns arbitrary: s) (simp_all add: Let_def)
  then show "queue_core (mark_sectors_erased first count s) = queue_core s"
    "sp_page_retry_pending (mark_sectors_erased first count s) = sp_page_retry_pending s"
    unfolding mark_sectors_erased_def by blast+
qed

lemma finish_erase_queue [simp]:
  "queue_core (finish_erase_counts s) = queue_core s"
  "sp_page_retry_pending (finish_erase_counts s) = sp_page_retry_pending s"
  by (simp_all add: finish_erase_counts_def Let_def) (simp_all add: on_stats_def)

lemma retry_simps [simp]:
  "sp_page_retry_pending (spool_latch_error code detail s) = sp_page_retry_pending s"
  "sp_page_retry_pending (spool_refresh_stats s) = sp_page_retry_pending s"
  "sp_page_retry_pending (on_stats f s) = sp_page_retry_pending s"
  by (simp_all add: spool_latch_error_def spool_refresh_stats_def on_stats_def Let_def)

lemma poll_erase_frame:
  assumes "spool_poll_erase_wip D w = (r, w')"
  shows "queue_core (w_spool w') = queue_core (w_spool w) \<and> w_stress w' = w_stress w \<and>
     sp_page_retry_pending (w_spool w') = sp_page_retry_pending (w_spool w)"
  using assms
  by (auto simp: spool_poll_erase_wip_def Let_def
      dest!: flash_busy_frame timestamp_frame queue_core_cong split: prod.splits if_splits)

lemma poll_erase_idle:
  "spool_poll_erase_wip D w = (False, w') \<Longrightarrow> w' = w \<and> \<not> sp_erase_wip (w_spool w)"
  by (auto simp: spool_poll_erase_wip_def Let_def split: prod.splits if_splits)

lemma erase_issued_frame:
  "queue_core (w_spool (erase_issued D k n t w)) = queue_core (w_spool w)"
  "w_stress (erase_issued D k n t w) = w_stress w"
  "sp_page_retry_pending (w_spool (erase_issued D k n t w)) = sp_page_retry_pending (w_spool w)"
  by (auto simp: erase_issued_def Let_def dest!: timestamp_frame split: prod.splits)

lemma issue_erase_frame:
  assumes "spool_issue_erase D k w = (r, w')"
  shows "queue_core (w_spool w') = queue_core (w_spool w) \<and> w_stress w' = w_stress w \<and>
     sp_page_retry_pending (w_spool w') = sp_page_retry_pending (w_spool w)"
  using assms
  by (auto simp: spool_issue_erase_def Let_def erase_issued_frame
      dest!: flash_busy_frame queue_core_cong split: prod.splits if_splits)

lemma issue_block32_frame:
  assumes "spool_issue_erase_block32 D k w = (r, w')"
  shows "queue_core (w_spool w') = queue_core (w_spool w) \<and> w_stress w' = w_stress w \<and>
     sp_page_retry_pending (w_spool w') = sp_page_retry_pending (w_spool w)"
  using assms
  by (auto simp: spool_issue_erase_block32_def Let_def erase_issued_frame
      dest!: flash_busy_frame queue_core_cong split: prod.splits if_splits)

end
