(* ===== verification/SpoolReserve.thy ===== *)
theory SpoolReserve
  imports SpoolIo ByteOrder
begin

text \<open>
  Reservations of \<open>zy100_online_spool.c\<close>: the plan for the next record, the provider operations
  reserve, commit and abort, and the 256 byte record header that is written in front of the data
  and read back by the sender.
\<close>

unbundle bit_operations_syntax

section \<open>The reserve plan\<close>

definition sector_range :: "u32 \<Rightarrow> u32 \<Rightarrow> u32 list" where
  "sector_range first lst = map of_nat [unat first ..< unat lst + 1]"

definition spool_reservation_sectors_ready :: "u32 \<Rightarrow> u32 \<Rightarrow> spool_state \<Rightarrow> bool" where
  "spool_reservation_sectors_ready addr total_bytes s =
     (let first = spool_sector_index addr;
          lst = spool_sector_index (addr + total_bytes - 1)
      in if first = ZY100_ONLINE_SPOOL_INVALID_INDEX \<or> lst = ZY100_ONLINE_SPOOL_INVALID_INDEX
         then False
         else list_all (\<lambda>sector.
           (sector = first \<and> addr mod GD25Q32E_SECTOR_BYTES \<noteq> 0 \<and>
            spool_bitmap_get (sp_dirty_bitmap s) sector) \<or>
           spool_bitmap_get (sp_erased_bitmap s) sector) (sector_range first lst))"

text \<open>The plan is \<open>None\<close> where the source leaves its out parameter unset.\<close>

definition spool_build_reserve_plan ::
  "u32 \<Rightarrow> spool_state \<Rightarrow> bool \<times> spool_plan option \<times> spool_reserve_block" where
  "spool_build_reserve_plan record_bytes s =
     (let aligned = spool_align_page record_bytes;
          total = ZY100_ONLINE_SPOOL_RECORD_HEADER_BYTES + aligned
      in if \<not> sp_session_active s \<or> res_active (sp_reservation s) \<or> record_bytes = 0 \<or>
            aligned \<noteq> record_bytes \<or> total > ZY100_ONLINE_SPOOL_REGION_BYTES
         then (False, None, BLOCK_NONE)
         else case spool_used_bytes s of None \<Rightarrow> (False, None, BLOCK_NONE)
         | Some used \<Rightarrow>
           let offset = spool_pos_offset (sp_reserve_pos s);
               gap = (if offset + total > ZY100_ONLINE_SPOOL_REGION_BYTES
                      then ZY100_ONLINE_SPOOL_REGION_BYTES - offset else 0)
           in if gap \<noteq> 0 \<and> sp_wrap_gap_bytes s \<noteq> 0 then (False, None, BLOCK_NONE)
              else if gap > 0xFFFFFFFF - sp_reserve_pos s \<or>
                      total > 0xFFFFFFFF - sp_reserve_pos s - gap then (False, None, BLOCK_NONE)
              else if gap + total > ZY100_ONLINE_SPOOL_REGION_BYTES - used
              then (False, None, BLOCK_UNACKED)
              else
                let start_pos = sp_reserve_pos s + gap
                in if \<not> spool_pos_generation_valid start_pos \<or>
                      \<not> spool_pos_generation_valid (start_pos + total) then (False, None, BLOCK_NONE)
                   else
                     let plan = \<lparr>plan_start_pos = start_pos, plan_gap_bytes = gap,
                                 plan_header_addr = spool_pos_addr start_pos,
                                 plan_total_bytes = total,
                                 plan_generation = spool_pos_generation start_pos\<rparr>
                     in if \<not> spool_reservation_sectors_ready (plan_header_addr plan) total s
                        then (False, Some plan, BLOCK_ERASE_PENDING)
                        else (True, Some plan, BLOCK_NONE))"

definition spool_provider_can_reserve :: "u32 \<Rightarrow> spool_state \<Rightarrow> bool" where
  "spool_provider_can_reserve record_bytes s = fst (spool_build_reserve_plan record_bytes s)"

section \<open>Reserve\<close>

text \<open>The sectors a new record lies in: no longer erased, dirty, not reclaimable.\<close>

definition mark_sectors_used :: "u32 list \<Rightarrow> spool_state \<Rightarrow> spool_state" where
  "mark_sectors_used sectors s =
     foldl (\<lambda>s sector.
        s\<lparr>sp_erased_bitmap := spool_bitmap_clear sector (sp_erased_bitmap s),
          sp_dirty_bitmap := spool_bitmap_set sector (sp_dirty_bitmap s),
          sp_reclaimable_bitmap := spool_bitmap_clear sector (sp_reclaimable_bitmap s)\<rparr>) s sectors"

definition reserve_commit_plan ::
  "u32 \<Rightarrow> u32 \<Rightarrow> u32 \<Rightarrow> u32 \<Rightarrow> spool_plan \<Rightarrow> spool_state \<Rightarrow> store_target \<times> spool_state" where
  "reserve_commit_plan kind source_id record_bytes payload_bytes plan s =
     (let generation_before = spool_pos_generation (sp_reserve_pos s);
          res = reservation_zero\<lparr>res_active := True, res_type := ucast kind,
                  res_source_id := source_id,
                  res_capture_segment_id := sp_capture_segment_id s,
                  res_segment_start_offset_ms := sp_segment_start_offset_ms s,
                  res_record_id := sp_next_record_id s, res_token := sp_next_token s,
                  res_header_addr := plan_header_addr plan,
                  res_data_addr := plan_header_addr plan + ZY100_ONLINE_SPOOL_RECORD_HEADER_BYTES,
                  res_source_record_bytes := record_bytes, res_payload_bytes := payload_bytes,
                  res_total_bytes := plan_total_bytes plan, res_crc := zy100_crc32_ieee_begin,
                  res_commit_state := COMMIT_IDLE\<rparr>;
          s1 = (if plan_gap_bytes plan \<noteq> 0
                then s\<lparr>sp_reservation := res, sp_wrap_gap_start := sp_reserve_pos s,
                       sp_wrap_gap_bytes := plan_gap_bytes plan,
                       sp_reserve_pos := sp_reserve_pos s + plan_gap_bytes plan\<rparr>
                else s\<lparr>sp_reservation := res\<rparr>);
          first = spool_sector_index (plan_header_addr plan);
          lst = spool_sector_index (plan_header_addr plan + plan_total_bytes plan - 1);
          s2 = mark_sectors_used (sector_range first lst) s1;
          target = \<lparr>tgt_data_addr = res_data_addr res, tgt_capacity_bytes = record_bytes,
                    tgt_online_record_id = res_record_id res, tgt_token = res_token res\<rparr>;
          s3 = s2\<lparr>sp_reserve_pos := plan_start_pos plan + plan_total_bytes plan\<rparr>;
          s4 = (if spool_pos_generation (sp_reserve_pos s3) \<noteq> generation_before
                then on_stats (inc st_wrap_count_update) s3 else s3);
          s5 = on_stats (incat st_reserve_ok_update (unat kind) \<circ> incat st_produced_update (unat kind))
                 (s4\<lparr>sp_last_reserve_block := BLOCK_NONE\<rparr>)
      in (target, spool_refresh_stats s5))"

text \<open>\<open>target\<close> is \<open>None\<close> for a NULL pointer; on success it is the filled target.\<close>

definition reserve_checked ::
  "u32 \<Rightarrow> u32 \<Rightarrow> u32 \<Rightarrow> u32 \<Rightarrow> store_target option \<Rightarrow> spool_state \<Rightarrow>
   store_reserve_result \<times> store_target option \<times> spool_state" where
  "reserve_checked kind source_id record_bytes payload_bytes target s1 =
     (   if target = None \<or> record_bytes = 0 \<or> record_bytes mod GD25Q32E_PAGE_BYTES \<noteq> 0 \<or>
            kind \<ge> ZY100_ONLINE_RECORD_TYPE_COUNT \<or> kind = 0
         then
           let s2 = on_stats (inc st_state_errors_update) s1;
               s3 = (if kind < ZY100_ONLINE_RECORD_TYPE_COUNT
                     then on_stats (incat st_reserve_error_update (unat kind)) s2 else s2)
           in (RESERVE_ERROR, target, spool_latch_error 3 record_bytes s3)
         else if res_active (sp_reservation s1)
         then
           let s2 = on_stats (incat st_reserve_busy_update (unat kind)) s1
           in (RESERVE_BUSY, target,
               if ucast (res_type (sp_reservation s2)) < ZY100_ONLINE_RECORD_TYPE_COUNT
               then on_stats (incat st_reserve_busy_owner_update (unat (res_type (sp_reservation s2)))) s2
               else s2)
         else if sp_capture_segment_id s1 = 0
         then (RESERVE_ERROR, target, spool_latch_error 16 kind
                (on_stats (inc st_state_errors_update \<circ> incat st_reserve_error_update (unat kind)) s1))
         else case spool_build_reserve_plan record_bytes s1 of
           (True, Some plan, _) \<Rightarrow>
             let s2 = s1\<lparr>sp_reservation := reservation_zero,
                         sp_next_record_id := sp_next_record_id s1 + 1,
                         sp_next_token := sp_next_token s1 + 1\<rparr>
             in if sp_next_record_id s2 = 0 \<or> sp_next_token s2 = 0
                then (RESERVE_ERROR, target,
                      spool_latch_error 4 0 (on_stats (inc st_state_errors_update) s2))
                else
                  let (tgt, s3) = reserve_commit_plan kind source_id record_bytes payload_bytes plan s2
                  in (RESERVE_OK, Some tgt, s3)
         | (_, _, block) \<Rightarrow>
             if block = BLOCK_NONE
             then (RESERVE_ERROR, target, spool_latch_error 26 (sp_reserve_pos s1)
                    (on_stats (inc st_state_errors_update \<circ> incat st_reserve_error_update (unat kind)) s1))
             else
               let s2 = s1\<lparr>sp_last_reserve_block := block\<rparr>;
                   s3 = (if block = BLOCK_UNACKED then on_stats (inc st_capacity_blocked_update) s2
                         else on_stats (inc st_erase_blocked_update) s2)
               in (RESERVE_FULL, target, on_stats (incat st_reserve_full_update (unat kind)) s3))"

text \<open>The entry of the function clears the last block and counts the attempt.\<close>

definition reserve_attempt :: "u32 \<Rightarrow> spool_state \<Rightarrow> spool_state" where
  "reserve_attempt kind s =
     (let s0 = s\<lparr>sp_last_reserve_block := BLOCK_NONE\<rparr>
      in if kind < ZY100_ONLINE_RECORD_TYPE_COUNT
         then on_stats (incat st_reserve_attempt_update (unat kind)) s0 else s0)"

definition spool_provider_reserve ::
  "u32 \<Rightarrow> u32 \<Rightarrow> u32 \<Rightarrow> u32 \<Rightarrow> store_target option \<Rightarrow> spool_state \<Rightarrow>
   store_reserve_result \<times> store_target option \<times> spool_state" where
  "spool_provider_reserve kind source_id record_bytes payload_bytes target s =
     reserve_checked kind source_id record_bytes payload_bytes target (reserve_attempt kind s)"

definition zy100_online_spool_reserve_stress ::
  "u32 \<Rightarrow> u32 \<Rightarrow> u32 \<Rightarrow> store_target option \<Rightarrow> spool_state \<Rightarrow>
   store_reserve_result \<times> store_target option \<times> spool_state" where
  "zy100_online_spool_reserve_stress source_id source_record_bytes payload_bytes target s =
     spool_provider_reserve 4 source_id source_record_bytes payload_bytes target s"

definition zy100_online_spool_reserve_raw ::
  "u32 \<Rightarrow> u32 \<Rightarrow> u32 \<Rightarrow> store_target option \<Rightarrow> spool_state \<Rightarrow>
   store_reserve_result \<times> store_target option \<times> spool_state" where
  "zy100_online_spool_reserve_raw source_id source_record_bytes payload_bytes target s =
     spool_provider_reserve 1 source_id source_record_bytes payload_bytes target s"

section \<open>Commit and abort of the provider\<close>

definition spool_provider_commit :: "u32 \<Rightarrow> spool_state \<Rightarrow> bool \<times> spool_state" where
  "spool_provider_commit token s =
     (let r = sp_reservation s
      in if \<not> res_active r \<or> res_data_done r \<or> res_token r \<noteq> token
         then (False, spool_latch_error 5 token (on_stats (inc st_state_errors_update) s))
         else (True, s\<lparr>sp_reservation := r\<lparr>res_data_done := True, res_commit_state := COMMIT_CRC\<rparr>\<rparr>))"

definition spool_provider_abort :: "u32 \<Rightarrow> spool_state \<Rightarrow> spool_state" where
  "spool_provider_abort token s =
     (let r = sp_reservation s
      in if \<not> res_active r \<or> res_token r \<noteq> token then s
         else if sp_reserve_pos s < res_total_bytes r
         then spool_latch_error 27 (sp_reserve_pos s) (on_stats (inc st_state_errors_update) s)
         else
           let start_pos = sp_reserve_pos s - res_total_bytes r;
               s1 = (if sp_wrap_gap_bytes s \<noteq> 0 \<and>
                        start_pos = sp_wrap_gap_start s + sp_wrap_gap_bytes s
                     then s\<lparr>sp_reserve_pos := sp_wrap_gap_start s, sp_wrap_gap_start := 0,
                            sp_wrap_gap_bytes := 0\<rparr>
                     else s\<lparr>sp_reserve_pos := start_pos\<rparr>);
               s2 = on_stats (incat st_dropped_update (unat (res_type r))) s1
           in spool_refresh_stats (s2\<lparr>sp_reservation := reservation_zero\<rparr>))"

definition zy100_online_spool_abort_reservation :: "u32 \<Rightarrow> spool_state \<Rightarrow> spool_state" where
  "zy100_online_spool_abort_reservation token s = spool_provider_abort token s"

definition zy100_online_spool_commit_with_crc :: "u32 \<Rightarrow> u32 \<Rightarrow> spool_state \<Rightarrow> bool \<times> spool_state" where
  "zy100_online_spool_commit_with_crc token source_crc32 s =
     (let r = sp_reservation s
      in if \<not> res_active r \<or> res_data_done r \<or> res_token r \<noteq> token \<or> res_commit_state r \<noteq> COMMIT_IDLE
         then (False, spool_latch_error 25 token (on_stats (inc st_state_errors_update) s))
         else (True, s\<lparr>sp_reservation := r\<lparr>res_data_done := True, res_crc_final_valid := True,
                         res_crc32_final := source_crc32, res_commit_state := COMMIT_HEADER_READY\<rparr>,
                       sp_progress_seq := sp_progress_seq s + 1\<rparr>))"

section \<open>The record header\<close>

definition spool_fill_header :: "spool_state \<Rightarrow> spool_state" where
  "spool_fill_header s =
     (let r = sp_reservation s;
          source_crc32 = (if res_crc_final_valid r then res_crc32_final r
                          else zy100_crc32_ieee_finish (res_crc r));
          p0 = replicate (length (sp_page s)) 0xFF;
          p1 = zy100_put_u32_le 0 ZY100_ONLINE_SPOOL_RECORD_MAGIC p0;
          p2 = zy100_put_u16_le 4 1 p1;
          p3 = zy100_put_u16_le 6 256 p2;
          p4 = zy100_put_u32_le 8 (sp_session_id s) p3;
          p5 = p4[12 := res_type r, 13 := 1 OR 2];
          p6 = zy100_put_u16_le 14 1 p5;
          p7 = zy100_put_u32_le 16 (res_record_id r) p6;
          p8 = zy100_put_u32_le 20 (res_payload_bytes r) p7;
          p9 = zy100_put_u32_le 24 (res_source_record_bytes r) p8;
          p10 = zy100_put_u32_le 28 source_crc32 p9;
          p11 = zy100_put_u32_le 32 (res_capture_segment_id r) p10;
          p12 = zy100_put_u32_le 36 (res_segment_start_offset_ms r) p11;
          p13 = zy100_put_u32_le 40 (res_source_id r) p12;
          p14 = zy100_put_u16_le 44 (spool_pos_generation (sp_commit_pos s)) p13;
          p15 = zy100_put_u16_le 46 0 p14
      in s\<lparr>sp_page := p15\<rparr>)"

text \<open>The result is the record the header describes, \<open>None\<close> when the header is refused.\<close>

definition spool_validate_header ::
  "u8 list \<Rightarrow> u32 \<Rightarrow> u16 \<Rightarrow> spool_state \<Rightarrow> spool_record option" where
  "spool_validate_header page expected_addr expected_generation s =
     (if zy100_get_u32_le page 0 \<noteq> ZY100_ONLINE_SPOOL_RECORD_MAGIC \<or>
         zy100_get_u16_le page 4 \<noteq> 1 \<or>
         zy100_get_u16_le page 6 \<noteq> 256 \<or>
         zy100_get_u32_le page 8 \<noteq> sp_session_id s \<or>
         page ! 12 = 0 \<or> ucast (page ! 12) \<ge> ZY100_ONLINE_RECORD_TYPE_COUNT \<or>
         page ! 13 AND 2 = 0 \<or>
         zy100_get_u16_le page 44 \<noteq> expected_generation then None
      else if page ! 13 AND 1 \<noteq> 0 \<and> zy100_get_u16_le page 14 \<noteq> 1 then None
      else if page ! 13 AND 1 \<noteq> 0 \<and> zy100_get_u32_le page 32 = 0 then None
      else
        let source_bytes = zy100_get_u32_le page 24;
            total_bytes = ZY100_ONLINE_SPOOL_RECORD_HEADER_BYTES + source_bytes
        in if source_bytes = 0 \<or> source_bytes mod GD25Q32E_PAGE_BYTES \<noteq> 0 \<or>
              expected_addr + total_bytes > ZY100_ONLINE_SPOOL_END then None
           else
             let rec = record_zero\<lparr>rec_type := page ! 12, rec_flags := page ! 13,
                   rec_generation := zy100_get_u16_le page 44,
                   rec_record_id := zy100_get_u32_le page 16,
                   rec_header_addr := expected_addr,
                   rec_data_addr := expected_addr + ZY100_ONLINE_SPOOL_RECORD_HEADER_BYTES,
                   rec_record_bytes := total_bytes, rec_source_record_bytes := source_bytes,
                   rec_payload_bytes := zy100_get_u32_le page 20,
                   rec_crc32 := zy100_get_u32_le page 28\<rparr>
             in if page ! 13 AND 1 \<noteq> 0
                then Some (rec\<lparr>rec_capture_segment_id := zy100_get_u32_le page 32,
                            rec_segment_start_offset_ms := zy100_get_u32_le page 36,
                            rec_source_id := zy100_get_u32_le page 40\<rparr>)
                else Some rec)"

section \<open>What a plan guarantees\<close>

lemma align_page_fix:
  assumes "spool_align_page rb = rb"
  shows "unat rb mod 256 = 0"
proof -
  have "(256 :: u32) - 1 = mask 8" by (simp add: mask_eq_exp_minus_1)
  then have e: "rb = (rb + 256 - 1) AND NOT (mask 8)"
    using assms by (simp only: spool_align_page_def)
  have "take_bit 8 (x AND NOT (mask 8)) = 0" for x :: u32
    by (rule bit_eqI) (auto simp: bit_simps)
  then have "take_bit 8 ((rb + 256 - 1) AND NOT (mask 8)) = 0" .
  then have "take_bit 8 rb = 0" by (simp only: e [symmetric])
  then have "rb mod 256 = 0" by (simp add: take_bit_eq_mod)
  then have "unat (rb mod 256) = 0" by simp
  then show ?thesis by (simp add: unat_mod)
qed

lemma plan_spec:
  assumes p: "spool_build_reserve_plan rb s = (True, Some pl, b)"
    and small: "unat rb < 0xFFFFFF00"
  shows "sp_session_active s \<and> \<not> res_active (sp_reservation s)"
    and "0 < unat rb \<and> unat rb mod 256 = 0"
    and "plan_total_bytes pl = 256 + rb \<and> unat (plan_total_bytes pl) = 256 + unat rb"
    and "unat (plan_start_pos pl) = unat (sp_reserve_pos s) + unat (plan_gap_bytes pl)"
    and "unat (plan_start_pos pl) + unat (plan_total_bytes pl) < 2 ^ 32"
    and "sp_ack_pos s \<le> sp_reserve_pos s"
    and "unat (plan_start_pos pl) + unat (plan_total_bytes pl) \<le> unat (sp_ack_pos s) + 0x100000"
    and "unat (plan_start_pos pl) mod 0x100000 + unat (plan_total_bytes pl) \<le> 0x100000"
    and "plan_header_addr pl = spool_pos_addr (plan_start_pos pl)"
    and "plan_gap_bytes pl \<noteq> 0 \<Longrightarrow> sp_wrap_gap_bytes s = 0 \<and>
          unat (plan_start_pos pl) mod 0x100000 = 0 \<and>
          unat (plan_gap_bytes pl) = 0x100000 - unat (sp_reserve_pos s) mod 0x100000 \<and>
          0x100000 < unat (sp_reserve_pos s) mod 0x100000 + unat (plan_total_bytes pl)"
    and "spool_reservation_sectors_ready (plan_header_addr pl) (plan_total_bytes pl) s"
    and "plan_generation pl = spool_pos_generation (plan_start_pos pl)"
proof -
  let ?R = "0x100000 :: u32" and ?total = "256 + spool_align_page rb"
  let ?ofs = "spool_pos_offset (sp_reserve_pos s)"
  obtain used where used: "spool_used_bytes s = Some used"
    using p by (auto simp: spool_build_reserve_plan_def Let_def split: if_splits option.splits)
  define total where "total = ?total"
  define gap where "gap = (if ?ofs + total > ?R then ?R - ?ofs else 0)"
  have pl: "pl = \<lparr>plan_start_pos = sp_reserve_pos s + gap, plan_gap_bytes = gap,
      plan_header_addr = spool_pos_addr (sp_reserve_pos s + gap), plan_total_bytes = total,
      plan_generation = spool_pos_generation (sp_reserve_pos s + gap)\<rparr>"
    unfolding gap_def total_def using p used
    by (auto simp: spool_build_reserve_plan_def Let_def split: if_splits)
  have c: "sp_session_active s \<and> \<not> res_active (sp_reservation s)" "rb \<noteq> 0" "spool_align_page rb = rb"
      "\<not> total > ?R" "\<not> (gap \<noteq> 0 \<and> sp_wrap_gap_bytes s \<noteq> 0)"
      "\<not> gap > 0xFFFFFFFF - sp_reserve_pos s" "\<not> total > 0xFFFFFFFF - sp_reserve_pos s - gap"
      "\<not> gap + total > ?R - used"
      "spool_reservation_sectors_ready (spool_pos_addr (sp_reserve_pos s + gap)) total s"
    unfolding gap_def total_def using p used
    by (auto simp: spool_build_reserve_plan_def Let_def split: if_splits)
  have ut: "unat total = 256 + unat rb"
    using total_def c(3) small by (simp add: unat_add_no_wrap)
  have tR: "unat total \<le> 0x100000" using c(4) by (simp add: word_less_nat_alt)
  have uo: "unat ?ofs = unat (sp_reserve_pos s) mod 0x100000" by (rule unat_pos_offset)
  then have oR: "unat ?ofs < 0x100000" by simp
  have usum: "unat (?ofs + total) = unat ?ofs + unat total"
    using tR oR by (subst unat_add_no_wrap) simp_all
  have ug: "unat gap = (if unat ?ofs + unat total > 0x100000 then 0x100000 - unat ?ofs else 0)"
    unfolding gap_def using usum oR
    by (simp add: word_less_nat_alt unat_diff_le word_le_nat_alt)
  have u1: "unat (0xFFFFFFFF - sp_reserve_pos s) = 4294967295 - unat (sp_reserve_pos s)"
    using unat_lt_32 [of "sp_reserve_pos s"] by (subst unat_diff_le) (simp_all add: word_le_nat_alt)
  have g1: "unat gap \<le> 4294967295 - unat (sp_reserve_pos s)"
    using c(6) u1 by (simp add: word_less_nat_alt)
  have u2: "unat (0xFFFFFFFF - sp_reserve_pos s - gap) = 4294967295 - unat (sp_reserve_pos s) - unat gap"
    using c(6) u1 by (subst unat_diff_le) (simp_all add: not_less)
  have t1: "unat total \<le> 4294967295 - unat (sp_reserve_pos s) - unat gap"
    using c(7) u2 by (simp add: word_less_nat_alt)
  have us: "unat (sp_reserve_pos s + gap) = unat (sp_reserve_pos s) + unat gap"
    using g1 unat_lt_32 [of "sp_reserve_pos s"] by (intro unat_add_32) linarith
  have ub: "sp_ack_pos s \<le> sp_reserve_pos s" "unat used = unat (sp_reserve_pos s) - unat (sp_ack_pos s)"
    "unat used \<le> 0x100000"
    using used unat_used [OF used] by (simp_all add: used_bytes_some)
  have ufree: "unat (?R - used) = 0x100000 - unat used"
    using ub(3) by (subst unat_diff_le) (simp_all add: word_le_nat_alt)
  have ugt: "unat (gap + total) = unat gap + unat total"
    using ug tR by (subst unat_add_no_wrap) auto
  have free: "unat gap + unat total \<le> 0x100000 - unat used"
    using c(8) ugt ufree by (simp add: word_less_nat_alt)
  show "sp_session_active s \<and> \<not> res_active (sp_reservation s)" by (rule c(1))
  show "0 < unat rb \<and> unat rb mod 256 = 0"
    using c(2) align_page_fix [OF c(3)] by (simp add: unat_gt_0)
  show "plan_total_bytes pl = 256 + rb \<and> unat (plan_total_bytes pl) = 256 + unat rb"
    using pl ut total_def c(3) by simp
  show "unat (plan_start_pos pl) = unat (sp_reserve_pos s) + unat (plan_gap_bytes pl)"
    using pl us by simp
  show "unat (plan_start_pos pl) + unat (plan_total_bytes pl) < 2 ^ 32"
    using pl us t1 unat_lt_32 [of "sp_reserve_pos s"] g1 by simp
  show "sp_ack_pos s \<le> sp_reserve_pos s" by (rule ub(1))
  have le: "unat (sp_ack_pos s) \<le> unat (sp_reserve_pos s)" using ub(1) by (simp add: word_le_nat_alt)
  then show "unat (plan_start_pos pl) + unat (plan_total_bytes pl) \<le> unat (sp_ack_pos s) + 0x100000"
    using pl us free ub by simp
  show start: "unat (plan_start_pos pl) mod 0x100000 + unat (plan_total_bytes pl) \<le> 0x100000"
  proof (cases "unat ?ofs + unat total > 0x100000")
    case True
    then have "unat (sp_reserve_pos s) + unat gap = unat (sp_reserve_pos s) +
        (0x100000 - unat (sp_reserve_pos s) mod 0x100000 + 0)" using ug uo by simp
    then have "(unat (sp_reserve_pos s) + unat gap) mod 0x100000 = 0"
      using wrap_mod [of "0x100000" "unat (sp_reserve_pos s)" 0] by simp
    then show ?thesis using pl us tR by simp
  next
    case False then show ?thesis using pl us ug uo by simp
  qed
  show "plan_header_addr pl = spool_pos_addr (plan_start_pos pl)"
    "plan_generation pl = spool_pos_generation (plan_start_pos pl)" using pl by simp_all
  show "spool_reservation_sectors_ready (plan_header_addr pl) (plan_total_bytes pl) s"
    using pl c(9) by simp
  assume "plan_gap_bytes pl \<noteq> 0"
  then have gap0: "gap \<noteq> 0" using pl by simp
  then have "unat gap \<noteq> 0" by (simp add: unat_eq_zero)
  then have big: "unat ?ofs + unat total > 0x100000" "unat gap = 0x100000 - unat ?ofs"
    using ug by (auto split: if_splits)
  have "(unat (sp_reserve_pos s) + unat gap) mod 0x100000 = 0"
    using big(2) uo wrap_mod [of "0x100000" "unat (sp_reserve_pos s)" 0] by simp
  then show "sp_wrap_gap_bytes s = 0 \<and> unat (plan_start_pos pl) mod 0x100000 = 0 \<and>
          unat (plan_gap_bytes pl) = 0x100000 - unat (sp_reserve_pos s) mod 0x100000 \<and>
          0x100000 < unat (sp_reserve_pos s) mod 0x100000 + unat (plan_total_bytes pl)"
    using c(5) gap0 pl us big uo by simp
qed

section \<open>The header round trip\<close>

definition header_record :: "spool_state \<Rightarrow> spool_record" where
  "header_record s =
     (let r = sp_reservation s
      in \<lparr>rec_type = res_type r, rec_flags = 3, rec_generation = spool_pos_generation (sp_commit_pos s),
          rec_record_id = res_record_id r, rec_header_addr = res_header_addr r,
          rec_data_addr = res_header_addr r + 256,
          rec_record_bytes = 256 + res_source_record_bytes r,
          rec_source_record_bytes = res_source_record_bytes r,
          rec_payload_bytes = res_payload_bytes r,
          rec_crc32 = (if res_crc_final_valid r then res_crc32_final r
                       else zy100_crc32_ieee_finish (res_crc r)),
          rec_capture_segment_id = res_capture_segment_id r,
          rec_segment_start_offset_ms = res_segment_start_offset_ms r,
          rec_source_id = res_source_id r\<rparr>)"

lemma fill_header_page:
  assumes "length (sp_page s) = 256"
  shows "length (sp_page (spool_fill_header s)) = 256"
    "zy100_get_u32_le (sp_page (spool_fill_header s)) 0 = 0x534C4E4F"
    "zy100_get_u16_le (sp_page (spool_fill_header s)) 4 = 1"
    "zy100_get_u16_le (sp_page (spool_fill_header s)) 6 = 256"
    "zy100_get_u32_le (sp_page (spool_fill_header s)) 8 = sp_session_id s"
    "sp_page (spool_fill_header s) ! 12 = res_type (sp_reservation s)"
    "sp_page (spool_fill_header s) ! 13 = 3"
    "zy100_get_u16_le (sp_page (spool_fill_header s)) 14 = 1"
    "zy100_get_u32_le (sp_page (spool_fill_header s)) 16 = res_record_id (sp_reservation s)"
    "zy100_get_u32_le (sp_page (spool_fill_header s)) 20 = res_payload_bytes (sp_reservation s)"
    "zy100_get_u32_le (sp_page (spool_fill_header s)) 24 = res_source_record_bytes (sp_reservation s)"
    "zy100_get_u32_le (sp_page (spool_fill_header s)) 28 = rec_crc32 (header_record s)"
    "zy100_get_u32_le (sp_page (spool_fill_header s)) 32 = res_capture_segment_id (sp_reservation s)"
    "zy100_get_u32_le (sp_page (spool_fill_header s)) 36 = res_segment_start_offset_ms (sp_reservation s)"
    "zy100_get_u32_le (sp_page (spool_fill_header s)) 40 = res_source_id (sp_reservation s)"
    "zy100_get_u16_le (sp_page (spool_fill_header s)) 44 = spool_pos_generation (sp_commit_pos s)"
  using assms by (simp_all add: spool_fill_header_def header_record_def Let_def)

lemma validate_filled:
  assumes "length (sp_page s) = 256"
    and "res_type (sp_reservation s) \<noteq> 0" "unat (res_type (sp_reservation s)) < 5"
    and "res_capture_segment_id (sp_reservation s) \<noteq> 0"
    and "res_source_record_bytes (sp_reservation s) \<noteq> 0"
      "unat (res_source_record_bytes (sp_reservation s)) mod 256 = 0"
    and "unat (res_header_addr (sp_reservation s)) + 256 +
         unat (res_source_record_bytes (sp_reservation s)) \<le> 0x3F8000"
    and "sp_session_id t = sp_session_id s"
  shows "spool_validate_header (sp_page (spool_fill_header s)) (res_header_addr (sp_reservation s))
           (spool_pos_generation (sp_commit_pos s)) t = Some (header_record s)"
proof -
  let ?r = "sp_reservation s"
  have e: "unat (256 + res_source_record_bytes ?r) = 256 + unat (res_source_record_bytes ?r)"
    using assms(7) by (simp add: unat_add_32)
  then have "unat (res_header_addr ?r + (256 + res_source_record_bytes ?r)) =
      unat (res_header_addr ?r) + (256 + unat (res_source_record_bytes ?r))"
    using assms(7) by (subst unat_add_32) simp_all
  then have fits: "\<not> res_header_addr ?r + (256 + res_source_record_bytes ?r) > 0x3F8000"
    using assms(7) by (simp add: word_less_nat_alt)
  have m: "res_source_record_bytes ?r mod 256 = 0"
    using assms(6) by (simp add: word_unat_eq_iff unat_mod)
  have t5: "\<not> (5 :: u32) \<le> ucast (res_type ?r)" using assms(3) by (simp add: word_le_nat_alt)
  show ?thesis
    unfolding spool_validate_header_def fill_header_page [OF assms(1)] Let_def
    using assms fits m t5 by (simp add: header_record_def Let_def record_zero_def)
qed

end
