(* ===== verification/SpoolErase.thy ===== *)
theory SpoolErase
  imports SpoolReserve
begin

text \<open>
  The erase scheduling of \<open>zy100_online_spool.c\<close>: which sector or 32 KiB block is erased next, at
  the start of a session, behind the acknowledged records and ahead of the write position.
\<close>

unbundle bit_operations_syntax

definition all_sectors :: "u32 list" where
  "all_sectors = map of_nat [0..<256]"

definition zy100_online_spool_preerase_poll :: "'d device \<Rightarrow> u32 \<Rightarrow> 'd world \<Rightarrow> bool \<times> 'd world" where
  "zy100_online_spool_preerase_poll D target_bytes w =
     (let (pending, w1) = spool_poll_erase_wip D w
      in if pending then (True, w1)
         else if target_bytes = 0 \<or> target_bytes mod GD25Q32E_SECTOR_BYTES \<noteq> 0 then (False, w1)
         else
           let sectors = target_bytes div GD25Q32E_SECTOR_BYTES;
               target_sectors = (if sectors > ZY100_ONLINE_SPOOL_SECTOR_COUNT
                                 then ZY100_ONLINE_SPOOL_SECTOR_COUNT else sectors);
               s = w_spool w1
           in case find (\<lambda>sector. \<not> spool_bitmap_get (sp_erased_bitmap s) sector \<and>
                      (\<not> sp_session_active s \<or> spool_bitmap_get (sp_reclaimable_bitmap s) sector))
                    (take (unat target_sectors) all_sectors) of
                Some sector \<Rightarrow> spool_issue_erase D sector w1
              | None \<Rightarrow> (False, w1))"

definition zy100_online_spool_erase_reclaimable_poll :: "'d device \<Rightarrow> 'd world \<Rightarrow> bool \<times> 'd world" where
  "zy100_online_spool_erase_reclaimable_poll D w =
     (let (pending, w1) = spool_poll_erase_wip D w
      in if pending then (True, w1)
         else case find (spool_bitmap_get (sp_reclaimable_bitmap (w_spool w1))) all_sectors of
                Some sector \<Rightarrow> spool_issue_erase D sector w1
              | None \<Rightarrow> (False, w1))"

definition error_or_progress :: "u32 \<Rightarrow> 'd world \<Rightarrow> spool_pump_result" where
  "error_or_progress last_error w =
     (if st_last_error (sp_stats (w_spool w)) \<noteq> last_error then PUMP_ERROR else PUMP_PROGRESS)"

fun reclaim_loop :: "'d device \<Rightarrow> u32 \<Rightarrow> u32 list \<Rightarrow> 'd world \<Rightarrow> spool_pump_result \<times> 'd world" where
  "reclaim_loop D last_error [] w = (PUMP_IDLE, w)"
| "reclaim_loop D last_error (sector # rest) w =
     (if \<not> spool_bitmap_get (sp_reclaimable_bitmap (w_spool w)) sector
      then reclaim_loop D last_error rest w
      else if spool_sector_erase_protected sector (w_spool w)
      then reclaim_loop D last_error rest
             (on_spool (on_stats (inc st_erase_tx_conflict_prevented_update)) w)
      else
        let (issued, w1) = spool_issue_erase D sector w
        in if issued then (PUMP_PROGRESS, w1) else (error_or_progress last_error w1, w1))"

definition zy100_online_spool_erase_reclaimable_step ::
  "'d device \<Rightarrow> 'd world \<Rightarrow> spool_pump_result \<times> 'd world" where
  "zy100_online_spool_erase_reclaimable_step D w =
     (let last_error = st_last_error (sp_stats (w_spool w));
          (pending, w1) = spool_poll_erase_wip D w
      in if pending then (error_or_progress last_error w1, w1)
         else reclaim_loop D last_error all_sectors w1)"

definition block32_firsts :: "u32 list" where
  "block32_firsts = map (\<lambda>k. of_nat (8 * k)) [0..<32]"

definition zy100_online_spool_erase_reclaimable_block32_step ::
  "'d device \<Rightarrow> 'd world \<Rightarrow> spool_pump_result \<times> 'd world" where
  "zy100_online_spool_erase_reclaimable_block32_step D w =
     (let last_error = st_last_error (sp_stats (w_spool w));
          (pending, w1) = spool_poll_erase_wip D w
      in if pending then (error_or_progress last_error w1, w1)
         else case find (\<lambda>first_sector. spool_block32_reclaimable first_sector (w_spool w1) \<and>
                  \<not> spool_block32_erased first_sector (w_spool w1)) block32_firsts of
                None \<Rightarrow> (PUMP_IDLE, w1)
              | Some first_sector \<Rightarrow>
                  let (issued, w2) = spool_issue_erase_block32 D first_sector w1
                  in if issued then (PUMP_PROGRESS, w2) else (error_or_progress last_error w2, w2))"

text \<open>The block to erase ahead of the write position; the early exits of the source before it.\<close>

definition forward_block ::
  "u32 \<Rightarrow> bool \<Rightarrow> spool_plan \<Rightarrow> u32 \<Rightarrow> spool_state \<Rightarrow> spool_erase_result option \<times> u32 \<times> spool_state" where
  "forward_block target_bytes next_record_ready plan used s =
     (let free_bytes = ZY100_ONLINE_SPOOL_REGION_BYTES - used - plan_gap_bytes plan;
          erased_bytes = spool_erased_from_pos (plan_start_pos plan) free_bytes s
      in if erased_bytes \<ge> free_bytes \<or> (next_record_ready \<and> erased_bytes \<ge> target_bytes)
         then (Some ERASE_IDLE, 0, s\<lparr>sp_last_reserve_block := BLOCK_NONE\<rparr>)
         else
           let target_addr = spool_pos_addr (plan_start_pos plan + erased_bytes);
               sector = spool_sector_index target_addr
           in if sector = ZY100_ONLINE_SPOOL_INVALID_INDEX
              then (Some ERASE_ERROR, 0,
                    spool_latch_error 34 target_addr (on_stats (inc st_state_errors_update) s))
              else
                let first_sector = sector - sector mod ZY100_ONLINE_SPOOL_BLOCK32_SECTORS
                in if spool_block32_erased first_sector s then (Some ERASE_IDLE, first_sector, s)
                   else if \<not> spool_block32_reclaimable first_sector s
                   then (Some ERASE_BLOCKED, first_sector,
                         on_stats (inc st_erase_blocked_update)
                           (s\<lparr>sp_last_reserve_block := BLOCK_ERASE_PENDING\<rparr>))
                   else (None, first_sector, s))"

definition spool_erase_forward_block32_step ::
  "'d device \<Rightarrow> u32 \<Rightarrow> bool \<Rightarrow> 'd world \<Rightarrow> spool_erase_result \<times> 'd world" where
  "spool_erase_forward_block32_step D target_bytes return_after_poll w =
     (let last_error = st_last_error (sp_stats (w_spool w))
      in if return_after_poll \<and> sp_erase_wip (w_spool w)
         then
           let (_, w1) = spool_poll_erase_wip D w
           in (if st_last_error (sp_stats (w_spool w1)) \<noteq> last_error then ERASE_ERROR
               else if sp_erase_wip (w_spool w1) then ERASE_PROGRESS else ERASE_IDLE, w1)
         else
           let (pending, w1) = spool_poll_erase_wip D w; s = w_spool w1
           in if pending
              then (if st_last_error (sp_stats s) \<noteq> last_error then ERASE_ERROR else ERASE_PROGRESS, w1)
              else if \<not> sp_session_active s \<or> res_active (sp_reservation s) then (ERASE_BLOCKED, w1)
              else
                let (ready, plan_opt, block) =
                      spool_build_reserve_plan ZY100_FE_RAW_IMU_MAG_SOURCE_RECORD_BYTES_MAX s
                in if \<not> ready \<and> block = BLOCK_UNACKED
                   then (ERASE_BLOCKED, on_spool (\<lambda>s. on_stats (inc st_capacity_blocked_update)
                           (s\<lparr>sp_last_reserve_block := block\<rparr>)) w1)
                   else if \<not> ready \<and> block \<noteq> BLOCK_ERASE_PENDING
                   then (ERASE_ERROR, on_spool (\<lambda>s. spool_latch_error 32 (sp_reserve_pos s)
                           (on_stats (inc st_state_errors_update) s)) w1)
                   else case (plan_opt, spool_used_bytes s) of
                     (Some plan, Some used) \<Rightarrow>
                       if used + plan_gap_bytes plan > ZY100_ONLINE_SPOOL_REGION_BYTES
                       then (ERASE_ERROR, on_spool (\<lambda>s. spool_latch_error 33 (sp_reserve_pos s)
                               (on_stats (inc st_state_errors_update) s)) w1)
                       else
                         let (early, first_sector, s1) = forward_block target_bytes ready plan used s;
                             w2 = on_spool (\<lambda>_. s1) w1
                         in (case early of
                              Some r \<Rightarrow> (r, w2)
                            | None \<Rightarrow>
                                let (issued, w3) = spool_issue_erase_block32 D first_sector w2
                                in if issued
                                   then (ERASE_PROGRESS, on_spool
                                     (\<lambda>s. s\<lparr>sp_last_reserve_block := BLOCK_ERASE_PENDING\<rparr>) w3)
                                   else if st_last_error (sp_stats (w_spool w3)) \<noteq> last_error
                                   then (ERASE_ERROR, w3)
                                   else (ERASE_BLOCKED, w3))
                   | _ \<Rightarrow> (ERASE_ERROR, on_spool (\<lambda>s. spool_latch_error 33 (sp_reserve_pos s)
                               (on_stats (inc st_state_errors_update) s)) w1))"

definition zy100_online_spool_erase_forward_block32_step ::
  "'d device \<Rightarrow> 'd world \<Rightarrow> spool_erase_result \<times> 'd world" where
  "zy100_online_spool_erase_forward_block32_step D w =
     spool_erase_forward_block32_step D ZY100_ONLINE_SPOOL_PREERASE_MIN_BYTES False w"

definition zy100_online_spool_erase_forward_to ::
  "'d device \<Rightarrow> u32 \<Rightarrow> 'd world \<Rightarrow> spool_erase_result \<times> 'd world" where
  "zy100_online_spool_erase_forward_to D target_bytes w =
     (if target_bytes = 0 \<or> target_bytes > ZY100_ONLINE_SPOOL_REGION_BYTES \<or>
         target_bytes mod GD25Q32E_SECTOR_BYTES \<noteq> 0 then (ERASE_ERROR, w)
      else spool_erase_forward_block32_step D target_bytes True w)"

definition zy100_online_spool_flash_idle_poll :: "'d device \<Rightarrow> 'd world \<Rightarrow> bool \<times> 'd world" where
  "zy100_online_spool_flash_idle_poll D w =
     (let w1 = (if sp_erase_wip (w_spool w) then snd (spool_poll_erase_wip D w) else w)
      in (\<not> sp_erase_wip (w_spool w1), w1))"

section \<open>Erase scheduling leaves the queue alone\<close>

text \<open>Same queue of records, same stress writer, same retry hint.\<close>

definition same_queue :: "'d world \<Rightarrow> 'd world \<Rightarrow> bool" where
  "same_queue w w' \<longleftrightarrow> queue_core (w_spool w') = queue_core (w_spool w) \<and> w_stress w' = w_stress w \<and>
     sp_page_retry_pending (w_spool w') = sp_page_retry_pending (w_spool w)"

lemma same_queue_refl [simp]: "same_queue w w"
  by (simp add: same_queue_def)

lemma same_queue_trans: "same_queue a b \<Longrightarrow> same_queue b c \<Longrightarrow> same_queue a c"
  by (simp add: same_queue_def)

lemma same_queue_on_spool:
  "same_queue w w' \<Longrightarrow> queue_core (f (w_spool w')) = queue_core (w_spool w') \<Longrightarrow>
   sp_page_retry_pending (f (w_spool w')) = sp_page_retry_pending (w_spool w') \<Longrightarrow>
   same_queue w (on_spool f w')"
  by (simp add: same_queue_def)

lemma poll_same: "spool_poll_erase_wip D w = (r, w') \<Longrightarrow> same_queue w w'"
  unfolding same_queue_def by (rule poll_erase_frame)

lemma issue_same: "spool_issue_erase D k w = (r, w') \<Longrightarrow> same_queue w w'"
  unfolding same_queue_def by (rule issue_erase_frame)

lemma issue32_same: "spool_issue_erase_block32 D k w = (r, w') \<Longrightarrow> same_queue w w'"
  unfolding same_queue_def by (rule issue_block32_frame)

lemma preerase_same:
  "zy100_online_spool_preerase_poll D n w = (r, w') \<Longrightarrow> same_queue w w'"
  by (auto simp: zy100_online_spool_preerase_poll_def Let_def
      intro: same_queue_trans dest!: poll_same issue_same split: prod.splits if_splits option.splits)

lemma reclaimable_poll_same:
  "zy100_online_spool_erase_reclaimable_poll D w = (r, w') \<Longrightarrow> same_queue w w'"
  by (auto simp: zy100_online_spool_erase_reclaimable_poll_def Let_def
      intro: same_queue_trans dest!: poll_same issue_same split: prod.splits if_splits option.splits)

lemma reclaim_loop_same: "reclaim_loop D e ks w = (r, w') \<Longrightarrow> same_queue w w'"
proof (induction ks arbitrary: w)
  case Nil then show ?case by simp
next
  case (Cons k ks)
  let ?w = "on_spool (on_stats (inc st_erase_tx_conflict_prevented_update)) w"
  have c: "same_queue w ?w" by (simp add: same_queue_def)
  consider "reclaim_loop D e ks w = (r, w')" | "reclaim_loop D e ks ?w = (r, w')"
    | i where "spool_issue_erase D k w = (i, w')"
    using Cons.prems by (auto simp: Let_def split: prod.splits if_splits)
  then show ?case
    using Cons.IH c by cases (auto intro: same_queue_trans dest: issue_same)
qed

lemma reclaimable_step_same:
  "zy100_online_spool_erase_reclaimable_step D w = (r, w') \<Longrightarrow> same_queue w w'"
  by (auto simp: zy100_online_spool_erase_reclaimable_step_def Let_def
      intro: same_queue_trans dest!: poll_same reclaim_loop_same split: prod.splits if_splits)

lemma block32_step_same:
  "zy100_online_spool_erase_reclaimable_block32_step D w = (r, w') \<Longrightarrow> same_queue w w'"
  by (auto simp: zy100_online_spool_erase_reclaimable_block32_step_def Let_def
      intro: same_queue_trans dest!: poll_same issue32_same split: prod.splits if_splits option.splits)

lemma forward_block_same:
  assumes "forward_block target ready plan used s = (early, k, s1)"
  shows "queue_core s1 = queue_core s \<and> sp_page_retry_pending s1 = sp_page_retry_pending s"
  using assms by (auto simp: forward_block_def Let_def split: if_splits)

lemma same_queue_put:
  assumes "same_queue w w1" "queue_core s1 = queue_core (w_spool w1)"
    "sp_page_retry_pending s1 = sp_page_retry_pending (w_spool w1)"
  shows "same_queue w (on_spool (\<lambda>_. s1) w1)"
  using assms by (simp add: same_queue_def)

lemma forward_step_same:
  assumes "spool_erase_forward_block32_step D target ret w = (r, w')"
  shows "same_queue w w'"
proof -
  obtain p w1 where poll: "spool_poll_erase_wip D w = (p, w1)" by fastforce
  have s1: "same_queue w w1" using poll by (rule poll_same)
  let ?s = "w_spool w1"
  obtain ready plan block where plan: "spool_build_reserve_plan 17920 ?s = (ready, plan, block)"
    using prod_cases3 by blast
  have tail: "same_queue w w'"
    if p: "plan = Some pl" and f: "forward_block target ready pl used ?s = (early, k, sf)"
      and out: "(r, w') = (case early of Some x \<Rightarrow> (x, on_spool (\<lambda>_. sf) w1)
        | None \<Rightarrow> let (issued, w3) = spool_issue_erase_block32 D k (on_spool (\<lambda>_. sf) w1)
            in if issued then (ERASE_PROGRESS, on_spool (\<lambda>s. s\<lparr>sp_last_reserve_block := BLOCK_ERASE_PENDING\<rparr>) w3)
               else if st_last_error (sp_stats (w_spool w3)) \<noteq> st_last_error (sp_stats (w_spool w))
               then (ERASE_ERROR, w3) else (ERASE_BLOCKED, w3))" for pl used early k sf
  proof -
    have s2: "same_queue w (on_spool (\<lambda>_. sf) w1)"
      using same_queue_put [OF s1] forward_block_same [OF f] by blast
    obtain i w3 where i: "spool_issue_erase_block32 D k (on_spool (\<lambda>_. sf) w1) = (i, w3)" by fastforce
    have s3: "same_queue w w3" using s2 issue32_same [OF i] by (rule same_queue_trans)
    then have "same_queue w (on_spool (\<lambda>s. s\<lparr>sp_last_reserve_block := BLOCK_ERASE_PENDING\<rparr>) w3)"
      by (simp add: same_queue_def)
    then show ?thesis using out s2 s3 i by (auto split: option.splits if_splits)
  qed
  show ?thesis
    using assms s1 tail
    by (auto simp: spool_erase_forward_block32_step_def Let_def poll plan same_queue_def
        split: prod.splits if_splits option.splits)
qed

lemma flash_idle_same:
  "zy100_online_spool_flash_idle_poll D w = (r, w') \<Longrightarrow> same_queue w w'"
  by (cases "spool_poll_erase_wip D w")
    (auto simp: zy100_online_spool_flash_idle_poll_def Let_def dest: poll_same split: if_splits)

section \<open>Erase safety\<close>

lemma protected_never_erased:
  assumes "spool_sector_erase_protected k (w_spool w)"
  shows "spool_issue_erase D k w =
    (False, if k < 256 \<and> \<not> sp_erase_wip (w_spool w)
            then on_spool (on_stats (inc st_erase_tx_conflict_prevented_update)) w else w)"
  using assms by (auto simp: spool_issue_erase_def)

lemma unprotected_sector:
  assumes "\<not> spool_sector_erase_protected k s" "sp_session_active s"
  shows "unat k < 256" "spool_bitmap_get (sp_reclaimable_bitmap s) k"
    "spool_used_bytes s \<noteq> None \<Longrightarrow> \<not> sector_live k s"
    "res_active (sp_reservation s) \<Longrightarrow> \<not> spool_ranges_overlap (spool_sector_addr k) 4096
       (res_header_addr (sp_reservation s)) (res_total_bytes (sp_reservation s))"
    "sp_tx_cached s \<Longrightarrow> \<not> spool_ranges_overlap (spool_sector_addr k) 4096
       (rec_header_addr (sp_tx_record s)) (rec_record_bytes (sp_tx_record s))"
    "\<And>i. i < unat (sp_sent_count s) \<Longrightarrow> \<not> spool_ranges_overlap (spool_sector_addr k) 4096
       (rec_header_addr (sent_record s i)) (rec_record_bytes (sent_record s i))"
proof -
  show k: "unat k < 256" using assms(1)
    by (auto simp: spool_sector_erase_protected_def word_le_nat_alt split: if_splits)
  show "spool_bitmap_get (sp_reclaimable_bitmap s) k"
    "res_active (sp_reservation s) \<Longrightarrow> \<not> spool_ranges_overlap (spool_sector_addr k) 4096
       (res_header_addr (sp_reservation s)) (res_total_bytes (sp_reservation s))"
    "sp_tx_cached s \<Longrightarrow> \<not> spool_ranges_overlap (spool_sector_addr k) 4096
       (rec_header_addr (sp_tx_record s)) (rec_record_bytes (sp_tx_record s))"
    "\<And>i. i < unat (sp_sent_count s) \<Longrightarrow> \<not> spool_ranges_overlap (spool_sector_addr k) 4096
       (rec_header_addr (sent_record s i)) (rec_record_bytes (sent_record s i))"
    using assms by (auto simp: spool_sector_erase_protected_def Let_def list_ex_iff split: if_splits)
  assume "spool_used_bytes s \<noteq> None"
  moreover have "\<not> spool_sector_contains_live_bytes k s"
    using assms by (auto simp: spool_sector_erase_protected_def split: if_splits)
  ultimately show "\<not> sector_live k s" using contains_live_iff [OF k] by blast
qed

lemma issued_erase_unprotected:
  assumes "spool_issue_erase D k w = (True, w')"
  shows "\<not> spool_sector_erase_protected k (w_spool w)" "\<not> sp_erase_wip (w_spool w)" "unat k < 256"
  using assms by (auto simp: spool_issue_erase_def word_le_nat_alt split: if_splits)

lemma block32_reclaimableD:
  assumes "spool_block32_reclaimable k s" "j < 8"
  shows "unat k + j < 256"
    "spool_bitmap_get (sp_erased_bitmap s) (k + of_nat j) \<or>
     \<not> spool_sector_erase_protected (k + of_nat j) s"
proof -
  have "\<not> 256 \<le> k" "\<not> k + 8 > 256"
    using assms by (auto simp: spool_block32_reclaimable_def split: if_splits)
  then have k: "unat k < 256" "\<not> k + 8 > 256" by (simp_all add: word_le_nat_alt)
  then have "unat (k + 8) = unat k + 8" by (intro unat_add_32 [of k 8, simplified]) simp
  then show "unat k + j < 256" using k assms(2) by (simp add: word_less_nat_alt)
  show "spool_bitmap_get (sp_erased_bitmap s) (k + of_nat j) \<or>
     \<not> spool_sector_erase_protected (k + of_nat j) s"
    using assms by (auto simp: spool_block32_reclaimable_def list_all_iff Let_def split: if_splits)
qed

lemma issued_block32_reclaimable:
  assumes "spool_issue_erase_block32 D k w = (True, w')"
  shows "spool_block32_reclaimable k (w_spool w)" "\<not> sp_erase_wip (w_spool w)"
  using assms by (auto simp: spool_issue_erase_block32_def split: if_splits)

end
