(* ===== verification/SpoolTx.thy ===== *)
theory SpoolTx
  imports SpoolErase
begin

text \<open>
  Writing, committing, sending and acknowledging records: the page operations of a reservation,
  the commit pump, the transmit window and the queries of \<open>zy100_online_spool.c\<close>, and the
  self-check \<open>zy100_online_spool_invariant_code\<close>.
\<close>

unbundle bit_operations_syntax

section \<open>Pages of a reservation\<close>

definition spool_error :: "((u32 \<Rightarrow> u32) \<Rightarrow> spool_stats \<Rightarrow> spool_stats) \<Rightarrow> u32 \<Rightarrow> u32 \<Rightarrow>
    'd world \<Rightarrow> 'd world" where
  "spool_error counter code detail = on_spool (spool_latch_error code detail \<circ> on_stats (inc counter))"

definition zy100_online_spool_write_reserved_page ::
  "'d device \<Rightarrow> u32 \<Rightarrow> u32 \<Rightarrow> u8 list option \<Rightarrow> 'd world \<Rightarrow> spool_io_result \<times> 'd world" where
  "zy100_online_spool_write_reserved_page D token addr page w =
     (case page of
        None \<Rightarrow> (IO_ERROR, spool_error st_state_errors_update 19 addr w)
      | Some bytes \<Rightarrow>
        if res_data_done (sp_reservation (w_spool w)) \<or> addr mod GD25Q32E_PAGE_BYTES \<noteq> 0 \<or>
           \<not> spool_reservation_range_valid token addr GD25Q32E_PAGE_BYTES (w_spool w)
        then (IO_ERROR, spool_error st_state_errors_update 19 addr w)
        else if sp_erase_wip (w_spool w) then (IO_BUSY, w)
        else
          let (status, busy, w1) = spool_io_busy D w
          in if status = IMU_STATUS_BUS_ERROR \<or> busy then (IO_BUSY, w1)
             else if status \<noteq> IMU_STATUS_OK
             then (IO_ERROR, spool_error st_write_errors_update 20 (imu_status_code status) w1)
             else
               let (status2, w2) = spool_io_program D addr bytes w1
               in if status2 = IMU_STATUS_BUS_ERROR then (IO_BUSY, w2)
                  else if status2 \<noteq> IMU_STATUS_OK
                  then (IO_ERROR, spool_error st_write_errors_update 21 (imu_status_code status2) w2)
                  else (IO_OK, on_spool (inc sp_progress_seq_update) w2))"

definition zy100_online_spool_read_reserved ::
  "'d device \<Rightarrow> u32 \<Rightarrow> u32 \<Rightarrow> u8 list option \<Rightarrow> 'd world \<Rightarrow> spool_io_result \<times> u8 list option \<times> 'd world" where
  "zy100_online_spool_read_reserved D token addr buf w =
     (case buf of
        None \<Rightarrow> (IO_ERROR, buf, spool_error st_state_errors_update 22 addr w)
      | Some old \<Rightarrow>
        if \<not> spool_reservation_range_valid token addr (of_nat (length old)) (w_spool w)
        then (IO_ERROR, buf, spool_error st_state_errors_update 22 addr w)
        else if sp_erase_wip (w_spool w) then (IO_BUSY, buf, w)
        else
          let (status, busy, w1) = spool_io_busy D w
          in if status = IMU_STATUS_BUS_ERROR \<or> busy then (IO_BUSY, buf, w1)
             else if status \<noteq> IMU_STATUS_OK
             then (IO_ERROR, buf, spool_error st_read_errors_update 23 (imu_status_code status) w1)
             else
               let (status2, bytes, w2) = spool_io_read D 1 addr old w1
               in if status2 = IMU_STATUS_BUS_ERROR then (IO_BUSY, Some bytes, w2)
                  else if status2 \<noteq> IMU_STATUS_OK
                  then (IO_ERROR, Some bytes, spool_error st_read_errors_update 24 (imu_status_code status2) w2)
                  else (IO_OK, Some bytes, w2))"

section \<open>The commit pump\<close>

definition on_res :: "(spool_reservation \<Rightarrow> spool_reservation) \<Rightarrow> spool_state \<Rightarrow> spool_state" where
  "on_res f s = s\<lparr>sp_reservation := f (sp_reservation s)\<rparr>"

text \<open>The page buffer of the spool is read in place: its first \<open>n\<close> bytes are replaced.\<close>

definition spool_read_page ::
  "'d device \<Rightarrow> u32 \<Rightarrow> u32 \<Rightarrow> nat \<Rightarrow> 'd world \<Rightarrow> imu_status \<times> 'd world" where
  "spool_read_page D kind addr n w =
     (let (status, bytes, w1) = spool_io_read D kind addr (take n (sp_page (w_spool w))) w
      in (status, on_spool (sp_page_update (put_at 0 bytes)) w1))"

definition commit_crc_step :: "'d device \<Rightarrow> 'd world \<Rightarrow> spool_pump_result \<times> 'd world" where
  "commit_crc_step D w =
     (let r = sp_reservation (w_spool w);
          remaining = res_source_record_bytes r - res_crc_offset r;
          read_len = (if remaining > GD25Q32E_PAGE_BYTES then GD25Q32E_PAGE_BYTES
                      else ucast (ucast remaining :: u16));
          (crc_start_us, w1) = local_timestamp_us D w;
          (status, w2) = spool_read_page D 1 (res_data_addr r + res_crc_offset r) (unat read_len) w1
      in if status = IMU_STATUS_BUS_ERROR then (PUMP_PROGRESS, on_spool note_tx_spi_busy w2)
         else if status \<noteq> IMU_STATUS_OK
         then (PUMP_ERROR, spool_error st_read_errors_update 7 (res_crc_offset r) w2)
         else
           let w3 = on_spool (\<lambda>s. on_res (\<lambda>r. r\<lparr>res_crc :=
                      zy100_crc32_ieee_update (res_crc r) (take (unat read_len) (sp_page s))\<rparr>) s) w2;
               (crc_end_us, w4) = local_timestamp_us D w3;
               elapsed = crc_end_us - crc_start_us
           in (PUMP_PROGRESS, on_spool (\<lambda>s.
                 let s1 = on_stats (\<lambda>st. st\<lparr>st_crc_total_us := st_crc_total_us st + elapsed,
                            st_crc_max_us := (if elapsed > st_crc_max_us st then elapsed
                                              else st_crc_max_us st),
                            st_crc_pages := st_crc_pages st + 1\<rparr>) s;
                     s2 = on_res (\<lambda>r. r\<lparr>res_crc_offset := res_crc_offset r + read_len\<rparr>)
                            (inc sp_progress_seq_update s1)
                 in if res_crc_offset (sp_reservation s2) \<ge> res_source_record_bytes (sp_reservation s2)
                    then on_res (\<lambda>r. r\<lparr>res_commit_state := COMMIT_HEADER_READY\<rparr>) s2 else s2) w4))"

definition commit_header_step :: "'d device \<Rightarrow> 'd world \<Rightarrow> spool_pump_result \<times> 'd world" where
  "commit_header_step D w =
     (let (skipped, pos, s0) = spool_skip_gap (sp_commit_pos (w_spool w)) False (w_spool w);
          s = s0\<lparr>sp_commit_pos := pos\<rparr>;
          w1 = on_spool (\<lambda>_. s) w
      in if \<not> skipped \<or> spool_pos_addr (sp_commit_pos s) \<noteq> res_header_addr (sp_reservation s) \<or>
            \<not> spool_pos_generation_valid (sp_commit_pos s)
         then (PUMP_ERROR, spool_error st_state_errors_update 28 (sp_commit_pos s) w1)
         else
           let w2 = on_spool spool_fill_header w1;
               (status, w3) = spool_io_program D (res_header_addr (sp_reservation s))
                                (sp_page (w_spool w2)) w2
           in if status = IMU_STATUS_BUS_ERROR then (PUMP_PROGRESS, on_spool note_tx_spi_busy w3)
              else if status \<noteq> IMU_STATUS_OK
              then (PUMP_ERROR,
                    spool_error st_write_errors_update 8 (res_header_addr (sp_reservation s)) w3)
              else (PUMP_PROGRESS, on_spool (\<lambda>s. inc sp_progress_seq_update
                     (on_stats (inc st_header_programs_update)
                       (on_res (\<lambda>r. r\<lparr>res_commit_state := COMMIT_HEADER_WIP\<rparr>) s))) w3))"

definition commit_done :: "spool_state \<Rightarrow> spool_state" where
  "commit_done s =
     (let r = sp_reservation s;
          s1 = on_stats (\<lambda>st.
            let pending = st_pending_bytes st + res_total_bytes r
            in st\<lparr>st_pending_bytes := pending, st_pending_records := st_pending_records st + 1,
                  st_pending_high_water := (if pending > st_pending_high_water st then pending
                                            else st_pending_high_water st),
                  st_committed := (st_committed st)[unat (res_type r) :=
                                     st_committed st ! unat (res_type r) + 1]\<rparr>) s
      in spool_refresh_stats (s1\<lparr>sp_progress_seq := sp_progress_seq s1 + 1,
                                 sp_reservation := reservation_zero\<rparr>))"

definition commit_verify_step :: "'d device \<Rightarrow> 'd world \<Rightarrow> spool_pump_result \<times> 'd world" where
  "commit_verify_step D w =
     (let r = sp_reservation (w_spool w);
          (status, w1) = spool_read_page D 1 (res_header_addr r) 256 w
      in if status = IMU_STATUS_BUS_ERROR then (PUMP_PROGRESS, on_spool note_tx_spi_busy w1)
         else
           let s = w_spool w1;
               verify = spool_validate_header (sp_page s) (res_header_addr r)
                          (spool_pos_generation (sp_commit_pos s)) s
           in if status \<noteq> IMU_STATUS_OK \<or> verify = None \<or>
                 rec_record_id (the verify) \<noteq> res_record_id r
              then
                let w2 = (if status = IMU_STATUS_OK \<and>
                             zy100_get_u16_le (sp_page s) 44 \<noteq> spool_pos_generation (sp_commit_pos s)
                          then on_spool (on_stats (inc st_generation_mismatch_update)) w1 else w1)
                in (PUMP_ERROR, spool_error st_read_errors_update 9 (res_header_addr r) w2)
              else
                let commit_pos = sp_commit_pos s + res_total_bytes r;
                    w2 = on_spool (sp_commit_pos_update (\<lambda>_. commit_pos)) w1
                in if commit_pos > sp_reserve_pos s
                   then (PUMP_ERROR, spool_error st_state_errors_update 29 commit_pos w2)
                   else (PUMP_COMMITTED, on_spool commit_done w2))"

definition zy100_online_spool_commit_pump_once ::
  "'d device \<Rightarrow> bool \<Rightarrow> 'd world \<Rightarrow> spool_pump_result \<times> 'd world" where
  "zy100_online_spool_commit_pump_once D allow_flash_read w =
     (if \<not> res_active (sp_reservation (w_spool w)) \<or> \<not> res_data_done (sp_reservation (w_spool w))
      then (PUMP_IDLE, w)
      else
        let (owner_none, w1) = bus_owner_none D w
        in if \<not> owner_none then (PUMP_PROGRESS, on_spool note_tx_spi_busy (note_bus_poll D w1))
           else
             let (status, busy, w2) = spool_io_busy D w1
             in if status = IMU_STATUS_BUS_ERROR then (PUMP_PROGRESS, on_spool note_tx_spi_busy w2)
                else if status \<noteq> IMU_STATUS_OK
                then (PUMP_ERROR, spool_error st_read_errors_update 1 (imu_status_code status) w2)
                else if busy then (PUMP_PROGRESS, w2)
                else
                  let cs = res_commit_state (sp_reservation (w_spool w2))
                  in if cs = COMMIT_CRC
                     then (if \<not> allow_flash_read then (PUMP_IDLE, w2) else commit_crc_step D w2)
                     else if cs = COMMIT_HEADER_READY then commit_header_step D w2
                     else if cs = COMMIT_HEADER_WIP \<or> cs = COMMIT_HEADER_VERIFY
                     then
                       let w3 = (if cs = COMMIT_HEADER_WIP
                                 then on_spool (on_res (\<lambda>r. r\<lparr>res_commit_state := COMMIT_HEADER_VERIFY\<rparr>)) w2
                                 else w2)
                       in if \<not> allow_flash_read then (PUMP_IDLE, w3) else commit_verify_step D w3
                     else (PUMP_ERROR, spool_error st_state_errors_update 10 (commit_state_code cs) w2))"

section \<open>The transmit window\<close>

definition zy100_online_spool_peek_tx ::
  "'d device \<Rightarrow> 'd world \<Rightarrow> spool_io_result \<times> spool_record option \<times> 'd world" where
  "zy100_online_spool_peek_tx D w =
     (if sp_tx_cached (w_spool w) then (IO_OK, Some (sp_tx_record (w_spool w)), w)
      else
        let (ok, pos, s0) = spool_skip_gap_bounded (sp_send_pos (w_spool w))
                              (sp_commit_pos (w_spool w)) False (w_spool w);
            s = s0\<lparr>sp_send_pos := pos\<rparr>;
            w1 = on_spool (\<lambda>_. s) w
        in if \<not> ok then (IO_ERROR, None, spool_error st_state_errors_update 30 pos w1)
           else if ucast (sp_sent_count s) \<ge> ZY100_ONLINE_RECORD_IN_FLIGHT_MAX \<or>
                   sp_send_pos s \<ge> sp_commit_pos s then (IO_EMPTY, None, w1)
           else
             let (ready, w2) = spool_tx_read_ready D w1
             in if ready \<noteq> IO_OK then (ready, None, w2)
                else
                  let (status, w3) = spool_read_page D 2 (spool_pos_addr pos) 256 w2
                  in if status = IMU_STATUS_BUS_ERROR
                     then (IO_BUSY, None, on_spool note_tx_spi_busy w3)
                     else
                       let s3 = w_spool w3;
                           found = (if status \<noteq> IMU_STATUS_OK then None
                                    else spool_validate_header (sp_page s3) (spool_pos_addr pos)
                                           (spool_pos_generation pos) s3)
                       in (case found of
                            Some rec \<Rightarrow> (IO_OK, Some rec,
                              on_spool (\<lambda>s. s\<lparr>sp_tx_record := rec, sp_tx_cached := True\<rparr>) w3)
                          | None \<Rightarrow>
                              let w4 = (if status = IMU_STATUS_OK \<and>
                                           zy100_get_u16_le (sp_page s3) 44 \<noteq> spool_pos_generation pos
                                        then on_spool (on_stats (inc st_generation_mismatch_update)) w3
                                        else w3)
                              in (IO_ERROR, None,
                                  spool_error st_read_errors_update 11 (spool_pos_addr pos) w4)))"

definition zy100_online_spool_mark_tx_sent :: "u8 \<Rightarrow> u32 \<Rightarrow> spool_state \<Rightarrow> bool \<times> spool_state" where
  "zy100_online_spool_mark_tx_sent type record_id s =
     (let tx = sp_tx_record s
      in if \<not> sp_tx_cached s \<or> rec_type tx \<noteq> type \<or> rec_record_id tx \<noteq> record_id \<or>
            ucast (sp_sent_count s) \<ge> ZY100_ONLINE_RECORD_IN_FLIGHT_MAX \<or>
            rec_header_addr tx \<noteq> spool_pos_addr (sp_send_pos s) \<or>
            rec_generation tx \<noteq> spool_pos_generation (sp_send_pos s)
         then (False, spool_latch_error 15 record_id (on_stats (inc st_state_errors_update) s))
         else
           let send_end_pos = sp_send_pos s + rec_record_bytes tx
           in if send_end_pos < sp_send_pos s \<or> send_end_pos > sp_commit_pos s
              then (False, spool_latch_error 16 send_end_pos (on_stats (inc st_state_errors_update) s))
              else
                let tail = (unat (sp_sent_head s) + unat (sp_sent_count s)) mod 4
                in (True, s\<lparr>sp_sent_records := (sp_sent_records s)[tail := tx],
                            sp_sent_count := sp_sent_count s + 1,
                            sp_send_pos := send_end_pos,
                            sp_tx_cached := False, sp_tx_record := record_zero\<rparr>))"

text \<open>\<open>buf\<close> is \<open>None\<close> for NULL; its length is the \<open>uint16_t len\<close> of the call.\<close>

definition zy100_online_spool_read ::
  "'d device \<Rightarrow> u32 \<Rightarrow> u8 list option \<Rightarrow> u16 \<Rightarrow> 'd world \<Rightarrow> spool_io_result \<times> u8 list option \<times> 'd world" where
  "zy100_online_spool_read D addr buf len w =
     (case buf of None \<Rightarrow> (IO_ERROR, buf, w)
      | Some old \<Rightarrow>
        if len = 0 \<or> addr < ZY100_ONLINE_SPOOL_REGION_BASE_ADDR \<or>
           addr + ucast len > ZY100_ONLINE_SPOOL_END then (IO_ERROR, buf, w)
        else
          let (ready, w1) = spool_tx_read_ready D w
          in if ready \<noteq> IO_OK then (ready, buf, w1)
             else
               let (status, bytes, w2) = spool_io_read D 2 addr (take (unat len) old) w1;
                   buf2 = Some (put_at 0 bytes old)
               in if status = IMU_STATUS_BUS_ERROR then (IO_BUSY, buf2, on_spool note_tx_spi_busy w2)
                  else if status \<noteq> IMU_STATUS_OK
                  then (IO_ERROR, buf2, spool_error st_read_errors_update 12 addr w2)
                  else (IO_OK, buf2, w2))"

section \<open>Acknowledgement\<close>

text \<open>The \<open>break\<close> before the counter would wrap is the last test of the loop body.\<close>

function reclaim_boundaries :: "u32 \<Rightarrow> u32 \<Rightarrow> spool_state \<Rightarrow> spool_state" where
  "reclaim_boundaries boundary new_pos s =
     (if boundary \<noteq> 0 \<and> boundary \<le> new_pos
      then
        let sector = spool_pos_offset (boundary - 1) div GD25Q32E_SECTOR_BYTES;
            s1 = (if spool_bitmap_get (sp_dirty_bitmap s) sector
                  then s\<lparr>sp_reclaimable_bitmap := spool_bitmap_set sector (sp_reclaimable_bitmap s)\<rparr>
                  else s)
        in if boundary > 0xFFFFFFFF - GD25Q32E_SECTOR_BYTES then s1
           else reclaim_boundaries (boundary + GD25Q32E_SECTOR_BYTES) new_pos s1
      else s)"
  by pat_completeness auto
termination
proof (relation "measure (\<lambda>(b, n, s). 4294967296 - unat b)", goal_cases)
  case 1 show ?case by simp
next
  case (2 b n s sector s1)
  then have le: "unat b \<le> 4294963199" by (simp add: word_less_nat_alt not_less)
  then have "unat (b + 4096) = unat b + 4096" by (subst unat_add_no_wrap) simp_all
  then show ?case using le by simp
qed

declare reclaim_boundaries.simps [simp del]

definition spool_mark_reclaimed_range :: "u32 \<Rightarrow> u32 \<Rightarrow> spool_state \<Rightarrow> spool_state" where
  "spool_mark_reclaimed_range old_pos new_pos s =
     (if new_pos \<le> old_pos then s
      else reclaim_boundaries
             ((old_pos AND NOT (GD25Q32E_SECTOR_BYTES - 1)) + GD25Q32E_SECTOR_BYTES) new_pos s)"

definition zy100_online_stress_ack :: "u32 \<Rightarrow> online_stress \<Rightarrow> online_stress" where
  "zy100_online_stress_ack bytes s = s\<lparr>os_acked := os_acked s + bytes\<rparr>"

definition ack_error :: "u32 \<Rightarrow> u32 \<Rightarrow> 'd world \<Rightarrow> 'd world" where
  "ack_error code record_id = spool_error st_ack_errors_update code record_id"

definition ack_accept :: "u8 \<Rightarrow> spool_record \<Rightarrow> spool_state \<Rightarrow> spool_state" where
  "ack_accept type sent s =
     on_stats (\<lambda>st. st\<lparr>
        st_pending_bytes := (if st_pending_bytes st \<ge> rec_record_bytes sent
                             then st_pending_bytes st - rec_record_bytes sent else 0),
        st_pending_records := st_pending_records st - 1,
        st_acked := (st_acked st)[unat type := st_acked st ! unat type + 1]\<rparr>) s"

definition ack_release :: "u32 \<Rightarrow> u32 \<Rightarrow> bool \<Rightarrow> spool_state \<Rightarrow> spool_state" where
  "ack_release old_ack_pos ack_pos crossed_gap_before s =
     (let s1 = (if crossed_gap_before then s\<lparr>sp_wrap_gap_start := 0, sp_wrap_gap_bytes := 0\<rparr> else s)
      in spool_mark_reclaimed_range old_ack_pos ack_pos (s1\<lparr>sp_ack_pos := ack_pos\<rparr>))"

definition ack_pop :: "spool_state \<Rightarrow> spool_state" where
  "ack_pop s =
     spool_refresh_stats (s\<lparr>sp_sent_records := (sp_sent_records s)[unat (sp_sent_head s) := record_zero],
        sp_sent_head := ucast ((ucast (sp_sent_head s) + 1) mod ZY100_ONLINE_RECORD_IN_FLIGHT_MAX),
        sp_sent_count := sp_sent_count s - 1\<rparr>)"

definition zy100_online_spool_ack :: "u8 \<Rightarrow> u32 \<Rightarrow> 'd world \<Rightarrow> bool \<times> 'd world" where
  "zy100_online_spool_ack type record_id w =
     (let s = w_spool w; old_ack_pos = sp_ack_pos s
      in if type = 0 \<or> ucast type \<ge> ZY100_ONLINE_RECORD_TYPE_COUNT then (False, w)
         else
           let (ok, pos, s0) = spool_skip_gap_bounded old_ack_pos (sp_commit_pos s) False s
           in if \<not> ok then (False, ack_error 31 record_id w)
              else if sp_sent_count s = 0 then (False, ack_error 13 record_id w)
              else
                let sent = sp_sent_records s ! unat (sp_sent_head s)
                in if rec_type sent \<noteq> type \<or> rec_record_id sent \<noteq> record_id \<or>
                      rec_header_addr sent \<noteq> spool_pos_addr pos \<or>
                      rec_generation sent \<noteq> spool_pos_generation pos
                   then
                     let w1 = (if rec_type sent = type \<and> rec_record_id sent = record_id \<and>
                                  rec_generation sent \<noteq> spool_pos_generation pos
                               then on_spool (on_stats (inc st_generation_mismatch_update)) w else w)
                     in (False, ack_error 13 record_id w1)
                   else
                     let ack_end_pos = pos + rec_record_bytes sent
                     in if ack_end_pos < pos \<or> ack_end_pos > sp_commit_pos s \<or>
                           st_pending_records (sp_stats s) = 0
                        then (False, spool_error st_state_errors_update 14 ack_end_pos w)
                        else
                          let s1 = ack_accept type sent s;
                              (ok2, pos2, s2) = spool_skip_gap_bounded ack_end_pos (sp_commit_pos s1) True s1
                          in if \<not> ok2
                             then (False, ack_error 31 record_id (on_spool (\<lambda>_. s2) w))
                             else
                               let s3 = ack_release old_ack_pos pos2 (pos \<noteq> old_ack_pos) s2;
                                   w3 = on_spool (\<lambda>_. s3) w;
                                   w4 = (if type = 4
                                         then on_stress (zy100_online_stress_ack (rec_payload_bytes sent)) w3
                                         else w3)
                               in (True, on_spool ack_pop w4))"

section \<open>Queries\<close>

definition zy100_online_spool_has_committed :: "spool_state \<Rightarrow> bool" where
  "zy100_online_spool_has_committed s =
     (let (ok, pos, _) = spool_skip_gap_bounded (sp_send_pos s) (sp_commit_pos s) False s
      in ok \<and> pos < sp_commit_pos s)"

definition zy100_online_spool_all_acked :: "spool_state \<Rightarrow> bool" where
  "zy100_online_spool_all_acked s \<longleftrightarrow>
     \<not> res_active (sp_reservation s) \<and> st_pending_records (sp_stats s) = 0 \<and>
     sp_ack_pos s = sp_commit_pos s \<and> sp_send_pos s = sp_commit_pos s \<and> sp_sent_count s = 0"

definition zy100_online_spool_commit_pending :: "spool_state \<Rightarrow> bool" where
  "zy100_online_spool_commit_pending s \<longleftrightarrow>
     res_active (sp_reservation s) \<and> res_data_done (sp_reservation s)"

definition zy100_online_spool_active_reservation_kind :: "spool_state \<Rightarrow> u8" where
  "zy100_online_spool_active_reservation_kind s =
     (if res_active (sp_reservation s) then res_type (sp_reservation s) else 0)"

definition zy100_online_spool_active_reservation_data_done :: "spool_state \<Rightarrow> bool" where
  "zy100_online_spool_active_reservation_data_done s \<longleftrightarrow>
     res_active (sp_reservation s) \<and> res_data_done (sp_reservation s)"

definition zy100_online_spool_erase_wip :: "spool_state \<Rightarrow> bool" where
  "zy100_online_spool_erase_wip s \<longleftrightarrow> sp_erase_wip s"

definition zy100_online_spool_last_reserve_block :: "spool_state \<Rightarrow> spool_reserve_block" where
  "zy100_online_spool_last_reserve_block s = sp_last_reserve_block s"

definition zy100_online_spool_pending_bytes :: "spool_state \<Rightarrow> u32" where
  "zy100_online_spool_pending_bytes s = st_pending_bytes (sp_stats s)"

definition zy100_online_spool_erased_ahead_bytes :: "spool_state \<Rightarrow> u32" where
  "zy100_online_spool_erased_ahead_bytes s = spool_erased_ahead_bytes s"

definition zy100_online_spool_progress_seq :: "spool_state \<Rightarrow> u32" where
  "zy100_online_spool_progress_seq s = sp_progress_seq s"

definition zy100_online_spool_low_water :: "spool_state \<Rightarrow> bool" where
  "zy100_online_spool_low_water s \<longleftrightarrow>
     spool_erased_ahead_bytes s < ZY100_ONLINE_SPOOL_PREERASE_MIN_BYTES"

definition zy100_online_spool_has_reclaimable :: "spool_state \<Rightarrow> bool" where
  "zy100_online_spool_has_reclaimable s \<longleftrightarrow> spool_bitmap_count (sp_reclaimable_bitmap s) \<noteq> 0"

definition zy100_online_spool_try_wrap_empty :: "u32 \<Rightarrow> spool_state \<Rightarrow> bool" where
  "zy100_online_spool_try_wrap_empty minimum_bytes s \<longleftrightarrow>
     \<not> (minimum_bytes = 0 \<or> minimum_bytes mod GD25Q32E_PAGE_BYTES \<noteq> 0) \<and>
     zy100_online_spool_all_acked s \<and> spool_erased_ahead_bytes s \<ge> minimum_bytes"

definition zy100_online_spool_get_stats :: "spool_state \<Rightarrow> spool_stats \<times> spool_state" where
  "zy100_online_spool_get_stats s = (let s1 = spool_refresh_stats s in (sp_stats s1, s1))"

section \<open>The self-check\<close>

definition zy100_online_spool_invariant_code :: "spool_state \<Rightarrow> u8" where
  "zy100_online_spool_invariant_code s =
     (if sp_ack_pos s > sp_send_pos s \<or> sp_send_pos s > sp_commit_pos s \<or>
         sp_commit_pos s > sp_reserve_pos s \<or> spool_used_bytes s = None then 1
      else if (sp_reserve_pos s OR sp_commit_pos s OR sp_ack_pos s OR sp_send_pos s)
                mod GD25Q32E_PAGE_BYTES \<noteq> 0 then 2
      else if \<not> spool_pos_generation_valid (sp_reserve_pos s) \<or>
              \<not> spool_pos_generation_valid (sp_commit_pos s) \<or>
              \<not> spool_pos_generation_valid (sp_ack_pos s) \<or>
              \<not> spool_pos_generation_valid (sp_send_pos s) then 8
      else if st_pending_records (sp_stats s) = 0 \<and>
              (sp_ack_pos s \<noteq> sp_commit_pos s \<or> sp_send_pos s \<noteq> sp_commit_pos s \<or>
               sp_sent_count s \<noteq> 0) then 3
      else
        let effective_commit = spool_skip_gap_value (sp_commit_pos s) s;
            r = sp_reservation s
        in if res_active r \<and> (spool_pos_addr effective_commit \<noteq> res_header_addr r \<or>
              effective_commit + res_total_bytes r \<noteq> sp_reserve_pos s) then 4
           else if sp_wrap_gap_bytes s \<noteq> 0 \<and>
              ((sp_wrap_gap_start s OR sp_wrap_gap_bytes s) mod GD25Q32E_PAGE_BYTES \<noteq> 0 \<or>
               sp_wrap_gap_start s < sp_ack_pos s \<or>
               sp_wrap_gap_start s + sp_wrap_gap_bytes s > sp_reserve_pos s \<or>
               spool_pos_offset (sp_wrap_gap_start s + sp_wrap_gap_bytes s) \<noteq> 0) then 9
           else if sp_wrap_gap_bytes s = 0 \<and> sp_wrap_gap_start s \<noteq> 0 then 9
           else if sp_erase_wip s \<and> (sp_erase_sector s \<ge> ZY100_ONLINE_SPOOL_SECTOR_COUNT \<or>
              sp_erase_sector s + sp_erase_sector_count s > ZY100_ONLINE_SPOOL_SECTOR_COUNT) then 5
           else if ucast (sp_sent_count s) > ZY100_ONLINE_RECORD_IN_FLIGHT_MAX then 6
           else
             let ea = spool_skip_gap_value (sp_ack_pos s) s;
                 effective_ack = (if ea > sp_commit_pos s then sp_ack_pos s else ea)
             in if sp_sent_count s = 0 then (if effective_ack = sp_send_pos s then 0 else 7)
                else
                  let last_sent = sp_sent_records s !
                        ((unat (sp_sent_head s) + unat (sp_sent_count s) - 1) mod 4);
                      first_sent = sp_sent_records s ! unat (sp_sent_head s);
                      last_sent_pos = ucast (rec_generation last_sent) * ZY100_ONLINE_SPOOL_REGION_BYTES +
                        (rec_header_addr last_sent - ZY100_ONLINE_SPOOL_REGION_BASE_ADDR);
                      last_sent_end = last_sent_pos + rec_record_bytes last_sent
                  in if rec_header_addr first_sent \<noteq> spool_pos_addr effective_ack \<or>
                        rec_generation first_sent \<noteq> spool_pos_generation effective_ack \<or>
                        last_sent_end \<noteq> sp_send_pos s then 7 else 0)"

end
