(* ===== verification/SpoolSession.thy ===== *)
theory SpoolSession
  imports SpoolTx
begin

text \<open>
  The life cycle of a spool session in \<open>zy100_online_spool.c\<close>: initialisation, preparing the
  flash before a start (blocking or polled), begin and abort of a session, the cleanup after it
  and the erase of the whole region.  A \<open>detail_out\<close> is a result; it is \<open>None\<close> where the
  source does not write it.
\<close>

unbundle bit_operations_syntax

section \<open>Start and abort\<close>

definition zy100_online_spool_init :: "spool_state \<Rightarrow> spool_state" where
  "zy100_online_spool_init s = spool_refresh_stats spool_zero"

definition zy100_online_spool_abort_session :: "spool_state \<Rightarrow> spool_state" where
  "zy100_online_spool_abort_session s =
     (let s1 = (if res_active (sp_reservation s)
                then spool_provider_abort (res_token (sp_reservation s)) s else s)
      in s1\<lparr>sp_session_active := False, sp_tx_cached := False, sp_sent_head := 0, sp_sent_count := 0\<rparr>)"

text \<open>All positions and the gap back to the start of the region.\<close>

definition reset_positions :: "spool_state \<Rightarrow> spool_state" where
  "reset_positions s = s\<lparr>sp_reserve_pos := 0, sp_commit_pos := 0, sp_ack_pos := 0, sp_send_pos := 0,
     sp_wrap_gap_start := 0, sp_wrap_gap_bytes := 0\<rparr>"

definition all_reclaimable :: "spool_state \<Rightarrow> spool_state" where
  "all_reclaimable s = s\<lparr>sp_reclaimable_bitmap :=
     foldl (\<lambda>bm sector. spool_bitmap_set sector bm) (sp_reclaimable_bitmap s) all_sectors\<rparr>"

definition zy100_online_spool_ready_begin :: "spool_state \<Rightarrow> spool_state" where
  "zy100_online_spool_ready_begin s =
     (let s1 = zy100_online_spool_abort_session s;
          s2 = s1\<lparr>sp_erased_bitmap := replicate 8 0, sp_dirty_bitmap := replicate 8 0,
                  sp_reclaimable_bitmap := replicate 8 0\<rparr>;
          s3 = (all_reclaimable s2)\<lparr>sp_ready := True\<rparr>
      in spool_refresh_stats (reset_positions s3))"

definition zy100_online_spool_begin :: "u32 \<Rightarrow> spool_state \<Rightarrow> spool_state" where
  "zy100_online_spool_begin session_id s =
     spool_refresh_stats (spool_zero\<lparr>sp_erased_bitmap := sp_erased_bitmap s,
       sp_reclaimable_bitmap := sp_reclaimable_bitmap s,
       sp_stats := stats_zero\<lparr>st_erase_count := st_erase_count (sp_stats s),
                              st_erased_ahead_min_bytes := 0xFFFFFFFF\<rparr>,
       sp_ready := True, sp_session_active := True, sp_session_id := session_id\<rparr>)"

definition zy100_online_spool_note_capture_segment :: "u32 \<Rightarrow> u32 \<Rightarrow> spool_state \<Rightarrow> spool_state" where
  "zy100_online_spool_note_capture_segment capture_segment_id segment_start_offset_ms s =
     (if \<not> sp_session_active s \<or> res_active (sp_reservation s) \<or> capture_segment_id = 0 then s
      else s\<lparr>sp_capture_segment_id := capture_segment_id,
             sp_segment_start_offset_ms := segment_start_offset_ms\<rparr>)"

section \<open>Cleanup\<close>

definition zy100_online_spool_abort_cleanup_begin :: "spool_state \<Rightarrow> bool \<times> spool_state" where
  "zy100_online_spool_abort_cleanup_begin s =
     (if sp_erase_wip s then (False, s)
      else
        let s1 = (all_reclaimable (zy100_online_spool_abort_session s))\<lparr>sp_ready := True\<rparr>;
            s2 = (reset_positions s1)\<lparr>sp_tx_cached := False,
                    sp_sent_records := replicate 4 record_zero,
                    sp_sent_head := 0, sp_sent_count := 0\<rparr>;
            s3 = on_stats (\<lambda>st. st\<lparr>st_pending_records := 0, st_pending_bytes := 0\<rparr>) s2
        in (True, spool_refresh_stats s3))"

definition zy100_online_spool_post_session_cleanup_begin :: "spool_state \<Rightarrow> bool \<times> spool_state" where
  "zy100_online_spool_post_session_cleanup_begin s =
     (if \<not> zy100_online_spool_all_acked s \<or> sp_erase_wip s then (False, s)
      else
        let s1 = (all_reclaimable (zy100_online_spool_abort_session s))\<lparr>sp_ready := True\<rparr>
        in (True, spool_refresh_stats ((reset_positions s1)\<lparr>sp_tx_cached := False\<rparr>)))"

definition zy100_online_spool_post_session_cleanup_poll ::
  "'d device \<Rightarrow> u32 \<Rightarrow> 'd world \<Rightarrow> spool_pump_result \<times> 'd world" where
  "zy100_online_spool_post_session_cleanup_poll D target_bytes w =
     (if target_bytes = 0 \<or> target_bytes mod GD25Q32E_BLOCK32_BYTES \<noteq> 0 \<or>
         target_bytes > ZY100_ONLINE_SPOOL_REGION_BYTES then (PUMP_ERROR, w)
      else if sp_erase_wip (w_spool w)
      then
        let last_error = st_last_error (sp_stats (w_spool w));
            (_, w1) = spool_poll_erase_wip D w
        in (error_or_progress last_error w1, w1)
      else if \<not> sp_ready (w_spool w) \<or> sp_session_active (w_spool w) then (PUMP_ERROR, w)
      else if \<not> sp_erase_wip (w_spool w) \<and> spool_erased_ahead_bytes (w_spool w) \<ge> target_bytes
      then (PUMP_IDLE, w)
      else zy100_online_spool_erase_reclaimable_block32_step D w)"

definition zy100_online_spool_post_session_ready :: "u32 \<Rightarrow> spool_state \<Rightarrow> bool" where
  "zy100_online_spool_post_session_ready minimum_bytes s \<longleftrightarrow>
     minimum_bytes \<noteq> 0 \<and> minimum_bytes mod GD25Q32E_SECTOR_BYTES = 0 \<and>
     minimum_bytes \<le> ZY100_ONLINE_SPOOL_REGION_BYTES \<and>
     sp_ready s \<and> \<not> sp_session_active s \<and> \<not> sp_erase_wip s \<and>
     spool_erased_ahead_bytes s \<ge> minimum_bytes"

section \<open>Preparing the flash before a start\<close>

definition mark_one_erased :: "u32 \<Rightarrow> spool_state \<Rightarrow> spool_state" where
  "mark_one_erased sector s = mark_sectors_erased sector 1 s"

fun blocking_erase_loop :: "'d device \<Rightarrow> u32 list \<Rightarrow> 'd world \<Rightarrow> u32 option \<times> 'd world" where
  "blocking_erase_loop D [] w = (None, w)"
| "blocking_erase_loop D (sector # rest) w =
     (if spool_bitmap_get (sp_erased_bitmap (w_spool w)) sector then blocking_erase_loop D rest w
      else
        let (t, d0) = imu_bsp_local_timestamp_us D (w_dev w);
            d1 = svc_app_watchdog_poll D (ucast (t div 1000)) d0;
            (status, d2) = gd25q32e_sector_erase_4k D (spool_sector_addr sector) d1;
            (status2, d3) = (if status = IMU_STATUS_OK
                             then gd25q32e_wait_while_busy D GD25Q32E_SECTOR_ERASE_TIMEOUT_MS d2
                             else (status, d2));
            w1 = w\<lparr>w_dev := d3\<rparr>
        in if status \<noteq> IMU_STATUS_OK \<or> status2 \<noteq> IMU_STATUS_OK
           then (Some (0x100 + sector), spool_error st_erase_errors_update 6 sector w1)
           else blocking_erase_loop D rest
                  (on_spool (\<lambda>s. on_stats (inc st_erase_count_update) (mark_one_erased sector s)) w1))"

definition zy100_online_spool_prepare_start_blocking ::
  "'d device \<Rightarrow> u32 \<Rightarrow> 'd world \<Rightarrow> bool \<times> u32 \<times> 'd world" where
  "zy100_online_spool_prepare_start_blocking D minimum_bytes w =
     (let required = minimum_bytes div GD25Q32E_SECTOR_BYTES
      in if minimum_bytes = 0 \<or> minimum_bytes mod GD25Q32E_SECTOR_BYTES \<noteq> 0 \<or>
            minimum_bytes > ZY100_ONLINE_SPOOL_REGION_BYTES then (False, 1, w)
         else
           let (status, d) = gd25q32e_init D (w_dev w); w1 = w\<lparr>w_dev := d\<rparr>
           in if status \<noteq> IMU_STATUS_OK then (False, 2, w1)
              else
                let (waited, w2) =
                  (if sp_erase_wip (w_spool w1)
                   then
                     let (st2, d2) = gd25q32e_wait_while_busy D (sp_erase_timeout_ms (w_spool w1)) (w_dev w1);
                         w2 = w1\<lparr>w_dev := d2\<rparr>
                     in if st2 \<noteq> IMU_STATUS_OK
                        then (False, on_spool (\<lambda>s. spool_latch_error 15 (sp_erase_sector s)
                                (on_stats (inc st_erase_errors_update) s)) w2)
                        else (True, on_spool (\<lambda>s. (finish_erase_counts
                                (mark_sectors_erased (sp_erase_sector s) (sp_erase_sector_count s) s))
                                \<lparr>sp_erase_sector_count := 0, sp_erase_timeout_ms := 0\<rparr>) w2)
                   else (True, w1))
                in if \<not> waited then (False, 3, w2)
                   else (case blocking_erase_loop D (take (unat required) all_sectors) w2 of
                           (Some detail, w3) \<Rightarrow> (False, detail, w3)
                         | (None, w3) \<Rightarrow> (True, 0, on_spool spool_refresh_stats w3)))"

definition zy100_online_spool_start_prepare_begin ::
  "'d device \<Rightarrow> u32 \<Rightarrow> 'd world \<Rightarrow> bool \<times> u32 \<times> 'd world" where
  "zy100_online_spool_start_prepare_begin D minimum_bytes w =
     (if minimum_bytes = 0 \<or> minimum_bytes mod GD25Q32E_SECTOR_BYTES \<noteq> 0 \<or>
         minimum_bytes > ZY100_ONLINE_SPOOL_REGION_BYTES then (False, 1, w)
      else
        let (status, d) = gd25q32e_init D (w_dev w); w1 = w\<lparr>w_dev := d\<rparr>
        in if status \<noteq> IMU_STATUS_OK \<and> status \<noteq> IMU_STATUS_BUS_ERROR
           then (False, 0x200 OR (imu_status_code status AND 0xFF), w1)
           else (True, 0, on_spool (\<lambda>s. s\<lparr>sp_start_prepare_active := True,
                  sp_start_prepare_minimum_bytes := minimum_bytes,
                  sp_start_prepare_erase_errors := st_erase_errors (sp_stats s),
                  sp_start_prepare_timeout_count := st_erase_timeout_count (sp_stats s)\<rparr>) w1))"

definition zy100_online_spool_start_prepare_poll ::
  "'d device \<Rightarrow> 'd world \<Rightarrow> spool_start_prep_status \<times> u32 option \<times> 'd world" where
  "zy100_online_spool_start_prepare_poll D w =
     (if \<not> sp_start_prepare_active (w_spool w) then (START_PREP_IDLE, None, w)
      else
        let (_, w1) = zy100_online_spool_preerase_poll D (sp_start_prepare_minimum_bytes (w_spool w)) w;
            s = w_spool w1;
            stop = on_spool (sp_start_prepare_active_update (\<lambda>_. False))
        in if st_erase_timeout_count (sp_stats s) \<noteq> sp_start_prepare_timeout_count s
           then (START_PREP_ERROR, Some 3, stop w1)
           else if st_erase_errors (sp_stats s) \<noteq> sp_start_prepare_erase_errors s
           then (START_PREP_ERROR,
                 Some (push_bit 8 (st_last_error (sp_stats s) AND 0xFF) OR
                       (st_last_error_detail (sp_stats s) AND 0xFF)), stop w1)
           else if \<not> sp_erase_wip s \<and> spool_erased_ahead_bytes s \<ge> sp_start_prepare_minimum_bytes s
           then (START_PREP_DONE, Some 0, stop w1)
           else (START_PREP_BUSY, None, w1))"

definition zy100_online_spool_start_prepare_abort :: "spool_state \<Rightarrow> spool_state" where
  "zy100_online_spool_start_prepare_abort s =
     s\<lparr>sp_start_prepare_active := False, sp_start_prepare_minimum_bytes := 0\<rparr>"

section \<open>Erasing the whole region\<close>

definition zy100_online_spool_clear_begin :: "spool_state \<Rightarrow> bool \<times> spool_state" where
  "zy100_online_spool_clear_begin s =
     (if sp_session_active s \<or> sp_erase_wip s then (False, s)
      else (True, s\<lparr>sp_clear_active := True, sp_clear_next_sector := 0\<rparr>))"

definition zy100_online_spool_clear_poll :: "'d device \<Rightarrow> 'd world \<Rightarrow> flash_prepare_status \<times> 'd world" where
  "zy100_online_spool_clear_poll D w =
     (if \<not> sp_clear_active (w_spool w) then (PREP_DONE, w)
      else
        let (pending, w1) = spool_poll_erase_wip D w
        in if pending then (PREP_BUSY, w1)
           else if sp_clear_next_sector (w_spool w1) \<ge> ZY100_ONLINE_SPOOL_SECTOR_COUNT
           then (PREP_DONE, on_spool (\<lambda>s. spool_refresh_stats
                   (reset_positions (s\<lparr>sp_clear_active := False\<rparr>))) w1)
           else
             let (issued, w2) = spool_issue_erase D (sp_clear_next_sector (w_spool w1)) w1
             in if \<not> issued then (PREP_ERROR, w2)
                else (PREP_BUSY, on_spool (inc sp_clear_next_sector_update) w2))"

end
