(* ===== verification/OnlineStress.thy ===== *)
theory OnlineStress
  imports SpoolSession
begin

text \<open>
  The stress writer: \<open>online_stress_test/src/zy100_online_stress.c\<close>.  It takes the blocks the load
  source generated, writes them page by page into a record of the spool, reads every page back
  before it releases the bytes, and commits the record with its checksum.  Its static state is
  \<open>w_stress\<close>; the functions that only read or change that state take and return it, the ones that
  reach the clocks, the diagnostics or the spool work on the \<open>world\<close>.  A bool result comes first.

  The workspace is the byte list it points to: \<open>begin\<close> takes the page at 34400, the read-back
  buffer at 34656 and the ring at 36864 out of it, three ranges that do not overlap.
  \<open>os_lock\<close> and \<open>os_unlock\<close> only mask interrupts and do not appear.  \<open>zy100_online_stress_ack\<close>
  stands with the acknowledgement that calls it.
\<close>

unbundle bit_operations_syntax

abbreviation (input) "ZY100_STRESS_STATUS_BYTES \<equiv> (164 :: u16)"
abbreviation (input) "ZY100_STRESS_STATUS_WORDS \<equiv> (40 :: nat)"
abbreviation (input) "ZY100_ONLINE_WORKSPACE_PAGE_OFFSET \<equiv> (34400 :: nat)"
abbreviation (input) "ZY100_ONLINE_WORKSPACE_VERIFY_OFFSET \<equiv> (34656 :: nat)"
abbreviation (input) "ZY100_ONLINE_WORKSPACE_REQUIRED_BYTES \<equiv> (36864 :: nat)"

section \<open>Diagnostics of the writer\<close>

text \<open>The freeze of the diagnostics reads the 1 MHz counter only when an access is pending.\<close>

definition diag_freeze_now :: "'d device \<Rightarrow> u32 \<Rightarrow> u32 \<Rightarrow> u32 \<Rightarrow> 'd world \<Rightarrow> 'd world" where
  "diag_freeze_now D now water error w =
     (if \<not> sd_active (w_diag w) \<or> sd_frozen (w_diag w) then w
      else if io_flags (sd_io (w_diag w)) AND SD_IO_PENDING \<noteq> 0
      then
        let (valid, counter, w1) = timebase_snapshot D w
        in on_diag (zy100_stress_diag_freeze (if valid then Some counter else None) now water error) w1
      else on_diag (zy100_stress_diag_freeze None now water error) w)"

definition source_used :: "'d world \<Rightarrow> u32" where
  "source_used w = ucast (src_used (os_source (w_stress w)))"

definition zy100_online_stress_diag_stage :: "'d device \<Rightarrow> u32 \<Rightarrow> 'd world \<Rightarrow> 'd world" where
  "zy100_online_stress_diag_stage D stage w =
     (let (now, w1) = os_time_ms D w
      in on_diag (zy100_stress_diag_stage stage now (source_used w1)) w1)"

definition zy100_online_stress_diag_freeze :: "'d device \<Rightarrow> u32 \<Rightarrow> 'd world \<Rightarrow> 'd world" where
  "zy100_online_stress_diag_freeze D error w =
     (let (now, w1) = os_time_ms D w in diag_freeze_now D now (source_used w1) error w1)"

section \<open>Failure and peaks\<close>

text \<open>The first error of the source and the first failure stay.\<close>

definition latch_failure :: "u8 \<Rightarrow> online_stress \<Rightarrow> online_stress" where
  "latch_failure error s =
     (let src = os_source s;
          src1 = (if src_error src = 0 then src\<lparr>src_error := error\<rparr> else src)
      in s\<lparr>os_source := src1\<lparr>src_frozen := True\<rparr>,
           os_first_failure := (if os_first_failure s = 0 then ucast (src_error src1)
                                else os_first_failure s)\<rparr>)"

definition stress_fail :: "'d device \<Rightarrow> u8 \<Rightarrow> 'd world \<Rightarrow> bool \<times> 'd world" where
  "stress_fail D error w =
     (let w1 = on_stress (latch_failure error) w
      in (False, zy100_online_stress_diag_freeze D (os_first_failure (w_stress w1)) w1))"

definition maximum :: "u32 \<Rightarrow> u32 \<Rightarrow> u32" where
  "maximum a b = (if a > b then a else b)"

text \<open>\<open>peak\<close> is the update of the field the source passes a pointer to.\<close>

definition profile :: "'d device \<Rightarrow> ((u32 \<Rightarrow> u32) \<Rightarrow> online_stress \<Rightarrow> online_stress) \<Rightarrow> u32 \<Rightarrow> bool \<Rightarrow>
    'd world \<Rightarrow> 'd world" where
  "profile D peak start valid w =
     (if valid then
        let (ok, stop, w1) = timebase_snapshot D w
        in if ok then on_stress (peak (\<lambda>p. maximum p (start - stop))) w1 else w1
      else w)"

section \<open>Arming\<close>

definition zy100_online_stress_invalidate :: "online_stress \<Rightarrow> online_stress" where
  "zy100_online_stress_invalidate s =
     s\<lparr>os_queried := False, os_armed := False, os_negotiated := False\<rparr>"

text \<open>\<open>detail\<close> is \<open>None\<close> for NULL and comes back with what the command stores there.\<close>

definition zy100_online_stress_command ::
  "u8 \<Rightarrow> u32 \<Rightarrow> u64 \<Rightarrow> u32 option \<Rightarrow> online_stress \<Rightarrow> bool \<times> u32 option \<times> online_stress" where
  "zy100_online_stress_command conn operation argument detail s =
     (if detail = None then (False, detail, s)
      else if operation = 0 \<and> argument = 0 then
        let s1 = (if os_conn s \<noteq> conn then zy100_online_stress_invalidate s else s)
        in (True, Some ZY100_STRESS_QUERY_DETAIL, s1\<lparr>os_conn := conn, os_queried := True\<rparr>)
      else if operation = 1 \<and> os_queried s \<and> os_conn s = conn \<and>
              ucast (drop_bit 32 argument) = ZY100_STRESS_PROTOCOL_VERSION \<and>
              zy100_stress_rate_valid (ucast argument)
      then (True, Some (ucast argument),
            s\<lparr>os_configured_rate := ucast argument, os_armed := True\<rparr>)
      else (False, detail, s))"

definition zy100_online_stress_negotiate :: "u8 \<Rightarrow> u32 \<Rightarrow> online_stress \<Rightarrow> online_stress" where
  "zy100_online_stress_negotiate conn capabilities s =
     (let s1 = (if os_conn s \<noteq> conn then zy100_online_stress_invalidate s else s)
      in s1\<lparr>os_conn := conn, os_negotiated := (capabilities AND 0x20 \<noteq> 0)\<rparr>)"

definition zy100_online_stress_armed :: "u8 \<Rightarrow> online_stress \<Rightarrow> bool" where
  "zy100_online_stress_armed conn s \<longleftrightarrow>
     os_conn s = conn \<and> os_queried s \<and> os_armed s \<and> os_negotiated s"

section \<open>Sessions\<close>

definition zy100_online_stress_session :: "u32 \<Rightarrow> online_stress \<Rightarrow> online_stress" where
  "zy100_online_stress_session session s =
     (let rate = os_configured_rate s;
          configured = (os_armed s \<and> os_queried s \<and> os_negotiated s)
      in online_stress_zero\<lparr>os_session := session, os_configured_rate := rate,
           os_configured := configured,
           os_snapshot := (os_snapshot online_stress_zero)
             [0 := session, 1 := rate, 34 := 0xFFFFFFFF, 35 := 0xFFFFFFFF, 36 := 0xFFFFFFFF]\<rparr>)"

definition zy100_online_stress_begin ::
  "'d device \<Rightarrow> u8 list option \<Rightarrow> u32 \<Rightarrow> 'd world \<Rightarrow> bool \<times> 'd world" where
  "zy100_online_stress_begin D workspace now_ms w =
     (if \<not> os_configured (w_stress w) \<or> workspace = None then stress_fail D ZY100_STRESS_OWNER w
      else
        let ws = the workspace;
            w1 = on_stress (\<lambda>s. s\<lparr>
                   os_page := Some (get_at ZY100_ONLINE_WORKSPACE_PAGE_OFFSET 256 ws),
                   os_verify := Some (get_at ZY100_ONLINE_WORKSPACE_VERIFY_OFFSET 256 ws),
                   os_publish_ms := now_ms\<rparr>) w;
            s = w_stress w1;
            (stats, sp) = zy100_online_spool_get_stats (w_spool w1);
            w2 = on_diag (zy100_stress_diag_begin (os_session s) now_ms (os_configured_rate s)
                   (st_erase_count stats)) (on_spool (\<lambda>_. sp) w1);
            (ok, src) = zy100_stress_source_begin (os_source s)
                   (Some (get_at ZY100_ONLINE_WORKSPACE_REQUIRED_BYTES 4096 ws))
                   (os_configured_rate s) (os_session s) now_ms
        in (ok, on_stress (os_source_update (\<lambda>_. src)) w2))"

definition zy100_online_stress_tick :: "'d device \<Rightarrow> u32 \<Rightarrow> 'd world \<Rightarrow> bool \<times> 'd world" where
  "zy100_online_stress_tick D now_ms w =
     (let w1 = on_diag (zy100_stress_diag_pump now_ms) w;
          w2 = (if src_used (os_source (w_stress w1)) \<noteq> 0
                then on_stress (inc os_cache_wait_update) w1 else w1);
          (ok, src) = zy100_stress_source_tick (os_source (w_stress w2)) now_ms;
          w3 = on_stress (os_source_update (\<lambda>_. src)) w2
      in if \<not> ok then stress_fail D (src_error src) w3
         else (True, on_diag (zy100_stress_diag_water now_ms (source_used w3)) w3))"

definition zy100_online_stress_freeze :: "'d device \<Rightarrow> u32 \<Rightarrow> 'd world \<Rightarrow> bool \<times> 'd world" where
  "zy100_online_stress_freeze D now_ms w =
     (let (ok, src) = zy100_stress_source_freeze (os_source (w_stress w)) now_ms;
          w1 = on_stress (os_source_update (\<lambda>_. src)) w
      in if \<not> ok then stress_fail D (src_error src) w1 else (True, w1))"

definition zy100_online_stress_pending :: "online_stress \<Rightarrow> bool" where
  "zy100_online_stress_pending s \<longleftrightarrow> src_used (os_source s) \<noteq> 0 \<or> os_phase s \<noteq> 0"

definition zy100_online_stress_writer_busy :: "online_stress \<Rightarrow> bool" where
  "zy100_online_stress_writer_busy s \<longleftrightarrow> os_phase s \<noteq> 0"

definition zy100_online_stress_writer_cursor :: "online_stress \<Rightarrow> u32" where
  "zy100_online_stress_writer_cursor s = os_page_offset s + ucast (os_phase s)"

definition zy100_online_stress_io_waiting :: "online_stress \<Rightarrow> bool" where
  "zy100_online_stress_io_waiting s = os_io_waiting s"

definition zy100_online_stress_erase_window :: "online_stress \<Rightarrow> bool" where
  "zy100_online_stress_erase_window s \<longleftrightarrow>
     ucast (src_used (os_source s)) \<le> src_rate (os_source s) div 50"

section \<open>The write step\<close>

definition io_wait :: "'d world \<Rightarrow> 'd world" where
  "io_wait = on_stress (inc os_flash_wait_update \<circ> os_io_waiting_update (\<lambda>_. True))"

text \<open>A reservation that has to wait; a full spool gets a forward erase.\<close>

definition write_reserve_wait :: "'d device \<Rightarrow> store_reserve_result \<Rightarrow> 'd world \<Rightarrow> bool \<times> 'd world" where
  "write_reserve_wait D reserve w =
     (let w1 = io_wait w
      in if reserve = RESERVE_FULL then
           let (er, w2) = zy100_online_spool_erase_forward_block32_step D w1;
               w3 = on_diag (zy100_stress_diag_erase True (zy100_online_spool_erase_wip (w_spool w2))
                      (zy100_online_spool_erased_ahead_bytes (w_spool w2))) w2
           in if er = ERASE_ERROR then stress_fail D ZY100_STRESS_RESERVE w3 else (True, w3)
         else (True, w1))"

definition write_record_begin :: "'d device \<Rightarrow> 'd world \<Rightarrow> 'd world" where
  "write_record_begin D w =
     (let w1 = on_stress (\<lambda>s. s\<lparr>os_data_left := os_record_data s\<rparr>) w;
          (now, w2) = os_time_ms D w1;
          w3 = on_stress (os_record_start_ms_update (\<lambda>_. now)) w2;
          w4 = on_diag (zy100_stress_diag_record_begin 4 now (os_record_bytes (w_stress w3) div 256)) w3
      in on_stress (\<lambda>s. s\<lparr>os_page_offset := 0, os_crc := zy100_crc32_ieee_begin,
           os_prepared := False, os_phase := 1\<rparr>) w4)"

text \<open>Phase 0: \<open>Some\<close> is an early return, \<open>None\<close> goes on with the first page.\<close>

definition write_start :: "'d device \<Rightarrow> 'd world \<Rightarrow> bool option \<times> 'd world" where
  "write_start D w =
     (let src = os_source (w_stress w); block_bytes = src_rate src div 50
      in if block_bytes = 0 then (Some True, zy100_online_stress_diag_stage D ZY100_SD_OTHER w)
         else
           let blocks = ucast (src_used src) div block_bytes
           in if blocks < 2 \<and> \<not> src_frozen src
              then (Some True, zy100_online_stress_diag_stage D ZY100_SD_PAIR w)
              else if blocks = 0 then (Some True, zy100_online_stress_diag_stage D ZY100_SD_OTHER w)
              else
                let n = (if blocks > 2 then 2 else blocks);
                    record_data = n * block_bytes;
                    record_bytes = (ZY100_STRESS_HEADER_BYTES + record_data + 255) AND NOT 255;
                    w1 = on_stress (\<lambda>s. s\<lparr>os_record_data := record_data, os_record_bytes := record_bytes\<rparr>) w;
                    w2 = zy100_online_stress_diag_stage D ZY100_SD_RESERVE w1;
                    (reserve, target, sp) = zy100_online_spool_reserve_stress
                      (src_consumed src div block_bytes + 1) record_bytes record_data
                      (Some (os_target (w_stress w2))) (w_spool w2);
                    w3 = on_stress (os_target_update (\<lambda>_. the target)) (on_spool (\<lambda>_. sp) w2)
                in if reserve = RESERVE_ERROR
                   then let (r, w4) = stress_fail D ZY100_STRESS_RESERVE w3 in (Some r, w4)
                   else if reserve \<noteq> RESERVE_OK
                   then let (r, w4) = write_reserve_wait D reserve w3 in (Some r, w4)
                   else (None, write_record_begin D w3))"

text \<open>Phase 3: the commit pump of the spool.\<close>

definition write_commit :: "'d device \<Rightarrow> 'd world \<Rightarrow> bool \<times> 'd world" where
  "write_commit D w =
     (let w1 = zy100_online_stress_diag_stage D ZY100_SD_COMMIT w;
          (commit, w2) = zy100_online_spool_commit_pump_once D True w1
      in if commit = PUMP_ERROR then stress_fail D ZY100_STRESS_COMMIT w2
         else if commit = PUMP_COMMITTED then
           let (t1, w3) = os_time_ms D w2;
               w4 = on_stress (\<lambda>s. s\<lparr>os_committed := os_committed s + os_record_data s\<rparr>)
                      (on_diag (zy100_stress_diag_record_end t1) w3);
               (t2, w5) = os_time_ms D w4
           in (True, on_stress (\<lambda>s. s\<lparr>
                 os_record_max_ms := maximum (os_record_max_ms s) (t2 - os_record_start_ms s),
                 os_phase := 0, os_target := (os_target s)\<lparr>tgt_token := 0\<rparr>\<rparr>) w5)
         else (True, on_stress (inc os_flash_wait_update) w2))"

text \<open>The end of phase 2: the page is verified, its bytes go back to the source.\<close>

definition write_release :: "'d device \<Rightarrow> 'd world \<Rightarrow> bool \<times> 'd world" where
  "write_release D w =
     (let w1 = on_stress (\<lambda>s. s\<lparr>os_crc := zy100_crc32_ieee_update (os_crc s) (the (os_page s))\<rparr>) w;
          (ok, src) = zy100_stress_source_consume (os_source (w_stress w1)) (os_page_data (w_stress w1));
          w2 = on_stress (os_source_update (\<lambda>_. src)) w1
      in if \<not> ok then stress_fail D ZY100_STRESS_OWNER w2
         else
           let (now, w3) = os_time_ms D w2;
               w4 = on_diag (zy100_stress_diag_release now
                      (source_used w3 + os_page_data (w_stress w3)) (os_page_data (w_stress w3))) w3;
               w5 = on_stress (\<lambda>s. s\<lparr>os_data_left := os_data_left s - os_page_data s,
                      os_page_offset := os_page_offset s + 256\<rparr>) w4;
               w6 = on_diag (zy100_stress_diag_record_page (os_page_offset (w_stress w5) div 256)) w5;
               w7 = on_stress (\<lambda>s. s\<lparr>os_prepared := False, os_phase := 1\<rparr>) w6;
               s = w_stress w7
           in if os_page_offset s = os_record_bytes s then
                let (ok2, sp) = zy100_online_spool_commit_with_crc (tgt_token (os_target s))
                      (zy100_crc32_ieee_finish (os_crc s)) (w_spool w7);
                    w8 = on_spool (\<lambda>_. sp) w7
                in if \<not> ok2 then stress_fail D ZY100_STRESS_COMMIT w8
                   else (True, on_stress (os_phase_update (\<lambda>_. 3)) w8)
              else (True, w7))"

text \<open>Phase 2: read the page back and compare.\<close>

definition write_verify :: "'d device \<Rightarrow> u32 \<Rightarrow> 'd world \<Rightarrow> bool \<times> 'd world" where
  "write_verify D addr w =
     (let w1 = zy100_online_stress_diag_stage D ZY100_SD_VERIFY w;
          (timed, stamp, w2) = timebase_snapshot D w1;
          (io, verify, w3) = zy100_online_spool_read_reserved D (tgt_token (os_target (w_stress w2)))
            addr (os_verify (w_stress w2)) w2;
          w4 = on_stress (os_verify_update (\<lambda>_. verify)) w3
      in if io = IO_BUSY then (True, io_wait w4)
         else if io \<noteq> IO_OK \<or> os_page (w_stress w4) \<noteq> os_verify (w_stress w4)
         then stress_fail D ZY100_STRESS_VERIFY w4
         else write_release D (profile D os_verify_max_us_update stamp timed w4))"

text \<open>The preparation of a page: false when the source refuses the header or the bytes.\<close>

definition write_prepare :: "online_stress \<Rightarrow> bool \<times> online_stress" where
  "write_prepare s =
     (let src = os_source s;
          header_bytes = (if os_page_offset s = 0 then ZY100_STRESS_HEADER_BYTES else 0);
          page0 = replicate 256 0xFF;
          (ok, page1) = (if header_bytes \<noteq> 0
             then zy100_stress_source_header src page0 (os_record_data s div (src_rate src div 50))
             else (True, page0))
      in if \<not> ok then (False, s\<lparr>os_page := map_option (\<lambda>_. page1) (os_page s)\<rparr>)
         else
           let room = 256 - header_bytes;
               page_data = (if room > os_data_left s then os_data_left s else room);
               (ok2, page2) = zy100_stress_source_copy src page1 (unat header_bytes) page_data;
               s1 = s\<lparr>os_page := map_option (\<lambda>_. page2) (os_page s), os_page_data := page_data\<rparr>
           in if \<not> ok2 then (False, s1) else (True, s1\<lparr>os_prepared := True\<rparr>))"

text \<open>Phase 1: prepare the page once and program it.\<close>

definition write_program :: "'d device \<Rightarrow> u32 \<Rightarrow> 'd world \<Rightarrow> bool \<times> 'd world" where
  "write_program D addr w =
     (let w1 = zy100_online_stress_diag_stage D ZY100_SD_PROGRAM w;
          (ready, w2) =
            (if os_prepared (w_stress w1) then (True, w1)
             else
               let (timed, stamp, w1a) = timebase_snapshot D w1;
                   (ok, s) = write_prepare (w_stress w1a);
                   w1b = on_stress (\<lambda>_. s) w1a
               in if ok then (True, profile D os_build_max_us_update stamp timed w1b) else (False, w1b))
      in if \<not> ready then stress_fail D ZY100_STRESS_OWNER w2
         else
           let (timed, stamp, w3) = timebase_snapshot D w2;
               (io, w4) = zy100_online_spool_write_reserved_page D
                 (tgt_token (os_target (w_stress w3))) addr (os_page (w_stress w3)) w3
           in if io = IO_BUSY then (True, io_wait w4)
              else if io \<noteq> IO_OK then stress_fail D ZY100_STRESS_PROGRAM w4
              else (True, on_stress (os_phase_update (\<lambda>_. 2))
                      (profile D os_program_max_us_update stamp timed w4)))"

definition write_page_addr :: "online_stress \<Rightarrow> u32" where
  "write_page_addr s = tgt_data_addr (os_target s) + os_page_offset s"

definition zy100_online_stress_write_step :: "'d device \<Rightarrow> 'd world \<Rightarrow> bool \<times> 'd world" where
  "zy100_online_stress_write_step D w0 =
     (let w = on_stress (os_io_waiting_update (\<lambda>_. False)) w0; phase = os_phase (w_stress w)
      in if src_error (os_source (w_stress w)) \<noteq> 0 then (False, w)
         else if phase = 0 then
           (case write_start D w of
              (Some r, w1) \<Rightarrow> (r, w1)
            | (None, w1) \<Rightarrow> write_program D (write_page_addr (w_stress w1)) w1)
         else if phase = 3 then write_commit D w
         else if phase = 2 then write_verify D (write_page_addr (w_stress w)) w
         else write_program D (write_page_addr (w_stress w)) w)"

definition zy100_online_stress_release :: "'d device \<Rightarrow> bool \<Rightarrow> 'd world \<Rightarrow> 'd world" where
  "zy100_online_stress_release D discard w =
     (let error = (if os_first_failure (w_stress w) \<noteq> 0 then os_first_failure (w_stress w)
                   else if discard then 0x105 else 0);
          w1 = zy100_online_stress_diag_freeze D error w;
          token = tgt_token (os_target (w_stress w1));
          w2 = (if discard \<and> token \<noteq> 0
                then on_spool (zy100_online_spool_abort_reservation token) w1 else w1)
      in on_stress (\<lambda>s. zy100_online_stress_invalidate (s\<lparr>
           os_target := (os_target s)\<lparr>tgt_token := 0\<rparr>, os_phase := 0,
           os_source := (os_source s)\<lparr>src_ring := None\<rparr>, os_page := None, os_verify := None\<rparr>)) w2)"

section \<open>Status\<close>

text \<open>The fields of the raw capture statistics that the status publishes.\<close>

record raw_stats =
  raw_accepted_packets :: u32
  raw_accepted_mag_samples :: u32
  raw_mag_missed_deadlines :: u32
  raw_mag_lateness_max_us :: u32
  raw_mag_interval_max_us :: u32
  raw_page_build_max_us :: u32
  raw_page_program_max_us :: u32
  raw_page_verify_max_us :: u32
  raw_record_write_max_ms :: u32

definition put_words :: "(nat \<times> u32) list \<Rightarrow> u32 list \<Rightarrow> u32 list" where
  "put_words ws p = foldl (\<lambda>p (i, v). p[i := v]) p ws"

definition publish_words :: "online_stress \<Rightarrow> raw_stats option \<Rightarrow> u32 list \<Rightarrow> u32 list" where
  "publish_words s raw p =
     (let src = os_source s;
          p1 = put_words [(0, os_session s), (1, src_rate src), (2, src_elapsed_ms src),
                 (3, src_expected src), (4, src_generated src), (5, src_rejected src),
                 (6, os_committed s), (7, os_acked s), (8, ucast (src_used src)),
                 (9, src_peak src), (10, src_delay_max_ms src), (11, os_cache_wait s),
                 (12, os_flash_wait s), (13, os_send_wait s), (14, os_ack_wait s),
                 (15, os_first_failure s), (22, os_skipped s)] p;
          p2 = (case raw of None \<Rightarrow> p1
                | Some r \<Rightarrow> put_words [(23, raw_accepted_packets r), (24, raw_accepted_mag_samples r),
                    (25, raw_mag_missed_deadlines r), (26, raw_mag_lateness_max_us r),
                    (27, raw_mag_interval_max_us r), (28, raw_page_build_max_us r),
                    (29, raw_page_program_max_us r), (30, raw_page_verify_max_us r),
                    (31, raw_record_write_max_ms r)] p1)
      in put_words [(28, maximum (p2 ! 28) (os_build_max_us s)),
           (29, maximum (p2 ! 29) (os_program_max_us s)),
           (30, maximum (p2 ! 30) (os_verify_max_us s)),
           (31, maximum (p2 ! 31) (os_record_max_ms s))] p2)"

definition zy100_online_stress_publish ::
  "u32 \<Rightarrow> raw_stats option \<Rightarrow> bool \<Rightarrow> online_stress \<Rightarrow> online_stress" where
  "zy100_online_stress_publish now_ms raw force s =
     (let periods = (now_ms - os_publish_ms s) div 1000
      in if \<not> force \<and> periods = 0 then s
         else
           let s1 = (if os_status_pending s then s\<lparr>os_skipped := os_skipped s + 1\<rparr> else s);
               s2 = (if periods > 1 then s1\<lparr>os_skipped := os_skipped s1 + (periods - 1)\<rparr> else s1);
               s3 = s2\<lparr>os_publish_ms := os_publish_ms s2 + periods * 1000\<rparr>
           in s3\<lparr>os_snapshot := publish_words s3 raw (os_snapshot s3), os_status_pending := True\<rparr>)"

definition zy100_online_stress_status_due :: "online_stress \<Rightarrow> bool" where
  "zy100_online_stress_status_due s = os_status_pending s"

definition zy100_online_stress_status_sent :: "u32 \<Rightarrow> online_stress \<Rightarrow> online_stress" where
  "zy100_online_stress_status_sent elapsed_ms s =
     (if elapsed_ms = os_snapshot s ! 2 then s\<lparr>os_status_pending := False\<rparr> else s)"

definition zy100_online_stress_note_wait :: "bool \<Rightarrow> bool \<Rightarrow> online_stress \<Rightarrow> online_stress" where
  "zy100_online_stress_note_wait send_wait ack_wait s =
     s\<lparr>os_send_wait := (if send_wait then os_send_wait s + 1 else os_send_wait s),
       os_ack_wait := (if ack_wait then os_ack_wait s + 1 else os_ack_wait s)\<rparr>"

definition zy100_online_stress_note_stacks ::
  "u32 \<Rightarrow> u32 \<Rightarrow> u32 \<Rightarrow> online_stress \<Rightarrow> online_stress" where
  "zy100_online_stress_note_stacks app_stack worker_stack worker_gap s =
     (if os_terminal_frozen s then s
      else
        let p0 = os_snapshot s;
            p1 = (if app_stack \<noteq> 0xFFFFFFFF then p0[34 := app_stack] else p0);
            p2 = (if worker_stack \<noteq> 0xFFFFFFFF then p1[35 := worker_stack] else p1);
            p3 = (if worker_gap \<noteq> 0xFFFFFFFF then p2[36 := worker_gap] else p2)
        in s\<lparr>os_snapshot := p3\<rparr>)"

definition zy100_online_stress_transport ::
  "u32 \<Rightarrow> u32 \<Rightarrow> u32 \<Rightarrow> u32 \<Rightarrow> u32 \<Rightarrow> u32 \<Rightarrow> u32 \<Rightarrow> u32 \<Rightarrow> u32 \<Rightarrow> u32 \<Rightarrow> u32 \<Rightarrow> 'd world \<Rightarrow> 'd world" where
  "zy100_online_stress_transport stop_reason pending pending_hi ack_max erase_count wrap_count
       heap_data heap_buffer mtu ci phy w =
     (let s = w_stress w
      in if os_terminal_frozen s then w
         else on_stress (os_snapshot_update (\<lambda>_. put_words [(15, os_first_failure s), (7, os_acked s),
                (13, os_send_wait s), (14, os_ack_wait s), (16, stop_reason), (17, pending),
                (18, pending_hi), (19, ack_max), (20, zy100_stress_diag_erases erase_count (w_diag w)),
                (21, wrap_count), (32, heap_data), (33, heap_buffer), (37, mtu), (38, ci), (39, phy)]
                (os_snapshot s))) w)"

definition zy100_online_stress_encode :: "online_stress \<Rightarrow> u8 list \<Rightarrow> u8 list" where
  "zy100_online_stress_encode s dst =
     foldl (\<lambda>d i. zy100_put_u32_le (4 + i * 4) (os_snapshot s ! i) d)
       (zy100_put_u16_le 2 ZY100_STRESS_STATUS_BYTES
         (zy100_put_u16_le 0 (ucast ZY100_STRESS_PROTOCOL_VERSION) dst))
       [0 ..< ZY100_STRESS_STATUS_WORDS]"

definition zy100_online_stress_terminal_freeze :: "online_stress \<Rightarrow> online_stress" where
  "zy100_online_stress_terminal_freeze s = s\<lparr>os_terminal_frozen := True, os_status_pending := False\<rparr>"

definition zy100_online_stress_failure :: "u32 \<Rightarrow> online_stress \<Rightarrow> online_stress" where
  "zy100_online_stress_failure stop_reason s =
     (if os_first_failure s = 0
      then s\<lparr>os_first_failure := (if src_error (os_source s) \<noteq> 0 then ucast (src_error (os_source s))
                                  else 0x100 + stop_reason)\<rparr>
      else s)"

end
