(* ===== verification/SpoolInv.thy ===== *)
theory SpoolInv
  imports SpoolSession
begin

text \<open>
  The invariant of the record queue.  A ghost list holds the committed records that are not yet
  acknowledged, each as its position and its size in the flash; the positions of the spool form
  a chain \<open>ack_pos \<rightarrow> records in flight \<rightarrow> send_pos \<rightarrow> records to send \<rightarrow> commit_pos\<close>, in which the only
  place a link may jump is the wrap gap.  The operations are shown to keep it; the two places
  where the code breaks it (an acknowledgement that overtakes the sender at the gap, an abort
  after the commit has crossed the gap) are the guards of the lemmas.
\<close>

unbundle bit_operations_syntax

section \<open>Chains of records\<close>

type_synonym ghost = "(nat \<times> nat) list"

definition hop :: "spool_state \<Rightarrow> nat \<Rightarrow> nat \<Rightarrow> bool" where
  "hop s p q \<longleftrightarrow> q = p \<or> (sp_wrap_gap_bytes s \<noteq> 0 \<and> p = unat (sp_wrap_gap_start s) \<and>
     q = unat (sp_wrap_gap_start s) + unat (sp_wrap_gap_bytes s))"

fun chain :: "(nat \<Rightarrow> nat \<Rightarrow> bool) \<Rightarrow> nat \<Rightarrow> ghost \<Rightarrow> nat \<Rightarrow> bool" where
  "chain H p [] t \<longleftrightarrow> H p t"
| "chain H p ((q, n) # rs) t \<longleftrightarrow> H p q \<and> 0 < n \<and> 256 dvd n \<and> chain H (q + n) rs t"

definition ends :: "nat \<Rightarrow> ghost \<Rightarrow> nat list" where
  "ends p rs = p # map (\<lambda>(q, n). q + n) rs"

lemma hop_refl [simp]: "hop s p p"
  by (simp add: hop_def)

lemma hop_le: "hop s p q \<Longrightarrow> p \<le> q"
  by (auto simp: hop_def)

lemma hop_no_gap [simp]: "sp_wrap_gap_bytes s = 0 \<Longrightarrow> hop s p q \<longleftrightarrow> q = p"
  by (simp add: hop_def)

lemma chain_le: "chain (hop s) p rs t \<Longrightarrow> p \<le> t"
proof (induction rs arbitrary: p)
  case Nil then show ?case by (auto dest: hop_le)
next
  case (Cons y rs)
  obtain q n where y: "y = (q, n)" by (cases y)
  then have "hop s p q" "chain (hop s) (q + n) rs t" using Cons.prems by auto
  then show ?case using Cons.IH hop_le by fastforce
qed

lemma chain_snoc:
  "chain H p xs q \<Longrightarrow> 0 < n \<Longrightarrow> 256 dvd n \<Longrightarrow> H (q + n) (q + n) \<Longrightarrow> chain H p (xs @ [(q, n)]) (q + n)"
  by (induction xs arbitrary: p) auto

lemma chain_hop_end:
  assumes "chain (hop s) p xs (unat (sp_wrap_gap_start s))" "sp_wrap_gap_bytes s \<noteq> 0"
  shows "chain (hop s) p xs (unat (sp_wrap_gap_start s) + unat (sp_wrap_gap_bytes s))"
  using assms(1)
proof (induction xs arbitrary: p)
  case Nil
  have "unat (sp_wrap_gap_bytes s) \<noteq> 0" using assms(2) by (simp add: unat_eq_zero)
  then show ?case using Nil assms(2) by (auto simp: hop_def)
next
  case (Cons x xs) then show ?case by (cases x) auto
qed

lemma chain_ends_ge: "chain (hop s) p rs t \<Longrightarrow> x \<in> set (ends p rs) \<Longrightarrow> p \<le> x \<and> x \<le> t"
proof (induction rs arbitrary: p)
  case Nil then show ?case by (auto simp: ends_def dest: hop_le)
next
  case (Cons y rs)
  obtain q n where y: "y = (q, n)" by (cases y)
  have h: "hop s p q" "chain (hop s) (q + n) rs t" using Cons.prems y by auto
  have "x = p \<or> x \<in> set (ends (q + n) rs)" using Cons.prems(2) y by (auto simp: ends_def)
  then show ?case using Cons.IH [OF h(2)] hop_le [OF h(1)] chain_le [OF h(2)] by fastforce
qed

lemma chain_last:
  "chain (hop s) p rs t \<Longrightarrow> hop s (last (ends p rs)) t"
  by (induction rs arbitrary: p) (auto simp: ends_def)

lemma last_ends_in: "last (ends p rs) \<in> set (ends p rs)"
  unfolding ends_def by (rule last_in_set) simp

text \<open>Past the gap a chain does not jump.\<close>

lemma chain_past_gap:
  assumes "chain (hop s) p rs t" "unat (sp_wrap_gap_start s) < p"
  shows "chain (=) p rs t"
  using assms
proof (induction rs arbitrary: p)
  case Nil then show ?case by (auto simp: hop_def)
next
  case (Cons y rs)
  obtain q n where y: "y = (q, n)" by (cases y)
  have "q = p" using Cons.prems y by (auto simp: hop_def)
  then show ?case using Cons y by auto
qed

lemma chain_eq_any: "chain (=) p rs t \<Longrightarrow> (\<And>x. H x x) \<Longrightarrow> chain H p rs t"
  by (induction rs arbitrary: p) auto

lemma chain_dvd:
  assumes "chain (hop s) p rs t" "256 dvd p"
    and "sp_wrap_gap_bytes s \<noteq> 0 \<Longrightarrow>
      256 dvd unat (sp_wrap_gap_start s) \<and> 256 dvd unat (sp_wrap_gap_bytes s)"
  shows "256 dvd t \<and> (\<forall>(q, n) \<in> set rs. 256 dvd q)"
  using assms(1,2)
proof (induction rs arbitrary: p)
  case Nil
  then show ?case using assms(3) by (auto simp: hop_def)
next
  case (Cons y rs)
  obtain q n where y: "y = (q, n)" by (cases y)
  have h: "hop s p q" "chain (hop s) (q + n) rs t" "256 dvd n" using Cons.prems y by auto
  then have "256 dvd q" using Cons.prems(2) assms(3) by (auto simp: hop_def)
  then show ?case using Cons.IH [OF h(2)] h(3) y by simp
qed

section \<open>The invariant\<close>

definition rec_at :: "spool_record \<Rightarrow> nat \<times> nat \<Rightarrow> bool" where
  "rec_at rc = (\<lambda>(q, n). rec_header_addr rc = spool_pos_addr (of_nat q) \<and>
     rec_generation rc = spool_pos_generation (of_nat q) \<and> unat (rec_record_bytes rc) = n)"

definition inv_shape :: "spool_state \<Rightarrow> bool" where
  "inv_shape s \<longleftrightarrow> length (sp_sent_records s) = 4 \<and> unat (sp_sent_head s) < 4 \<and>
     unat (sp_sent_count s) \<le> 4"

definition inv_chain :: "spool_state \<Rightarrow> ghost \<Rightarrow> bool" where
  "inv_chain s recs \<longleftrightarrow>
     unat (sp_sent_count s) \<le> length recs \<and> 256 dvd unat (sp_ack_pos s) \<and>
     chain (hop s) (unat (sp_ack_pos s)) (take (unat (sp_sent_count s)) recs) (unat (sp_send_pos s)) \<and>
     chain (hop s) (unat (sp_send_pos s)) (drop (unat (sp_sent_count s)) recs) (unat (sp_commit_pos s)) \<and>
     unat (sp_reserve_pos s) \<le> unat (sp_ack_pos s) + 0x100000"

definition inv_gap :: "spool_state \<Rightarrow> ghost \<Rightarrow> bool" where
  "inv_gap s recs \<longleftrightarrow>
     (sp_wrap_gap_bytes s = 0 \<longrightarrow> sp_wrap_gap_start s = 0) \<and>
     (sp_wrap_gap_bytes s \<noteq> 0 \<longrightarrow>
        256 dvd unat (sp_wrap_gap_start s) \<and> 256 dvd unat (sp_wrap_gap_bytes s) \<and>
        unat (sp_wrap_gap_start s) \<in> set (ends (unat (sp_ack_pos s)) recs) \<and>
        (\<forall>(q, n) \<in> set recs. q \<noteq> unat (sp_wrap_gap_start s)) \<and>
        unat (sp_wrap_gap_start s) + unat (sp_wrap_gap_bytes s) \<le> unat (sp_reserve_pos s) \<and>
        (unat (sp_wrap_gap_start s) + unat (sp_wrap_gap_bytes s)) mod 0x100000 = 0)"

text \<open>Where the commit will put the record of the reservation.\<close>

definition commit_target :: "spool_state \<Rightarrow> nat" where
  "commit_target s = (if sp_wrap_gap_bytes s \<noteq> 0 \<and> sp_commit_pos s = sp_wrap_gap_start s
     then unat (sp_wrap_gap_start s) + unat (sp_wrap_gap_bytes s) else unat (sp_commit_pos s))"

definition inv_res :: "spool_state \<Rightarrow> bool" where
  "inv_res s \<longleftrightarrow>
     (let r = sp_reservation s
      in if res_active r
         then commit_target s + unat (res_total_bytes r) = unat (sp_reserve_pos s) \<and>
              res_header_addr r = spool_pos_addr (of_nat (commit_target s)) \<and>
              commit_target s mod 0x100000 + unat (res_total_bytes r) \<le> 0x100000 \<and>
              256 < unat (res_total_bytes r) \<and> 256 dvd unat (res_total_bytes r) \<and>
              res_data_addr r = res_header_addr r + 256 \<and>
              unat (res_source_record_bytes r) + 256 = unat (res_total_bytes r) \<and>
              res_type r \<noteq> 0 \<and> unat (res_type r) < 5 \<and>
              (res_commit_state r = COMMIT_HEADER_WIP \<or> res_commit_state r = COMMIT_HEADER_VERIFY \<longrightarrow>
                 commit_target s = unat (sp_commit_pos s))
         else sp_commit_pos s = sp_reserve_pos s)"

definition inv_sent :: "spool_state \<Rightarrow> ghost \<Rightarrow> bool" where
  "inv_sent s recs \<longleftrightarrow>
     (\<forall>i < unat (sp_sent_count s). rec_at (sent_record s i) (recs ! i)) \<and>
     (sp_tx_cached s \<longrightarrow> unat (sp_sent_count s) < length recs \<and>
        fst (recs ! unat (sp_sent_count s)) = unat (sp_send_pos s) \<and>
        rec_at (sp_tx_record s) (recs ! unat (sp_sent_count s)))"

definition inv_pend :: "spool_state \<Rightarrow> ghost \<Rightarrow> bool" where
  "inv_pend s recs \<longleftrightarrow> unat (st_pending_records (sp_stats s)) = length recs \<and>
     unat (st_pending_bytes (sp_stats s)) = sum_list (map snd recs)"

definition queue_inv :: "spool_state \<Rightarrow> ghost \<Rightarrow> bool" where
  "queue_inv s recs \<longleftrightarrow> inv_shape s \<and> inv_chain s recs \<and> inv_gap s recs \<and> inv_res s \<and>
     inv_sent s recs \<and> inv_pend s recs"

lemmas queue_inv_defs = inv_shape_def inv_chain_def inv_gap_def inv_res_def inv_sent_def inv_pend_def

lemma hop_cong:
  "sp_wrap_gap_bytes s = sp_wrap_gap_bytes t \<Longrightarrow> sp_wrap_gap_start s = sp_wrap_gap_start t \<Longrightarrow>
   hop s = hop t"
  by (simp add: hop_def fun_eq_iff)

text \<open>The invariant only reads the queue.\<close>

lemma queue_inv_cong:
  assumes "queue_core s = queue_core t"
  shows "queue_inv s recs \<longleftrightarrow> queue_inv t recs"
proof -
  note f = queue_fields [OF assms]
  show ?thesis
    unfolding queue_inv_def queue_inv_defs commit_target_def sent_record_def Let_def
    using f hop_cong [OF f(10,9)] by (simp only:)
qed

lemma same_queue_inv: "same_queue w w' \<Longrightarrow> queue_inv (w_spool w') recs = queue_inv (w_spool w) recs"
  by (rule queue_inv_cong) (simp add: same_queue_def)

section \<open>What the invariant says about the positions\<close>

lemma inv_positions:
  assumes "queue_inv s recs"
  shows "unat (sp_ack_pos s) \<le> unat (sp_send_pos s)"
    "unat (sp_send_pos s) \<le> unat (sp_commit_pos s)"
    "unat (sp_commit_pos s) \<le> unat (sp_reserve_pos s)"
    "unat (sp_reserve_pos s) - unat (sp_ack_pos s) \<le> 0x100000"
    "256 dvd unat (sp_ack_pos s)" "256 dvd unat (sp_send_pos s)"
    "256 dvd unat (sp_commit_pos s)" "256 dvd unat (sp_reserve_pos s)"
proof -
  have c: "inv_chain s recs" and g: "inv_gap s recs" and r: "inv_res s"
    using assms by (simp_all add: queue_inv_def)
  note ch = c [unfolded inv_chain_def]
  have gd: "sp_wrap_gap_bytes s \<noteq> 0 \<Longrightarrow>
      256 dvd unat (sp_wrap_gap_start s) \<and> 256 dvd unat (sp_wrap_gap_bytes s)"
    using g by (simp add: inv_gap_def)
  show "unat (sp_ack_pos s) \<le> unat (sp_send_pos s)"
    "unat (sp_send_pos s) \<le> unat (sp_commit_pos s)" using ch chain_le by blast+
  show "unat (sp_reserve_pos s) - unat (sp_ack_pos s) \<le> 0x100000" using ch by linarith
  show a: "256 dvd unat (sp_ack_pos s)" using ch by blast
  show t: "256 dvd unat (sp_send_pos s)" using ch chain_dvd [OF _ a gd] by blast
  show cc: "256 dvd unat (sp_commit_pos s)" using ch chain_dvd [OF _ t gd] by blast
  have tgt: "256 dvd commit_target s" "unat (sp_commit_pos s) \<le> commit_target s"
    using cc gd by (auto simp: commit_target_def)
  have "256 dvd unat (sp_reserve_pos s) \<and> unat (sp_commit_pos s) \<le> unat (sp_reserve_pos s)"
  proof (cases "res_active (sp_reservation s)")
    case True
    then have "unat (sp_reserve_pos s) = commit_target s + unat (res_total_bytes (sp_reservation s))"
      "256 dvd unat (res_total_bytes (sp_reservation s))"
      using r by (simp_all add: inv_res_def Let_def)
    then show ?thesis using tgt by simp
  next
    case False
    then show ?thesis using r cc by (simp add: inv_res_def Let_def)
  qed
  then show "256 dvd unat (sp_reserve_pos s)" "unat (sp_commit_pos s) \<le> unat (sp_reserve_pos s)"
    by blast+
qed

section \<open>Reserving\<close>

lemma chain_weaken: "chain H p rs t \<Longrightarrow> (\<And>x y. H x y \<Longrightarrow> H' x y) \<Longrightarrow> chain H' p rs t"
  by (induction rs arbitrary: p) auto

lemma chain_starts:
  "chain (hop s) p rs t \<Longrightarrow> (q, n) \<in> set rs \<Longrightarrow> p \<le> q \<and> q + n \<le> t \<and> 0 < n"
proof (induction rs arbitrary: p)
  case Nil then show ?case by simp
next
  case (Cons y rs)
  obtain q' n' where y: "y = (q', n')" by (cases y)
  have h: "hop s p q'" "0 < n'" "chain (hop s) (q' + n') rs t" using Cons.prems y by auto
  note le = hop_le [OF h(1)] chain_le [OF h(3)]
  show ?case
  proof (cases "(q, n) = y")
    case True then show ?thesis using y h(2) le by simp
  next
    case False
    then have "(q, n) \<in> set rs" using Cons.prems by simp
    from Cons.IH [OF h(3) this] show ?thesis using le h(2) by simp
  qed
qed

lemma ends_append: "set (ends p (xs @ ys)) = set (ends p xs) \<union> set (map (\<lambda>(q, n). q + n) ys)"
  by (auto simp: ends_def)

lemma inv_record_bounds:
  assumes "inv_chain s recs" "(q, n) \<in> set recs"
  shows "unat (sp_ack_pos s) \<le> q" "q + n \<le> unat (sp_commit_pos s)" "0 < n"
proof -
  let ?k = "unat (sp_sent_count s)"
  have ch: "chain (hop s) (unat (sp_ack_pos s)) (take ?k recs) (unat (sp_send_pos s))"
    "chain (hop s) (unat (sp_send_pos s)) (drop ?k recs) (unat (sp_commit_pos s))"
    using assms(1) by (simp_all add: inv_chain_def)
  have "(q, n) \<in> set (take ?k recs) \<or> (q, n) \<in> set (drop ?k recs)"
    using assms(2) by (metis Un_iff append_take_drop_id set_append)
  then show "unat (sp_ack_pos s) \<le> q" "q + n \<le> unat (sp_commit_pos s)" "0 < n"
    using chain_starts [OF ch(1)] chain_starts [OF ch(2)] chain_le [OF ch(1)] chain_le [OF ch(2)]
    by fastforce+
qed

lemma commit_is_end:
  assumes "inv_chain s recs" "sp_wrap_gap_bytes s = 0"
  shows "unat (sp_commit_pos s) \<in> set (ends (unat (sp_ack_pos s)) recs)"
proof -
  let ?k = "unat (sp_sent_count s)"
  have l: "last (ends (unat (sp_ack_pos s)) (take ?k recs)) = unat (sp_send_pos s)"
    "last (ends (unat (sp_send_pos s)) (drop ?k recs)) = unat (sp_commit_pos s)"
    using chain_last [of s "unat (sp_ack_pos s)" "take ?k recs" "unat (sp_send_pos s)"]
      chain_last [of s "unat (sp_send_pos s)" "drop ?k recs" "unat (sp_commit_pos s)"] assms
    by (simp_all add: inv_chain_def)
  have e: "set (ends (unat (sp_ack_pos s)) recs) =
      set (ends (unat (sp_ack_pos s)) (take ?k recs)) \<union> set (map (\<lambda>(q, n). q + n) (drop ?k recs))"
    by (metis append_take_drop_id ends_append)
  have "unat (sp_send_pos s) \<in> set (ends (unat (sp_ack_pos s)) (take ?k recs))"
    using l(1) last_ends_in by metis
  moreover have "unat (sp_commit_pos s) = unat (sp_send_pos s) \<or>
      unat (sp_commit_pos s) \<in> set (map (\<lambda>(q, n). q + n) (drop ?k recs))"
    using l(2) last_ends_in [of "unat (sp_send_pos s)" "drop ?k recs"] by (auto simp: ends_def)
  ultimately show ?thesis using e by auto
qed

lemma unat_of_nat_unat [simp]: "of_nat (unat (x :: u32)) = x"
  by simp

lemma reserve_keeps_queue:
  assumes inv: "queue_inv s recs" and inactive: "\<not> res_active (sp_reservation s)"
    and plan: "unat start = unat (sp_reserve_pos s) + unat gap" "unat start + unat tot < 2 ^ 32"
      "unat start + unat tot \<le> unat (sp_ack_pos s) + 0x100000"
      "unat start mod 0x100000 + unat tot \<le> 0x100000"
      "gap \<noteq> 0 \<Longrightarrow> sp_wrap_gap_bytes s = 0 \<and> unat start mod 0x100000 = 0 \<and>
         unat gap = 0x100000 - unat (sp_reserve_pos s) mod 0x100000"
      "256 < unat tot" "256 dvd unat tot"
    and res: "res_active r" "res_total_bytes r = tot" "res_header_addr r = spool_pos_addr start"
      "res_data_addr r = res_header_addr r + 256" "unat (res_source_record_bytes r) + 256 = unat tot"
      "res_type r \<noteq> 0" "unat (res_type r) < 5" "res_commit_state r = COMMIT_IDLE"
    and u: "sp_reserve_pos u = start + tot" "sp_reservation u = r"
      "sp_wrap_gap_bytes u = (if gap \<noteq> 0 then gap else sp_wrap_gap_bytes s)"
      "sp_wrap_gap_start u = (if gap \<noteq> 0 then sp_reserve_pos s else sp_wrap_gap_start s)"
      "sp_commit_pos u = sp_commit_pos s" "sp_ack_pos u = sp_ack_pos s" "sp_send_pos u = sp_send_pos s"
      "sp_sent_records u = sp_sent_records s" "sp_sent_head u = sp_sent_head s"
      "sp_sent_count u = sp_sent_count s" "sp_tx_cached u = sp_tx_cached s"
      "sp_tx_record u = sp_tx_record s"
      "st_pending_records (sp_stats u) = st_pending_records (sp_stats s)"
      "st_pending_bytes (sp_stats u) = st_pending_bytes (sp_stats s)"
  shows "queue_inv u recs"
proof -
  have i: "inv_shape s" "inv_chain s recs" "inv_gap s recs" "inv_res s" "inv_sent s recs" "inv_pend s recs"
    using inv by (simp_all add: queue_inv_def)
  note pos = inv_positions [OF inv]
  have cr: "sp_commit_pos s = sp_reserve_pos s" using i(4) inactive by (simp add: inv_res_def Let_def)
  have ru: "unat (sp_reserve_pos u) = unat start + unat tot" using u(1) plan(2) by (simp add: unat_add_no_wrap)
  have ug: "unat gap \<noteq> 0 \<longleftrightarrow> gap \<noteq> 0" by (simp add: unat_eq_zero)
  have hopw: "hop s x y \<Longrightarrow> hop u x y" for x y
    using plan(5) u(3,4) by (auto simp: hop_def)
  have cw: "chain (hop s) p rs t \<Longrightarrow> chain (hop u) p rs t" for p rs t
    by (erule chain_weaken) (rule hopw)
  have chain_u: "inv_chain u recs"
    using i(2) plan(3) ru u cw by (simp add: inv_chain_def)
  have gap_u: "inv_gap u recs"
  proof (cases "gap = 0")
    case True
    then show ?thesis using i(3) u ru plan(1) by (auto simp: inv_gap_def)
  next
    case False
    have g: "sp_wrap_gap_bytes s = 0" "unat start mod 0x100000 = 0"
      "unat gap = 0x100000 - unat (sp_reserve_pos s) mod 0x100000" using plan(5) False by auto
    have "256 dvd unat (sp_reserve_pos s) mod 0x100000"
      using pos(8) by (intro dvd_mod) simp_all
    then have "256 dvd unat gap" unfolding g(3) by (intro dvd_diff_nat) simp_all
    moreover have "\<forall>(q, n) \<in> set recs. q \<noteq> unat (sp_reserve_pos s)"
      using inv_record_bounds [OF i(2)] cr by fastforce
    moreover have "unat (sp_reserve_pos s) \<in> set (ends (unat (sp_ack_pos s)) recs)"
      using commit_is_end [OF i(2) g(1)] cr by simp
    ultimately show ?thesis
      using False u ru plan(1) g(2) pos(8) by (simp add: inv_gap_def)
  qed
  have tgt: "commit_target u = unat start"
  proof (cases "gap = 0")
    case True
    have "\<not> (sp_wrap_gap_bytes s \<noteq> 0 \<and> sp_commit_pos s = sp_wrap_gap_start s)"
    proof
      assume h: "sp_wrap_gap_bytes s \<noteq> 0 \<and> sp_commit_pos s = sp_wrap_gap_start s"
      then have "unat (sp_wrap_gap_start s) + unat (sp_wrap_gap_bytes s) \<le> unat (sp_reserve_pos s)"
        using i(3) by (simp add: inv_gap_def)
      moreover have "0 < unat (sp_wrap_gap_bytes s)" using h by (simp add: unat_gt_0)
      ultimately show False using h cr by simp
    qed
    then show ?thesis using True u cr plan(1) by (auto simp: commit_target_def)
  next
    case False
    then show ?thesis using u cr plan(1) by (simp add: commit_target_def)
  qed
  have tgt': "of_nat (commit_target u) = start" by (simp only: tgt unat_of_nat_unat)
  have res_u: "inv_res u"
    using res tgt tgt' ru plan(4,6,7) u(1,2) by (simp add: inv_res_def Let_def)
  have "inv_shape u" "inv_sent u recs" "inv_pend u recs"
    using i u by (simp_all add: inv_shape_def inv_sent_def sent_record_def inv_pend_def)
  then show ?thesis using chain_u gap_u res_u by (simp add: queue_inv_def)
qed

lemma mark_used_eq:
  "mark_sectors_used ks s = s\<lparr>
     sp_erased_bitmap := foldl (\<lambda>bm k. spool_bitmap_clear k bm) (sp_erased_bitmap s) ks,
     sp_dirty_bitmap := foldl (\<lambda>bm k. spool_bitmap_set k bm) (sp_dirty_bitmap s) ks,
     sp_reclaimable_bitmap := foldl (\<lambda>bm k. spool_bitmap_clear k bm) (sp_reclaimable_bitmap s) ks\<rparr>"
proof -
  let ?f = "\<lambda>s sector. s\<lparr>sp_erased_bitmap := spool_bitmap_clear sector (sp_erased_bitmap s),
          sp_dirty_bitmap := spool_bitmap_set sector (sp_dirty_bitmap s),
          sp_reclaimable_bitmap := spool_bitmap_clear sector (sp_reclaimable_bitmap s)\<rparr>"
  have "foldl ?f s ks = s\<lparr>
     sp_erased_bitmap := foldl (\<lambda>bm k. spool_bitmap_clear k bm) (sp_erased_bitmap s) ks,
     sp_dirty_bitmap := foldl (\<lambda>bm k. spool_bitmap_set k bm) (sp_dirty_bitmap s) ks,
     sp_reclaimable_bitmap := foldl (\<lambda>bm k. spool_bitmap_clear k bm) (sp_reclaimable_bitmap s) ks\<rparr>"
    by (induction ks arbitrary: s) simp_all
  then show ?thesis by (simp add: mark_sectors_used_def)
qed

lemma reserve_commit_plan_inv:
  assumes inv: "queue_inv s recs" and plan: "spool_build_reserve_plan rb s = (True, Some pl, b)"
    and small: "unat rb < 0xFFFFFF00" and kind: "0 < unat kind" "unat kind < 5"
    and out: "reserve_commit_plan kind sid rb pb pl s = (tgt, s')"
  shows "queue_inv s' recs"
proof -
  note p = plan_spec [OF plan small]
  let ?r = "reservation_zero\<lparr>res_active := True, res_type := ucast kind, res_source_id := sid,
                  res_capture_segment_id := sp_capture_segment_id s,
                  res_segment_start_offset_ms := sp_segment_start_offset_ms s,
                  res_record_id := sp_next_record_id s, res_token := sp_next_token s,
                  res_header_addr := plan_header_addr pl, res_data_addr := plan_header_addr pl + 256,
                  res_source_record_bytes := rb, res_payload_bytes := pb,
                  res_total_bytes := plan_total_bytes pl, res_crc := zy100_crc32_ieee_begin,
                  res_commit_state := COMMIT_IDLE\<rparr>"
  let ?u = "s\<lparr>sp_reservation := ?r,
      sp_wrap_gap_start := (if plan_gap_bytes pl \<noteq> 0 then sp_reserve_pos s else sp_wrap_gap_start s),
      sp_wrap_gap_bytes := (if plan_gap_bytes pl \<noteq> 0 then plan_gap_bytes pl else sp_wrap_gap_bytes s),
      sp_reserve_pos := plan_start_pos pl + plan_total_bytes pl\<rparr>"
  have core: "queue_core s' = queue_core ?u"
    using out unfolding reserve_commit_plan_def Let_def mark_used_eq
    by (auto simp: queue_core_def spool_core_def on_stats_def spool_refresh_stats_def Let_def)
  have k8: "unat (ucast kind :: u8) = unat kind" using kind(2) by (intro unat_ucast_32_8) simp
  have "queue_inv ?u recs"
  proof (rule reserve_keeps_queue [OF inv _ p(4,5,7,8)])
    show "\<not> res_active (sp_reservation s)" using p(1) by blast
    show "plan_gap_bytes pl \<noteq> 0 \<Longrightarrow> sp_wrap_gap_bytes s = 0 \<and>
        unat (plan_start_pos pl) mod 0x100000 = 0 \<and>
        unat (plan_gap_bytes pl) = 0x100000 - unat (sp_reserve_pos s) mod 0x100000"
      using p(10) by blast
    show "256 < unat (plan_total_bytes pl)" "256 dvd unat (plan_total_bytes pl)"
      using p(2,3) by (auto simp: dvd_eq_mod_eq_0)
    show "unat (res_type ?r) < 5" using k8 kind by simp
    show "unat (res_source_record_bytes ?r) + 256 = unat (plan_total_bytes pl)"
      using conjunct2 [OF p(3)] by simp
    show "res_type ?r \<noteq> 0" using k8 kind by (auto simp: word_unat_eq_iff)
  qed (use p in \<open>simp_all\<close>)
  then show ?thesis using queue_inv_cong [OF core] by blast
qed

lemma reserve_checked_cases:
  assumes "reserve_checked kind sid rb pb tgt s = (res, tgt', s')"
  shows "(res \<noteq> RESERVE_OK \<and> tgt' = tgt \<and> queue_core s' = queue_core s) \<or>
    (res = RESERVE_ERROR \<and> tgt' = tgt \<and> \<not> res_active (sp_reservation s) \<and>
      queue_core s' = queue_core (s\<lparr>sp_reservation := reservation_zero,
        sp_next_record_id := sp_next_record_id s + 1, sp_next_token := sp_next_token s + 1\<rparr>)) \<or>
    (res = RESERVE_OK \<and> 0 < unat kind \<and> unat kind < 5 \<and>
      (\<exists>pl b t. spool_build_reserve_plan rb s = (True, Some pl, b) \<and> tgt' = Some t \<and>
        sp_next_record_id s + 1 \<noteq> 0 \<and> sp_next_token s + 1 \<noteq> 0 \<and> sp_capture_segment_id s \<noteq> 0 \<and>
        reserve_commit_plan kind sid rb pb pl (s\<lparr>sp_reservation := reservation_zero,
          sp_next_record_id := sp_next_record_id s + 1, sp_next_token := sp_next_token s + 1\<rparr>) = (t, s')))"
proof -
  obtain ready plan block where plan: "spool_build_reserve_plan rb s = (ready, plan, block)"
    using prod_cases3 by blast
  have k: "kind \<noteq> 0 \<Longrightarrow> \<not> 5 \<le> kind \<Longrightarrow> 0 < unat kind \<and> unat kind < 5"
    by (simp add: unat_gt_0 word_le_nat_alt)
  show ?thesis
    using assms plan k
    unfolding reserve_checked_def Let_def
    by (auto split: if_splits option.splits bool.splits prod.splits)
qed

lemma attempt_core [simp]: "queue_core (reserve_attempt kind s) = queue_core s"
  by (simp add: reserve_attempt_def Let_def)

lemma plan_zero_reservation:
  assumes "\<not> res_active (sp_reservation s)"
  shows "spool_build_reserve_plan rb (s\<lparr>sp_reservation := reservation_zero, sp_next_record_id := i,
      sp_next_token := k\<rparr>) = spool_build_reserve_plan rb s"
proof -
  let ?z = "s\<lparr>sp_reservation := reservation_zero, sp_next_record_id := i, sp_next_token := k\<rparr>"
  have u: "spool_used_bytes ?z = spool_used_bytes s" by (simp add: spool_used_bytes_def)
  have r: "spool_reservation_sectors_ready a n ?z = spool_reservation_sectors_ready a n s" for a n
    by (simp add: spool_reservation_sectors_ready_def)
  have f: "sp_reserve_pos ?z = sp_reserve_pos s" "sp_session_active ?z = sp_session_active s"
    "sp_wrap_gap_bytes ?z = sp_wrap_gap_bytes s"
    "res_active (sp_reservation ?z) = res_active (sp_reservation s)"
    using assms by (simp_all add: reservation_zero_def)
  show ?thesis
    using assms unfolding spool_build_reserve_plan_def u r f by simp
qed

lemma zero_reservation_inv:
  assumes "queue_inv s recs" "\<not> res_active (sp_reservation s)"
  shows "queue_inv (s\<lparr>sp_reservation := reservation_zero, sp_next_record_id := i,
      sp_next_token := k\<rparr>) recs"
proof -
  let ?u = "s\<lparr>sp_reservation := reservation_zero, sp_next_record_id := i, sp_next_token := k\<rparr>"
  have h: "hop ?u = hop s" by (rule hop_cong) simp_all
  show ?thesis
    using assms unfolding queue_inv_def queue_inv_defs sent_record_def Let_def h
    by (auto simp: reservation_zero_def)
qed

lemma reserve_inv:
  assumes inv: "queue_inv s recs" and small: "unat rb < 0xFFFFFF00"
    and out: "spool_provider_reserve kind sid rb pb tgt s = (res, tgt', s')"
  shows "queue_inv s' recs"
proof -
  let ?s = "reserve_attempt kind s"
  let ?z = "?s\<lparr>sp_reservation := reservation_zero,
        sp_next_record_id := sp_next_record_id ?s + 1, sp_next_token := sp_next_token ?s + 1\<rparr>"
  have i: "queue_inv ?s recs" using inv queue_inv_cong [OF attempt_core] by blast
  have r: "reserve_checked kind sid rb pb tgt ?s = (res, tgt', s')"
    using out by (simp add: spool_provider_reserve_def)
  consider "queue_core s' = queue_core ?s"
    | "\<not> res_active (sp_reservation ?s)" "queue_core s' = queue_core ?z"
    | pl b t where "0 < unat kind" "unat kind < 5" "spool_build_reserve_plan rb ?s = (True, Some pl, b)"
        "reserve_commit_plan kind sid rb pb pl ?z = (t, s')"
    using reserve_checked_cases [OF r] by blast
  then show ?thesis
  proof cases
    case 1 then show ?thesis using i queue_inv_cong by blast
  next
    case 2 then show ?thesis using zero_reservation_inv [OF i] queue_inv_cong by blast
  next
    case 3
    have inactive: "\<not> res_active (sp_reservation ?s)" using plan_spec(1) [OF 3(3) small] by blast
    have "spool_build_reserve_plan rb ?z = (True, Some pl, b)"
      using 3(3) plan_zero_reservation [OF inactive] by simp
    then show ?thesis
      using reserve_commit_plan_inv [OF zero_reservation_inv [OF i inactive] _ small 3(1,2,4)] by blast
  qed
qed

end
