(* ===== verification/SpoolQueue.thy ===== *)
theory SpoolQueue
  imports SpoolInv
begin

text \<open>
  The invariant of the record queue is kept by the commit pump, the transmit window and the
  acknowledgement.
\<close>

unbundle bit_operations_syntax

section \<open>Operations that leave the queue alone\<close>

lemma core_spool_error [simp]:
  assumes "\<And>st. st_pending_records (counter (\<lambda>n. n + 1) st) = st_pending_records st"
    "\<And>st. st_pending_bytes (counter (\<lambda>n. n + 1) st) = st_pending_bytes st"
  shows "queue_core (w_spool (spool_error counter code detail w)) = queue_core (w_spool w)"
  using assms by (simp add: spool_error_def)

lemma core_upd_fun [simp]:
  "queue_core (sp_page_update f s) = queue_core s"
  "queue_core (sp_progress_seq_update g s) = queue_core s"
  by (simp_all add: queue_core_def) (simp_all add: spool_core_def)

lemma core_notes [simp]:
  "queue_core (note_tx_spi_busy s) = queue_core s" "queue_core (note_tx_wip s) = queue_core s"
  by (simp_all add: note_tx_spi_busy_def note_tx_wip_def)

lemma retry_core [simp]:
  "queue_core (if b then s\<lparr>sp_page_retry_pending := v\<rparr> else s) = queue_core s"
  by simp

lemma read_page_frame:
  assumes "spool_read_page D kind addr n w = (st, w')"
  shows "queue_core (w_spool w') = queue_core (w_spool w) \<and>
    length (sp_page (w_spool w')) = length (sp_page (w_spool w)) \<and> w_stress w' = w_stress w"
  using assms
  by (auto simp: spool_read_page_def Let_def dest!: io_read_frame split: prod.splits)

lemma write_page_same:
  assumes "zy100_online_spool_write_reserved_page D token addr page w = (r, w')"
  shows "queue_core (w_spool w') = queue_core (w_spool w) \<and> w_stress w' = w_stress w"
proof (cases page)
  case None then show ?thesis
    using assms by (auto simp: zy100_online_spool_write_reserved_page_def spool_error_def)
next
  case (Some bytes)
  obtain st b w1 where io: "spool_io_busy D w = (st, b, w1)" by (rule prod_cases3)
  obtain st2 w2 where pr: "spool_io_program D addr bytes w1 = (st2, w2)" by fastforce
  show ?thesis
    using assms Some io_busy_frame [OF io] io_program_frame [OF pr]
    by (auto simp: zy100_online_spool_write_reserved_page_def io pr Let_def spool_error_def split: if_splits)
qed

lemma read_reserved_same:
  assumes "zy100_online_spool_read_reserved D token addr buf w = (r, buf', w')"
  shows "queue_core (w_spool w') = queue_core (w_spool w) \<and> w_stress w' = w_stress w"
proof (cases buf)
  case None then show ?thesis
    using assms by (auto simp: zy100_online_spool_read_reserved_def spool_error_def)
next
  case (Some old)
  obtain st b w1 where io: "spool_io_busy D w = (st, b, w1)" by (rule prod_cases3)
  obtain st2 bs w2 where rd: "spool_io_read D 1 addr old w1 = (st2, bs, w2)" by (rule prod_cases3)
  show ?thesis
    using assms Some io_busy_frame [OF io] io_read_frame [OF rd]
    by (auto simp: zy100_online_spool_read_reserved_def io rd Let_def spool_error_def split: if_splits)
qed

lemma read_same:
  assumes "zy100_online_spool_read D addr buf len w = (r, buf', w')"
  shows "queue_core (w_spool w') = queue_core (w_spool w) \<and> w_stress w' = w_stress w"
proof (cases buf)
  case None then show ?thesis using assms by (auto simp: zy100_online_spool_read_def)
next
  case (Some old)
  obtain ready w1 where tx: "spool_tx_read_ready D w = (ready, w1)" by fastforce
  obtain st2 bs w2 where rd: "spool_io_read D 2 addr (take (unat len) old) w1 = (st2, bs, w2)"
    by (rule prod_cases3)
  have "queue_core (w_spool w1) = queue_core (w_spool w)" "w_stress w1 = w_stress w"
    using tx_ready_frame [OF tx] queue_core_cong by blast+
  then show ?thesis
    using assms Some io_read_frame [OF rd]
    by (auto simp: zy100_online_spool_read_def tx rd Let_def spool_error_def split: if_splits)
qed

section \<open>Changes of the reservation\<close>

text \<open>A new reservation value keeps the invariant when it describes the same pages.\<close>

definition same_pages :: "spool_reservation \<Rightarrow> spool_reservation \<Rightarrow> bool" where
  "same_pages r r' \<longleftrightarrow> res_active r' = res_active r \<and> res_total_bytes r' = res_total_bytes r \<and>
     res_header_addr r' = res_header_addr r \<and> res_data_addr r' = res_data_addr r \<and>
     res_source_record_bytes r' = res_source_record_bytes r \<and> res_type r' = res_type r"

lemma on_res_sel [simp]: "sp_reservation (on_res f s) = f (sp_reservation s)"
  by (simp add: on_res_def)

lemma on_res_inv:
  assumes inv: "queue_inv s recs" and f: "same_pages (sp_reservation s) (f (sp_reservation s))"
    and st: "res_commit_state (f (sp_reservation s)) = COMMIT_HEADER_WIP \<or>
       res_commit_state (f (sp_reservation s)) = COMMIT_HEADER_VERIFY \<Longrightarrow>
       commit_target s = unat (sp_commit_pos s)"
  shows "queue_inv (on_res f s) recs"
proof -
  have h: "hop (on_res f s) = hop s" by (rule hop_cong) (simp_all add: on_res_def)
  have t: "commit_target (on_res f s) = commit_target s" by (simp add: commit_target_def on_res_def)
  show ?thesis
    using inv f st unfolding queue_inv_def queue_inv_defs sent_record_def Let_def h t same_pages_def
    by (auto simp: on_res_def)
qed

lemma commit_target_cong:
  "queue_core s = queue_core t \<Longrightarrow> commit_target s = commit_target t"
  using queue_fields [of s t] by (simp add: commit_target_def)

lemma on_res_core:
  assumes "queue_core s = queue_core t"
  shows "queue_core (on_res f s) = queue_core (on_res f t)"
proof -
  have e: "queue_core (on_res f u) = on_res f (queue_core u)" for u
    by (simp add: queue_core_def spool_core_def on_res_def)
  show ?thesis by (simp only: e assms)
qed

lemma inv_core: "queue_inv s recs \<Longrightarrow> queue_core s' = queue_core s \<Longrightarrow> queue_inv s' recs"
  using queue_inv_cong by blast

lemma provider_commit_inv:
  assumes i: "queue_inv s recs" and out: "spool_provider_commit token s = (r, s')"
  shows "queue_inv s' recs"
proof -
  let ?f = "\<lambda>r. r\<lparr>res_data_done := True, res_commit_state := COMMIT_CRC\<rparr>"
  have "queue_inv (on_res ?f s) recs"
    by (rule on_res_inv [OF i]) (simp_all add: same_pages_def)
  moreover have "s' = on_res ?f s \<or> queue_core s' = queue_core s"
    using out by (auto simp: spool_provider_commit_def Let_def on_res_def split: if_splits)
  ultimately show ?thesis using inv_core [OF i] by blast
qed

lemma commit_with_crc_inv:
  assumes i: "queue_inv s recs" and out: "zy100_online_spool_commit_with_crc token crc s = (r, s')"
  shows "queue_inv s' recs"
proof -
  let ?f = "\<lambda>r. r\<lparr>res_data_done := True, res_crc_final_valid := True, res_crc32_final := crc,
      res_commit_state := COMMIT_HEADER_READY\<rparr>"
  have "queue_inv (on_res ?f s) recs"
    by (rule on_res_inv [OF i]) (simp_all add: same_pages_def)
  moreover have "queue_core s' = queue_core (on_res ?f s) \<or> queue_core s' = queue_core s"
    using out by (auto simp: zy100_online_spool_commit_with_crc_def Let_def on_res_def split: if_splits)
  ultimately show ?thesis using inv_core i by blast
qed

lemma begin_inv: "queue_inv (zy100_online_spool_begin sid s) []"
proof (rule inv_core)
  let ?z = "spool_zero\<lparr>sp_session_active := True, sp_ready := True, sp_session_id := sid\<rparr>"
  show "queue_inv ?z []"
    by (simp add: queue_inv_def queue_inv_defs spool_zero_def reservation_zero_def stats_zero_def ends_def)
  show "queue_core (zy100_online_spool_begin sid s) = queue_core ?z"
    by (simp add: zy100_online_spool_begin_def)
      (simp add: queue_core_def spool_core_def spool_zero_def stats_zero_def)
qed

lemma note_segment_inv:
  assumes "queue_inv s recs"
  shows "queue_inv (zy100_online_spool_note_capture_segment seg ofs s) recs"
proof -
  let ?s = "s\<lparr>sp_capture_segment_id := seg, sp_segment_start_offset_ms := ofs\<rparr>"
  have h: "hop ?s = hop s" by (rule hop_cong) simp_all
  have "queue_inv ?s recs \<longleftrightarrow> queue_inv s recs"
    unfolding queue_inv_def queue_inv_defs sent_record_def commit_target_def Let_def h by simp
  then show ?thesis using assms by (simp add: zy100_online_spool_note_capture_segment_def)
qed

section \<open>The commit pump\<close>

lemma skip_gap_value_unat:
  assumes "queue_inv s recs"
  shows "unat (spool_skip_gap_value (sp_commit_pos s) s) = commit_target s"
    "unat (sp_commit_pos s) \<le> commit_target s"
proof -
  note pos = inv_positions [OF assms]
  have g: "sp_wrap_gap_bytes s \<noteq> 0 \<Longrightarrow>
      unat (sp_wrap_gap_start s) + unat (sp_wrap_gap_bytes s) \<le> unat (sp_reserve_pos s)"
    using assms by (simp add: queue_inv_def inv_gap_def)
  then have "sp_wrap_gap_bytes s \<noteq> 0 \<Longrightarrow>
      unat (sp_wrap_gap_start s + sp_wrap_gap_bytes s) = unat (sp_wrap_gap_start s) + unat (sp_wrap_gap_bytes s)"
    using unat_lt_32 [of "sp_reserve_pos s"] by (intro unat_add_32) linarith
  then show "unat (spool_skip_gap_value (sp_commit_pos s) s) = commit_target s"
    "unat (sp_commit_pos s) \<le> commit_target s"
    by (auto simp: spool_skip_gap_value_def commit_target_def)
qed

lemma skip_commit:
  assumes "queue_inv s recs"
  shows "spool_skip_gap (sp_commit_pos s) False s = (True, of_nat (commit_target s), s)"
proof -
  have "spool_skip_gap_value (sp_commit_pos s) s = of_nat (commit_target s)"
    using skip_gap_value_unat(1) [OF assms] by (metis unat_of_nat_unat)
  moreover have "\<not> spool_skip_gap_value (sp_commit_pos s) s < sp_commit_pos s"
    using skip_gap_value_unat [OF assms] by (simp add: word_less_nat_alt not_less)
  ultimately show ?thesis by (simp add: spool_skip_gap_def Let_def)
qed

lemma commit_target_lt:
  assumes "queue_inv s recs" "res_active (sp_reservation s)"
  shows "unat (of_nat (commit_target s) :: u32) = commit_target s"
    "commit_target s + unat (res_total_bytes (sp_reservation s)) = unat (sp_reserve_pos s)"
proof -
  show r: "commit_target s + unat (res_total_bytes (sp_reservation s)) = unat (sp_reserve_pos s)"
    using assms by (simp add: queue_inv_def inv_res_def Let_def)
  then have "commit_target s < 4294967296" using unat_lt_32 [of "sp_reserve_pos s"] by linarith
  then show "unat (of_nat (commit_target s) :: u32) = commit_target s"
    by (simp add: unat_of_nat take_bit_nat_eq_self_iff)
qed

lemma skip_commit_inv:
  assumes inv: "queue_inv s recs" and act: "res_active (sp_reservation s)"
  shows "queue_inv (s\<lparr>sp_commit_pos := of_nat (commit_target s)\<rparr>) recs"
    "commit_target (s\<lparr>sp_commit_pos := of_nat (commit_target s)\<rparr>) = commit_target s"
proof -
  let ?u = "s\<lparr>sp_commit_pos := of_nat (commit_target s)\<rparr>"
  note lt = commit_target_lt(1) [OF inv act]
  have i: "inv_shape s" "inv_chain s recs" "inv_gap s recs" "inv_res s" "inv_sent s recs" "inv_pend s recs"
    using inv by (simp_all add: queue_inv_def)
  have h: "hop ?u = hop s" by (rule hop_cong) simp_all
  have gap: "sp_wrap_gap_bytes s \<noteq> 0 \<Longrightarrow> 0 < unat (sp_wrap_gap_bytes s)" by (simp add: unat_gt_0)
  show t: "commit_target ?u = commit_target s"
  proof (cases "sp_wrap_gap_bytes s \<noteq> 0 \<and> sp_commit_pos s = sp_wrap_gap_start s")
    case True
    then have e: "commit_target s = unat (sp_wrap_gap_start s) + unat (sp_wrap_gap_bytes s)"
      by (simp add: commit_target_def)
    then have "(of_nat (commit_target s) :: u32) \<noteq> sp_wrap_gap_start s"
      using lt gap True by (metis less_add_same_cancel1 less_irrefl)
    then show ?thesis using lt by (simp add: commit_target_def [of ?u])
  next
    case False
    then have "commit_target s = unat (sp_commit_pos s)" by (auto simp: commit_target_def)
    then show ?thesis by (simp add: commit_target_def)
  qed
  have chain: "chain (hop s) (unat (sp_send_pos s)) (drop (unat (sp_sent_count s)) recs) (commit_target s)"
  proof (cases "sp_wrap_gap_bytes s \<noteq> 0 \<and> sp_commit_pos s = sp_wrap_gap_start s")
    case True
    then show ?thesis
      using i(2) chain_hop_end [of s "unat (sp_send_pos s)" "drop (unat (sp_sent_count s)) recs"]
      by (auto simp: inv_chain_def commit_target_def)
  next
    case False
    then have "commit_target s = unat (sp_commit_pos s)" by (auto simp: commit_target_def)
    then show ?thesis using i(2) by (simp add: inv_chain_def)
  qed
  have "inv_chain ?u recs" using i(2) chain lt h by (simp add: inv_chain_def)
  moreover have "inv_res ?u" using i(4) act t lt by (auto simp: inv_res_def Let_def)
  moreover have "inv_gap ?u recs" "inv_shape ?u" "inv_sent ?u recs" "inv_pend ?u recs"
    using i by (simp_all add: inv_gap_def inv_shape_def inv_sent_def sent_record_def inv_pend_def)
  ultimately show "queue_inv ?u recs" by (simp add: queue_inv_def)
qed

lemma sum_list_bound:
  "chain (hop s) p rs t \<Longrightarrow> p + sum_list (map snd rs) \<le> t \<and> 256 * length rs \<le> sum_list (map snd rs)"
proof (induction rs arbitrary: p)
  case Nil then show ?case by (auto dest: hop_le)
next
  case (Cons y rs)
  obtain q n where y: "y = (q, n)" by (cases y)
  have h: "hop s p q" "0 < n" "256 dvd n" "chain (hop s) (q + n) rs t" using Cons.prems y by auto
  then have "256 \<le> n" by (auto dest: dvd_imp_le)
  then show ?case using Cons.IH [OF h(4)] hop_le [OF h(1)] y by simp
qed

lemma inv_pending_bound:
  assumes "inv_chain s recs"
  shows "unat (sp_ack_pos s) + sum_list (map snd recs) \<le> unat (sp_commit_pos s)"
    "256 * length recs \<le> sum_list (map snd recs)"
proof -
  let ?k = "unat (sp_sent_count s)"
  have b: "unat (sp_ack_pos s) + sum_list (map snd (take ?k recs)) \<le> unat (sp_send_pos s)"
    "256 * length (take ?k recs) \<le> sum_list (map snd (take ?k recs))"
    "unat (sp_send_pos s) + sum_list (map snd (drop ?k recs)) \<le> unat (sp_commit_pos s)"
    "256 * length (drop ?k recs) \<le> sum_list (map snd (drop ?k recs))"
    using assms sum_list_bound unfolding inv_chain_def by blast+
  have s: "sum_list (map snd recs) = sum_list (map snd (take ?k recs)) + sum_list (map snd (drop ?k recs))"
    by (metis append_take_drop_id map_append sum_list_append)
  have l: "length recs = length (take ?k recs) + length (drop ?k recs)"
    by (metis append_take_drop_id length_append)
  show "unat (sp_ack_pos s) + sum_list (map snd recs) \<le> unat (sp_commit_pos s)"
    "256 * length recs \<le> sum_list (map snd recs)"
    using b s l by linarith+
qed

text \<open>A committed record joins the queue.\<close>

lemma commit_done_inv:
  assumes inv: "queue_inv s recs" and act: "res_active (sp_reservation s)"
    and tgt: "commit_target s = unat (sp_commit_pos s)"
  shows "queue_inv (commit_done (s\<lparr>sp_commit_pos := sp_commit_pos s + res_total_bytes (sp_reservation s)\<rparr>))
     (recs @ [(unat (sp_commit_pos s), unat (res_total_bytes (sp_reservation s)))])"
proof -
  let ?n = "res_total_bytes (sp_reservation s)"
  let ?x = "(unat (sp_commit_pos s), unat ?n)"
  let ?p = "st_pending_bytes (sp_stats s) + ?n"
  let ?u = "s\<lparr>sp_commit_pos := sp_commit_pos s + ?n, sp_reservation := reservation_zero,
     sp_stats := (sp_stats s)\<lparr>st_pending_bytes := ?p,
       st_pending_records := st_pending_records (sp_stats s) + 1\<rparr>\<rparr>"
  have core: "queue_core (commit_done (s\<lparr>sp_commit_pos := sp_commit_pos s + ?n\<rparr>)) = queue_core ?u"
    by (simp add: commit_done_def Let_def)
      (simp add: on_stats_def queue_core_def spool_core_def)
  have i: "inv_shape s" "inv_chain s recs" "inv_gap s recs" "inv_res s" "inv_sent s recs" "inv_pend s recs"
    using inv by (simp_all add: queue_inv_def)
  note pos = inv_positions [OF inv] and pb = inv_pending_bound [OF i(2)]
  have r: "unat (sp_commit_pos s) + unat ?n = unat (sp_reserve_pos s)" "0 < unat ?n" "256 dvd unat ?n"
    using i(4) act tgt by (auto simp: inv_res_def Let_def)
  have uc: "unat (sp_commit_pos s + ?n) = unat (sp_commit_pos s) + unat ?n"
    using r(1) unat_lt_32 [of "sp_reserve_pos s"] by (intro unat_add_32) linarith
  have ce: "sp_commit_pos s + ?n = sp_reserve_pos s" using uc r(1) by (simp add: word_unat_eq_iff)
  have h: "hop ?u = hop s" by (rule hop_cong) simp_all
  have k: "unat (sp_sent_count s) \<le> length recs" using i(2) by (simp add: inv_chain_def)
  have "chain (hop s) (unat (sp_send_pos s)) (drop (unat (sp_sent_count s)) recs @ [?x])
      (unat (sp_commit_pos s) + unat ?n)"
    using i(2) r by (intro chain_snoc) (simp_all add: inv_chain_def)
  then have "inv_chain ?u (recs @ [?x])"
    using i(2) k uc by (simp add: inv_chain_def h)
  moreover have "inv_gap ?u (recs @ [?x])"
  proof -
    have "sp_wrap_gap_bytes s \<noteq> 0 \<Longrightarrow> unat (sp_commit_pos s) \<noteq> unat (sp_wrap_gap_start s)"
    proof
      assume g: "sp_wrap_gap_bytes s \<noteq> 0" "unat (sp_commit_pos s) = unat (sp_wrap_gap_start s)"
      then have "sp_commit_pos s = sp_wrap_gap_start s" by (simp add: word_unat_eq_iff)
      then have "unat (sp_wrap_gap_bytes s) = 0" using g tgt by (simp add: commit_target_def)
      then show False using g by (simp add: unat_eq_zero)
    qed
    then show ?thesis
      using i(3) by (auto simp: inv_gap_def ends_append)
  qed
  moreover have "inv_res ?u" using ce by (simp add: inv_res_def Let_def reservation_zero_def)
  moreover have "inv_sent ?u (recs @ [?x])"
    using i(5) k by (auto simp: inv_sent_def sent_record_def nth_append)
  moreover have "inv_pend ?u (recs @ [?x])"
  proof -
    have b: "unat (st_pending_bytes (sp_stats s)) = sum_list (map snd recs)"
      "unat (st_pending_records (sp_stats s)) = length recs" using i(6) by (simp_all add: inv_pend_def)
    have "unat ?p = sum_list (map snd recs) + unat ?n"
      using b(1) pb r(1) unat_lt_32 [of "sp_reserve_pos s"]
      by (subst unat_add_32) linarith+
    moreover have "unat (st_pending_records (sp_stats s) + 1) = length recs + 1"
      using b(2) pb unat_lt_32 [of "sp_commit_pos s"] by (subst unat_add_32) simp_all
    ultimately show ?thesis by (simp add: inv_pend_def)
  qed
  moreover have "inv_shape ?u" using i(1) by (simp add: inv_shape_def)
  ultimately have "queue_inv ?u (recs @ [?x])" by (simp add: queue_inv_def)
  then show ?thesis using inv_core core by blast
qed

text \<open>A step that moves the reservation without moving its pages.\<close>

definition res_step :: "spool_state \<Rightarrow> spool_state \<Rightarrow> bool" where
  "res_step s s' \<longleftrightarrow> (\<exists>r'. queue_core s' = queue_core (s\<lparr>sp_reservation := r'\<rparr>) \<and>
     same_pages (sp_reservation s) r' \<and>
     (res_commit_state r' \<in> {COMMIT_HEADER_WIP, COMMIT_HEADER_VERIFY} \<longrightarrow>
      res_commit_state (sp_reservation s) \<in> {COMMIT_HEADER_WIP, COMMIT_HEADER_VERIFY}))"

lemma res_step_core: "queue_core s' = queue_core s \<Longrightarrow> res_step s s'"
  unfolding res_step_def by (intro exI [of _ "sp_reservation s"]) (simp add: same_pages_def)

lemma res_step_on_res:
  assumes "queue_core s1 = queue_core s" "queue_core s' = queue_core (on_res f s1)"
    and "same_pages (sp_reservation s) (f (sp_reservation s))"
    and "res_commit_state (f (sp_reservation s)) \<in> {COMMIT_HEADER_WIP, COMMIT_HEADER_VERIFY} \<Longrightarrow>
      res_commit_state (sp_reservation s) \<in> {COMMIT_HEADER_WIP, COMMIT_HEADER_VERIFY}"
  shows "res_step s s'"
proof -
  have "queue_core s' = queue_core (on_res f s)" using assms(1,2) on_res_core by metis
  then show ?thesis
    unfolding res_step_def using assms(3,4)
    by (intro exI [of _ "f (sp_reservation s)"]) (auto simp: on_res_def)
qed

lemma core_set_res:
  assumes "queue_core s = queue_core t"
  shows "queue_core (s\<lparr>sp_reservation := r\<rparr>) = queue_core (t\<lparr>sp_reservation := r\<rparr>)"
  using on_res_core [OF assms, of "\<lambda>_. r"] by (simp add: on_res_def)

lemma res_step_trans:
  assumes "res_step a b" "res_step b c"
  shows "res_step a c"
proof -
  obtain r1 where r1: "queue_core b = queue_core (a\<lparr>sp_reservation := r1\<rparr>)"
    "same_pages (sp_reservation a) r1"
    "res_commit_state r1 \<in> {COMMIT_HEADER_WIP, COMMIT_HEADER_VERIFY} \<longrightarrow>
      res_commit_state (sp_reservation a) \<in> {COMMIT_HEADER_WIP, COMMIT_HEADER_VERIFY}"
    using assms(1) unfolding res_step_def by blast
  obtain r2 where r2: "queue_core c = queue_core (b\<lparr>sp_reservation := r2\<rparr>)"
    "same_pages (sp_reservation b) r2"
    "res_commit_state r2 \<in> {COMMIT_HEADER_WIP, COMMIT_HEADER_VERIFY} \<longrightarrow>
      res_commit_state (sp_reservation b) \<in> {COMMIT_HEADER_WIP, COMMIT_HEADER_VERIFY}"
    using assms(2) unfolding res_step_def by blast
  have b: "sp_reservation b = r1" using queue_fields(11) [OF r1(1)] by simp
  have "queue_core c = queue_core (a\<lparr>sp_reservation := r2\<rparr>)"
    using r2(1) core_set_res [OF r1(1), of r2] by simp
  then show ?thesis
    unfolding res_step_def using r1 r2 b by (intro exI [of _ r2]) (auto simp: same_pages_def)
qed

lemma res_step_inv:
  assumes inv: "queue_inv s recs" and st: "res_step s s'" and act: "res_active (sp_reservation s)"
  shows "queue_inv s' recs"
proof -
  obtain r' where r': "queue_core s' = queue_core (s\<lparr>sp_reservation := r'\<rparr>)"
    "same_pages (sp_reservation s) r'"
    "res_commit_state r' \<in> {COMMIT_HEADER_WIP, COMMIT_HEADER_VERIFY} \<longrightarrow>
      res_commit_state (sp_reservation s) \<in> {COMMIT_HEADER_WIP, COMMIT_HEADER_VERIFY}"
    using st unfolding res_step_def by blast
  have "inv_res s" using inv by (simp add: queue_inv_def)
  then have "res_commit_state (sp_reservation s) \<in> {COMMIT_HEADER_WIP, COMMIT_HEADER_VERIFY} \<Longrightarrow>
      commit_target s = unat (sp_commit_pos s)"
    using act by (auto simp: inv_res_def Let_def)
  then have "queue_inv (on_res (\<lambda>_. r') s) recs"
    using r'(2,3) by (intro on_res_inv [OF inv]) auto
  then show ?thesis using inv_core r'(1) by (simp add: on_res_def)
qed

lemma crc_step_res:
  assumes cs: "res_commit_state (sp_reservation (w_spool w)) = COMMIT_CRC"
    and out: "commit_crc_step D w = (r, w')"
  shows "res_step (w_spool w) (w_spool w') \<and> r \<noteq> PUMP_COMMITTED"
proof -
  let ?r = "sp_reservation (w_spool w)"
  obtain t w1 where ts: "local_timestamp_us D w = (t, w1)" by fastforce
  obtain len :: u32 where len: "len = (if res_source_record_bytes ?r - res_crc_offset ?r > 256 then 256
      else ucast (ucast (res_source_record_bytes ?r - res_crc_offset ?r) :: u16))" by blast
  obtain st w2 where rd: "spool_read_page D 1 (res_data_addr ?r + res_crc_offset ?r) (unat len) w1 = (st, w2)"
    by fastforce
  have c2: "queue_core (w_spool w2) = queue_core (w_spool w)"
    using read_page_frame [OF rd] timestamp_frame [OF ts] by simp
  let ?f = "\<lambda>r. r\<lparr>res_crc := zy100_crc32_ieee_update (res_crc r) (take (unat len) (sp_page (w_spool w2)))\<rparr>"
  obtain t4 w4 where ts4: "local_timestamp_us D (on_spool (\<lambda>s. on_res (\<lambda>r. r\<lparr>res_crc :=
      zy100_crc32_ieee_update (res_crc r) (take (unat len) (sp_page s))\<rparr>) s) w2) = (t4, w4)" by fastforce
  have c4: "w_spool w4 = on_res ?f (w_spool w2)" using timestamp_frame [OF ts4] by simp
  have s4: "res_step (w_spool w) (w_spool w4)"
    by (rule res_step_on_res [OF c2, where f = ?f]) (simp_all add: c4 same_pages_def)
  let ?g = "\<lambda>r. r\<lparr>res_crc_offset := res_crc_offset r + len\<rparr>"
  let ?h = "\<lambda>r. r\<lparr>res_commit_state := COMMIT_HEADER_READY\<rparr>"
  have step: "res_step (w_spool w) s'" if "queue_core s' = queue_core (on_res ?g (w_spool w4)) \<or>
      queue_core s' = queue_core (on_res ?h (on_res ?g (w_spool w4)))" for s'
  proof -
    have a: "res_step (w_spool w) (on_res ?g (w_spool w4))"
      using s4 by (rule res_step_trans) (rule res_step_on_res [where f = ?g], auto simp: same_pages_def)
    have b: "res_step (w_spool w) (on_res ?h (on_res ?g (w_spool w4)))"
      using a by (rule res_step_trans) (rule res_step_on_res [where f = ?h], auto simp: same_pages_def)
    show ?thesis using that res_step_trans [OF a res_step_core] res_step_trans [OF b res_step_core] by blast
  qed
  let ?st = "\<lambda>s. on_stats (\<lambda>st. st\<lparr>st_crc_total_us := st_crc_total_us st + (t4 - t),
      st_crc_max_us := (if t4 - t > st_crc_max_us st then t4 - t else st_crc_max_us st),
      st_crc_pages := st_crc_pages st + 1\<rparr>) s"
  have q: "queue_core (on_res ?g (inc sp_progress_seq_update (?st s))) = queue_core (on_res ?g s)"
    "queue_core (on_res ?h (on_res ?g (inc sp_progress_seq_update (?st s)))) =
     queue_core (on_res ?h (on_res ?g s))" for s
    by (intro on_res_core, simp)+
  have "r \<noteq> PUMP_COMMITTED \<and> (queue_core (w_spool w') = queue_core (w_spool w) \<or>
      queue_core (w_spool w') = queue_core (on_res ?g (w_spool w4)) \<or>
      queue_core (w_spool w') = queue_core (on_res ?h (on_res ?g (w_spool w4))))"
    using out unfolding commit_crc_step_def Let_def ts prod.case len [symmetric] rd ts4
    using c2 q by (auto split: if_splits)
  then show ?thesis using step res_step_core by blast
qed

lemma header_step_inv:
  assumes inv: "queue_inv (w_spool w) recs" and act: "res_active (sp_reservation (w_spool w))"
    and out: "commit_header_step D w = (r, w')"
  shows "queue_inv (w_spool w') recs \<and> r \<noteq> PUMP_COMMITTED"
proof -
  let ?s = "w_spool w" and ?u = "(w_spool w)\<lparr>sp_commit_pos := of_nat (commit_target (w_spool w))\<rparr>"
  note u = skip_commit_inv [OF inv act]
  have sk: "spool_skip_gap (sp_commit_pos ?s) False ?s = (True, of_nat (commit_target ?s), ?s)"
    by (rule skip_commit [OF inv])
  let ?w1 = "on_spool (\<lambda>_. ?u) w"
  let ?w2 = "on_spool spool_fill_header ?w1"
  obtain st w3 where pr: "spool_io_program D (res_header_addr (sp_reservation ?u)) (sp_page (w_spool ?w2)) ?w2 = (st, w3)"
    by fastforce
  have c3: "queue_core (w_spool w3) = queue_core ?u"
    using io_program_frame [OF pr] by (simp add: spool_fill_header_def Let_def)
  let ?f = "\<lambda>r. r\<lparr>res_commit_state := COMMIT_HEADER_WIP\<rparr>"
  have q: "queue_core (inc sp_progress_seq_update (on_stats (inc st_header_programs_update) (on_res ?f (w_spool w3))))
      = queue_core (on_res ?f ?u)"
    using on_res_core [OF c3, of ?f] by simp
  have "r \<noteq> PUMP_COMMITTED \<and> (queue_core (w_spool w') = queue_core ?u \<or>
      queue_core (w_spool w') = queue_core (on_res ?f ?u))"
    using out unfolding commit_header_step_def Let_def sk prod.case pr
    using c3 q by (auto split: if_splits)
  moreover have "queue_inv (on_res ?f ?u) recs"
    by (rule on_res_inv [OF u(1)])
      (simp_all add: same_pages_def u(2) commit_target_lt [OF inv act])
  ultimately show ?thesis using inv_core u(1) by blast
qed

lemma verify_step_inv:
  assumes inv: "queue_inv (w_spool w) recs" and act: "res_active (sp_reservation (w_spool w))"
    and tgt: "commit_target (w_spool w) = unat (sp_commit_pos (w_spool w))"
    and out: "commit_verify_step D w = (r, w')"
  shows "queue_inv (w_spool w') (if r = PUMP_COMMITTED
     then recs @ [(unat (sp_commit_pos (w_spool w)), unat (res_total_bytes (sp_reservation (w_spool w))))]
     else recs)"
proof -
  let ?s = "w_spool w"
  obtain st w1 where rd: "spool_read_page D 1 (res_header_addr (sp_reservation ?s)) 256 w = (st, w1)"
    by fastforce
  have c1: "queue_core (w_spool w1) = queue_core ?s" using read_page_frame [OF rd] by simp
  note f = queue_fields [OF c1]
  have i1: "queue_inv (w_spool w1) recs" using inv_core [OF inv c1] .
  have t1: "commit_target (w_spool w1) = unat (sp_commit_pos (w_spool w1))"
    using tgt commit_target_cong [OF c1] f(6) by simp
  have a1: "res_active (sp_reservation (w_spool w1))" using act f(11) by simp
  let ?c = "commit_done ((w_spool w1)\<lparr>sp_commit_pos :=
      sp_commit_pos (w_spool w1) + res_total_bytes (sp_reservation ?s)\<rparr>)"
  have fin: "queue_inv ?c (recs @ [(unat (sp_commit_pos ?s), unat (res_total_bytes (sp_reservation ?s)))])"
    using commit_done_inv [OF i1 a1 t1] f(6,11) by simp
  have le: "\<not> sp_commit_pos (w_spool w1) + res_total_bytes (sp_reservation ?s) > sp_reserve_pos (w_spool w1)"
  proof -
    have e: "unat (sp_commit_pos (w_spool w1)) + unat (res_total_bytes (sp_reservation (w_spool w1))) =
        unat (sp_reserve_pos (w_spool w1))"
      using commit_target_lt(2) [OF i1 a1] t1 by simp
    then have "unat (sp_commit_pos (w_spool w1) + res_total_bytes (sp_reservation (w_spool w1))) =
        unat (sp_reserve_pos (w_spool w1))"
      using unat_lt_32 [of "sp_reserve_pos (w_spool w1)"] by (subst unat_add_32) simp_all
    then show ?thesis by (simp add: word_less_nat_alt f(11))
  qed
  have "(r \<noteq> PUMP_COMMITTED \<and> queue_core (w_spool w') = queue_core ?s) \<or>
      (r = PUMP_COMMITTED \<and> w_spool w' = ?c)"
    using out le unfolding commit_verify_step_def Let_def rd prod.case
    using c1 by (auto split: if_splits)
  then show ?thesis using fin inv_core [OF inv] by auto
qed

lemma pump_inv:
  assumes inv: "queue_inv (w_spool w) recs"
    and out: "zy100_online_spool_commit_pump_once D allow w = (r, w')"
  shows "queue_inv (w_spool w') (if r = PUMP_COMMITTED
     then recs @ [(unat (sp_commit_pos (w_spool w)), unat (res_total_bytes (sp_reservation (w_spool w))))]
     else recs)"
proof -
  let ?s = "w_spool w"
  obtain ob w1 where ow: "bus_owner_none D w = (ob, w1)" by fastforce
  obtain st bu w2 where io: "spool_io_busy D w1 = (st, bu, w2)" by (rule prod_cases3)
  have s2: "w_spool w1 = ?s" "w_spool w2 = ?s"
    using owner_frame [OF ow] io_busy_frame [OF io] by simp_all
  let ?r = "sp_reservation ?s"
  let ?w3 = "if res_commit_state ?r = COMMIT_HEADER_WIP
      then on_spool (on_res (\<lambda>r. r\<lparr>res_commit_state := COMMIT_HEADER_VERIFY\<rparr>)) w2 else w2"
  have step3: "res_step ?s (w_spool ?w3)"
  proof (cases "res_commit_state ?r = COMMIT_HEADER_WIP")
    case True
    then show ?thesis
      by (intro res_step_on_res [of ?s _ _ "\<lambda>r. r\<lparr>res_commit_state := COMMIT_HEADER_VERIFY\<rparr>"])
        (simp_all add: s2 same_pages_def)
  next
    case False then show ?thesis by (simp add: s2 res_step_core)
  qed
  note unf = zy100_online_spool_commit_pump_once_def Let_def ow io prod.case
  show ?thesis
  proof (cases "res_active ?r \<and> res_data_done ?r \<and> ob \<and> st = IMU_STATUS_OK \<and> \<not> bu")
    case False
    then have "r \<noteq> PUMP_COMMITTED \<and> queue_core (w_spool w') = queue_core ?s"
      using out s2 unfolding unf by (auto split: if_splits)
    then show ?thesis using inv_core [OF inv] by simp
  next
    case True
    then have act: "res_active ?r" by blast
    have run: "(r, w') = (if res_commit_state ?r = COMMIT_CRC
        then (if \<not> allow then (PUMP_IDLE, w2) else commit_crc_step D w2)
        else if res_commit_state ?r = COMMIT_HEADER_READY then commit_header_step D w2
        else if res_commit_state ?r = COMMIT_HEADER_WIP \<or> res_commit_state ?r = COMMIT_HEADER_VERIFY
        then (if \<not> allow then (PUMP_IDLE, ?w3) else commit_verify_step D ?w3)
        else (PUMP_ERROR, spool_error st_state_errors_update 10 (commit_state_code (res_commit_state ?r)) w2))"
      using out True unfolding unf s2 by simp
    have cr: "commit_crc_step D w2 = (r, w') \<Longrightarrow> res_commit_state ?r = COMMIT_CRC \<Longrightarrow>
        res_step ?s (w_spool w') \<and> r \<noteq> PUMP_COMMITTED"
      using crc_step_res [of w2 D r w'] s2 by simp
    have c3: "sp_commit_pos (w_spool ?w3) = sp_commit_pos ?s"
      "res_total_bytes (sp_reservation (w_spool ?w3)) = res_total_bytes ?r"
      "res_active (sp_reservation (w_spool ?w3))" "commit_target (w_spool ?w3) = commit_target ?s"
      using s2 act by (simp_all add: on_res_def commit_target_def)
    have vf: ?thesis if v: "commit_verify_step D ?w3 = (r, w')"
        "res_commit_state ?r = COMMIT_HEADER_WIP \<or> res_commit_state ?r = COMMIT_HEADER_VERIFY"
    proof -
      have "commit_target ?s = unat (sp_commit_pos ?s)"
        using inv v(2) act by (auto simp: queue_inv_def inv_res_def Let_def)
      then have "commit_target (w_spool ?w3) = unat (sp_commit_pos (w_spool ?w3))" by (simp only: c3)
      then show ?thesis
        using verify_step_inv [OF res_step_inv [OF inv step3 act] c3(3) _ v(1)] by (simp only: c3)
    qed
    show ?thesis
    proof (cases "res_commit_state ?r")
      case COMMIT_CRC
      then show ?thesis using run cr res_step_inv [OF inv _ act] inv s2 by (cases allow) auto
    next
      case COMMIT_HEADER_READY
      then show ?thesis using run header_step_inv [of w2 recs D r w'] inv s2 act by simp
    next
      case COMMIT_HEADER_WIP
      show ?thesis
      proof (cases allow)
        case True then show ?thesis using run COMMIT_HEADER_WIP vf by simp
      next
        case False
        then have "r = PUMP_IDLE" "w' = ?w3" using run COMMIT_HEADER_WIP by simp_all
        then show ?thesis using res_step_inv [OF inv step3 act] by simp
      qed
    next
      case COMMIT_HEADER_VERIFY
      show ?thesis
      proof (cases allow)
        case True then show ?thesis using run COMMIT_HEADER_VERIFY vf by simp
      next
        case False
        then have "r = PUMP_IDLE" "w' = ?w3" using run COMMIT_HEADER_VERIFY by simp_all
        then show ?thesis using res_step_inv [OF inv step3 act] by simp
      qed
    next
      case COMMIT_IDLE
      then have "r = PUMP_ERROR" "queue_core (w_spool w') = queue_core ?s" using run s2 by simp_all
      then show ?thesis using inv_core [OF inv] by simp
    qed
  qed
qed

section \<open>Abort\<close>

text \<open>A chain that ends a record at the gap either stops there or continues behind the gap.\<close>

lemma chain_over_gap:
  assumes "chain (hop s) p rs t" "sp_wrap_gap_bytes s \<noteq> 0"
    "unat (sp_wrap_gap_start s) \<in> set (ends p rs)"
    "\<forall>(q, n) \<in> set rs. q \<noteq> unat (sp_wrap_gap_start s)"
  shows "t = unat (sp_wrap_gap_start s) \<or> unat (sp_wrap_gap_start s) + unat (sp_wrap_gap_bytes s) \<le> t"
  using assms(1,3,4)
proof (induction rs arbitrary: p)
  case Nil then show ?case by (auto simp: hop_def ends_def)
next
  case (Cons y rs)
  obtain q n where y: "y = (q, n)" by (cases y)
  have h: "hop s p q" "chain (hop s) (q + n) rs t" "q \<noteq> unat (sp_wrap_gap_start s)"
    using Cons.prems y by auto
  show ?case
  proof (cases "p = unat (sp_wrap_gap_start s)")
    case True
    then have "q = unat (sp_wrap_gap_start s) + unat (sp_wrap_gap_bytes s)" using h by (auto simp: hop_def)
    then show ?thesis using chain_le [OF h(2)] by simp
  next
    case False
    then have "unat (sp_wrap_gap_start s) \<in> set (ends (q + n) rs)"
      using Cons.prems(2) y by (auto simp: ends_def)
    then show ?thesis using Cons.IH [OF h(2)] Cons.prems(3) by simp
  qed
qed

lemma gap_behind_commit:
  assumes "inv_chain s recs" "inv_gap s recs" "sp_wrap_gap_bytes s \<noteq> 0"
  shows "unat (sp_commit_pos s) = unat (sp_wrap_gap_start s) \<or>
    unat (sp_wrap_gap_start s) + unat (sp_wrap_gap_bytes s) \<le> unat (sp_commit_pos s)"
proof -
  let ?k = "unat (sp_sent_count s)" and ?g = "unat (sp_wrap_gap_start s)"
  have ch: "chain (hop s) (unat (sp_ack_pos s)) (take ?k recs) (unat (sp_send_pos s))"
    "chain (hop s) (unat (sp_send_pos s)) (drop ?k recs) (unat (sp_commit_pos s))"
    using assms(1) by (simp_all add: inv_chain_def)
  have nq: "\<forall>(q, n) \<in> set (take ?k recs). q \<noteq> ?g" "\<forall>(q, n) \<in> set (drop ?k recs). q \<noteq> ?g"
    using assms(2,3) set_take_subset [of ?k recs] set_drop_subset [of ?k recs] by (auto simp: inv_gap_def)
  have "?g \<in> set (ends (unat (sp_ack_pos s)) (take ?k recs @ drop ?k recs))"
    using assms(2,3) by (simp add: inv_gap_def)
  then consider "?g \<in> set (ends (unat (sp_ack_pos s)) (take ?k recs))"
    | "?g \<in> set (ends (unat (sp_send_pos s)) (drop ?k recs))"
    using set_subset_Cons [of "map (\<lambda>(q, n). q + n) (drop ?k recs)" "unat (sp_send_pos s)"]
    unfolding ends_append Un_iff ends_def [of _ "drop ?k recs"] by blast
  then show ?thesis
  proof cases
    case 1
    from chain_over_gap [OF ch(1) assms(3) 1 nq(1)] show ?thesis
    proof
      assume "unat (sp_send_pos s) = ?g"
      then have "?g \<in> set (ends (unat (sp_send_pos s)) (drop ?k recs))" by (simp add: ends_def)
      then show ?thesis by (rule chain_over_gap [OF ch(2) assms(3) _ nq(2)])
    next
      assume "?g + unat (sp_wrap_gap_bytes s) \<le> unat (sp_send_pos s)"
      then show ?thesis using chain_le [OF ch(2)] by simp
    qed
  next
    case 2 then show ?thesis by (rule chain_over_gap [OF ch(2) assms(3) _ nq(2)])
  qed
qed

text \<open>A chain that stays below the end of the gap does not use it.\<close>

lemma chain_before_gap:
  assumes "chain (hop s) p rs t" "t < unat (sp_wrap_gap_start s) + unat (sp_wrap_gap_bytes s)"
  shows "chain (=) p rs t"
  using assms
proof (induction rs arbitrary: p)
  case Nil then show ?case by (auto simp: hop_def)
next
  case (Cons y rs)
  obtain q n where y: "y = (q, n)" by (cases y)
  have h: "hop s p q" "chain (hop s) (q + n) rs t" using Cons.prems y by auto
  have "q \<noteq> unat (sp_wrap_gap_start s) + unat (sp_wrap_gap_bytes s)"
    using chain_le [OF h(2)] Cons.prems(2) by simp
  then have "q = p" using h(1) by (auto simp: hop_def)
  then show ?case using Cons y by auto
qed

lemma unreserve_inv:
  assumes inv: "queue_inv s recs" and u: "sp_reserve_pos u = sp_commit_pos s"
      "\<not> res_active (sp_reservation u)" "sp_commit_pos u = sp_commit_pos s"
      "sp_ack_pos u = sp_ack_pos s" "sp_send_pos u = sp_send_pos s"
      "sp_sent_records u = sp_sent_records s" "sp_sent_head u = sp_sent_head s"
      "sp_sent_count u = sp_sent_count s" "sp_tx_cached u = sp_tx_cached s"
      "sp_tx_record u = sp_tx_record s"
      "st_pending_records (sp_stats u) = st_pending_records (sp_stats s)"
      "st_pending_bytes (sp_stats u) = st_pending_bytes (sp_stats s)"
    and gap: "(sp_wrap_gap_bytes u = sp_wrap_gap_bytes s \<and> sp_wrap_gap_start u = sp_wrap_gap_start s \<and>
        (sp_wrap_gap_bytes s \<noteq> 0 \<longrightarrow> sp_commit_pos s \<noteq> sp_wrap_gap_start s)) \<or>
      (sp_wrap_gap_bytes u = 0 \<and> sp_wrap_gap_start u = 0 \<and> sp_wrap_gap_bytes s \<noteq> 0 \<and>
       sp_commit_pos s = sp_wrap_gap_start s)"
  shows "queue_inv u recs"
proof -
  have i: "inv_shape s" "inv_chain s recs" "inv_gap s recs" "inv_res s" "inv_sent s recs" "inv_pend s recs"
    using inv by (simp_all add: queue_inv_def)
  note pos = inv_positions [OF inv]
  have rest: "inv_shape u" "inv_res u" "inv_sent u recs" "inv_pend u recs"
    using i u by (simp_all add: inv_shape_def inv_res_def inv_sent_def sent_record_def inv_pend_def Let_def)
  have rb: "unat (sp_commit_pos s) \<le> unat (sp_ack_pos s) + 0x100000"
    using i(2) pos(3) by (simp add: inv_chain_def)
  from gap show ?thesis
  proof
    assume g: "sp_wrap_gap_bytes u = sp_wrap_gap_bytes s \<and> sp_wrap_gap_start u = sp_wrap_gap_start s \<and>
        (sp_wrap_gap_bytes s \<noteq> 0 \<longrightarrow> sp_commit_pos s \<noteq> sp_wrap_gap_start s)"
    have h: "hop u = hop s" using g by (intro hop_cong) simp_all
    have "inv_chain u recs" using i(2) rb u h by (simp add: inv_chain_def)
    moreover have "inv_gap u recs"
      using i(3) g u gap_behind_commit [OF i(2,3)]
      by (auto simp: inv_gap_def word_unat_eq_iff)
    ultimately show ?thesis using rest by (simp add: queue_inv_def)
  next
    assume g: "sp_wrap_gap_bytes u = 0 \<and> sp_wrap_gap_start u = 0 \<and> sp_wrap_gap_bytes s \<noteq> 0 \<and>
       sp_commit_pos s = sp_wrap_gap_start s"
    then have lt: "unat (sp_commit_pos s) < unat (sp_wrap_gap_start s) + unat (sp_wrap_gap_bytes s)"
      by (simp add: unat_gt_0)
    have c: "chain (hop s) p rs t \<Longrightarrow> t \<le> unat (sp_commit_pos s) \<Longrightarrow> chain (hop u) p rs t" for p rs t
      using chain_eq_any [OF chain_before_gap] lt hop_refl by (meson le_less_trans)
    have "inv_chain u recs" using i(2) rb u c pos(2) by (simp add: inv_chain_def)
    moreover have "inv_gap u recs" using g by (simp add: inv_gap_def)
    ultimately show ?thesis using rest by (simp add: queue_inv_def)
  qed
qed

text \<open>The guard excludes the one case the code gets wrong: the commit has already crossed the gap.\<close>

definition abort_safe :: "spool_state \<Rightarrow> bool" where
  "abort_safe s \<longleftrightarrow> \<not> (sp_wrap_gap_bytes s \<noteq> 0 \<and> sp_commit_pos s = sp_wrap_gap_start s + sp_wrap_gap_bytes s)"

lemma abort_inv:
  assumes inv: "queue_inv s recs" and safe: "abort_safe s"
  shows "queue_inv (spool_provider_abort token s) recs"
proof -
  let ?r = "sp_reservation s"
  let ?start = "sp_reserve_pos s - res_total_bytes ?r"
  let ?merge = "sp_wrap_gap_bytes s \<noteq> 0 \<and> ?start = sp_wrap_gap_start s + sp_wrap_gap_bytes s"
  let ?u = "(if ?merge then s\<lparr>sp_reserve_pos := sp_wrap_gap_start s, sp_wrap_gap_start := 0, sp_wrap_gap_bytes := 0\<rparr>
     else s\<lparr>sp_reserve_pos := ?start\<rparr>)\<lparr>sp_reservation := reservation_zero\<rparr>"
  show ?thesis
  proof (cases "\<not> res_active ?r \<or> res_token ?r \<noteq> token")
    case True then show ?thesis using inv by (simp add: spool_provider_abort_def Let_def)
  next
    case False
    then have act: "res_active ?r" by simp
    note lt = commit_target_lt [OF inv act]
    have le: "res_total_bytes ?r \<le> sp_reserve_pos s" using lt(2) by (simp add: word_le_nat_alt)
    then have st: "unat ?start = commit_target s" using lt(2) by (simp add: unat_diff_le)
    have core: "queue_core (spool_provider_abort token s) = queue_core ?u"
      using False le by (simp add: spool_provider_abort_def Let_def)
        (simp add: on_stats_def queue_core_def spool_core_def)
    have gs: "sp_wrap_gap_bytes s \<noteq> 0 \<Longrightarrow> unat (sp_wrap_gap_start s + sp_wrap_gap_bytes s) =
        unat (sp_wrap_gap_start s) + unat (sp_wrap_gap_bytes s)"
      using inv unat_lt_32 [of "sp_reserve_pos s"] by (intro unat_add_32) (auto simp: queue_inv_def inv_gap_def)
    have gapcase: "?merge \<and> sp_commit_pos s = sp_wrap_gap_start s \<or>
        \<not> ?merge \<and> ?start = sp_commit_pos s \<and> (sp_wrap_gap_bytes s \<noteq> 0 \<longrightarrow> sp_commit_pos s \<noteq> sp_wrap_gap_start s)"
    proof (cases "sp_wrap_gap_bytes s \<noteq> 0 \<and> sp_commit_pos s = sp_wrap_gap_start s")
      case True
      then have "unat ?start = unat (sp_wrap_gap_start s + sp_wrap_gap_bytes s)"
        using st gs by (simp add: commit_target_def)
      then show ?thesis using True by (simp add: word_unat_eq_iff)
    next
      case False
      then have "unat ?start = unat (sp_commit_pos s)" using st by (auto simp: commit_target_def)
      then have "?start = sp_commit_pos s" by (simp add: word_unat_eq_iff)
      then show ?thesis using False safe by (auto simp: abort_safe_def)
    qed
    have "queue_inv ?u recs"
      using gapcase by (intro unreserve_inv [OF inv]) (auto simp: reservation_zero_def)
    then show ?thesis using inv_core core by blast
  qed
qed

end
