(* ===== verification/SpoolWindow.thy ===== *)
theory SpoolWindow
  imports SpoolQueue
begin

text \<open>
  The invariant of the record queue is kept by the transmit window and the acknowledgement, and
  with it by every run of the spool: the step relation, its reachable states and what they
  satisfy.
\<close>

unbundle bit_operations_syntax

section \<open>The transmit window\<close>

lemma skip_bounded:
  assumes inv: "queue_inv s recs"
  shows "spool_skip_gap_bounded p (sp_commit_pos s) rel s =
    (if sp_wrap_gap_bytes s \<noteq> 0 \<and> p = sp_wrap_gap_start s \<and>
        unat (sp_wrap_gap_start s) + unat (sp_wrap_gap_bytes s) \<le> unat (sp_commit_pos s)
     then (True, sp_wrap_gap_start s + sp_wrap_gap_bytes s,
           if rel then s\<lparr>sp_wrap_gap_start := 0, sp_wrap_gap_bytes := 0\<rparr> else s)
     else (True, p, s))"
proof -
  have g: "sp_wrap_gap_bytes s \<noteq> 0 \<Longrightarrow> unat (sp_wrap_gap_start s + sp_wrap_gap_bytes s) =
      unat (sp_wrap_gap_start s) + unat (sp_wrap_gap_bytes s) \<and> 0 < unat (sp_wrap_gap_bytes s)"
    using inv unat_lt_32 [of "sp_reserve_pos s"]
    by (intro conjI unat_add_32) (auto simp: queue_inv_def inv_gap_def unat_gt_0)
  show ?thesis
    using g by (auto simp: spool_skip_gap_bounded_def spool_skip_gap_value_def Let_def
        word_less_nat_alt word_le_nat_alt)
qed

lemma gap_end_unat:
  assumes "queue_inv s recs" "sp_wrap_gap_bytes s \<noteq> 0"
  shows "unat (sp_wrap_gap_start s + sp_wrap_gap_bytes s) =
      unat (sp_wrap_gap_start s) + unat (sp_wrap_gap_bytes s)" "0 < unat (sp_wrap_gap_bytes s)"
  using assms unat_lt_32 [of "sp_reserve_pos s"]
  by (auto simp: queue_inv_def inv_gap_def unat_gt_0 intro!: unat_add_32)

lemma chain_from_gap:
  assumes "chain (hop s) (unat (sp_wrap_gap_start s)) rs t" "sp_wrap_gap_bytes s \<noteq> 0"
    "\<forall>(q, n) \<in> set rs. q \<noteq> unat (sp_wrap_gap_start s)"
    "unat (sp_wrap_gap_start s) + unat (sp_wrap_gap_bytes s) \<le> t"
  shows "chain (=) (unat (sp_wrap_gap_start s) + unat (sp_wrap_gap_bytes s)) rs t"
proof -
  have b: "0 < unat (sp_wrap_gap_bytes s)" using assms(2) by (simp add: unat_gt_0)
  show ?thesis
  proof (cases rs)
    case Nil then show ?thesis using assms(1,4) b by (auto simp: hop_def)
  next
    case (Cons y rs')
    obtain q n where y: "y = (q, n)" by (cases y)
    have h: "hop s (unat (sp_wrap_gap_start s)) q" "0 < n" "256 dvd n" "chain (hop s) (q + n) rs' t"
      "q \<noteq> unat (sp_wrap_gap_start s)" using assms(1,3) Cons y by auto
    then have q: "q = unat (sp_wrap_gap_start s) + unat (sp_wrap_gap_bytes s)" by (auto simp: hop_def)
    have "chain (=) (q + n) rs' t" using chain_past_gap [OF h(4)] q b by simp
    then show ?thesis using Cons y q h by simp
  qed
qed

lemma inv_res_cong:
  "sp_wrap_gap_start u = sp_wrap_gap_start s \<Longrightarrow> sp_wrap_gap_bytes u = sp_wrap_gap_bytes s \<Longrightarrow>
   sp_commit_pos u = sp_commit_pos s \<Longrightarrow> sp_reserve_pos u = sp_reserve_pos s \<Longrightarrow>
   sp_reservation u = sp_reservation s \<Longrightarrow> inv_res u = inv_res s"
  by (simp add: inv_res_def commit_target_def)

lemma send_hop_inv:
  assumes inv: "queue_inv s recs" and nc: "\<not> sp_tx_cached s" and g: "sp_wrap_gap_bytes s \<noteq> 0"
    and sg: "sp_send_pos s = sp_wrap_gap_start s"
    and le: "unat (sp_wrap_gap_start s) + unat (sp_wrap_gap_bytes s) \<le> unat (sp_commit_pos s)"
  shows "queue_inv (s\<lparr>sp_send_pos := sp_wrap_gap_start s + sp_wrap_gap_bytes s\<rparr>) recs"
proof -
  let ?u = "s\<lparr>sp_send_pos := sp_wrap_gap_start s + sp_wrap_gap_bytes s\<rparr>" and ?k = "unat (sp_sent_count s)"
  have i: "inv_shape s" "inv_chain s recs" "inv_gap s recs" "inv_res s" "inv_sent s recs" "inv_pend s recs"
    using inv by (simp_all add: queue_inv_def)
  have h: "hop ?u = hop s" by (rule hop_cong) simp_all
  note e = gap_end_unat [OF inv g]
  have nq: "\<forall>(q, n) \<in> set (drop ?k recs). q \<noteq> unat (sp_wrap_gap_start s)"
    using i(3) g set_drop_subset [of ?k recs] by (auto simp: inv_gap_def)
  have "chain (=) (unat (sp_wrap_gap_start s) + unat (sp_wrap_gap_bytes s)) (drop ?k recs) (unat (sp_commit_pos s))"
    using i(2) sg by (intro chain_from_gap [OF _ g nq le]) (simp add: inv_chain_def)
  then have "chain (hop s) (unat (sp_wrap_gap_start s) + unat (sp_wrap_gap_bytes s)) (drop ?k recs) (unat (sp_commit_pos s))"
    by (rule chain_eq_any) simp
  moreover have "chain (hop s) (unat (sp_ack_pos s)) (take ?k recs)
      (unat (sp_wrap_gap_start s) + unat (sp_wrap_gap_bytes s))"
    using i(2) sg by (intro chain_hop_end [OF _ g]) (simp add: inv_chain_def)
  ultimately have "inv_chain ?u recs" using i(2) e h by (simp add: inv_chain_def)
  moreover have "inv_res ?u" using i(4) inv_res_cong [of ?u s] by simp
  moreover have "inv_shape ?u" "inv_gap ?u recs" "inv_sent ?u recs" "inv_pend ?u recs"
    using i nc by (simp_all add: inv_shape_def inv_gap_def inv_sent_def sent_record_def inv_pend_def)
  ultimately show ?thesis by (simp add: queue_inv_def)
qed

text \<open>What the next record to send is, once the sender stands behind the gap.\<close>

lemma next_to_send:
  assumes inv: "queue_inv s recs" and lt: "sp_send_pos s < sp_commit_pos s"
    and sk: "\<not> (sp_wrap_gap_bytes s \<noteq> 0 \<and> sp_send_pos s = sp_wrap_gap_start s \<and>
      unat (sp_wrap_gap_start s) + unat (sp_wrap_gap_bytes s) \<le> unat (sp_commit_pos s))"
  shows "unat (sp_sent_count s) < length recs"
    "fst (recs ! unat (sp_sent_count s)) = unat (sp_send_pos s)"
    "0 < snd (recs ! unat (sp_sent_count s))" "256 dvd snd (recs ! unat (sp_sent_count s))"
    "chain (hop s) (unat (sp_send_pos s) + snd (recs ! unat (sp_sent_count s)))
       (drop (Suc (unat (sp_sent_count s))) recs) (unat (sp_commit_pos s))"
proof -
  let ?k = "unat (sp_sent_count s)"
  have c: "chain (hop s) (unat (sp_send_pos s)) (drop ?k recs) (unat (sp_commit_pos s))"
    using inv by (simp add: queue_inv_def inv_chain_def)
  have lt': "unat (sp_send_pos s) < unat (sp_commit_pos s)" using lt by (simp add: word_less_nat_alt)
  have "drop ?k recs \<noteq> []"
  proof
    assume "drop ?k recs = []"
    then have "hop s (unat (sp_send_pos s)) (unat (sp_commit_pos s))" using c by simp
    then show False using lt' sk by (auto simp: hop_def word_unat_eq_iff)
  qed
  then show k: "?k < length recs" by simp
  obtain q n where qn: "recs ! ?k = (q, n)" by fastforce
  have d: "drop ?k recs = (q, n) # drop (Suc ?k) recs" using Cons_nth_drop_Suc [OF k] qn by simp
  have h: "hop s (unat (sp_send_pos s)) q" "0 < n" "256 dvd n"
    "chain (hop s) (q + n) (drop (Suc ?k) recs) (unat (sp_commit_pos s))" using c d by simp_all
  have "q + n \<le> unat (sp_commit_pos s)" using chain_le [OF h(4)] .
  then have "q = unat (sp_send_pos s)" using h(1) sk by (auto simp: hop_def word_unat_eq_iff)
  then show "fst (recs ! ?k) = unat (sp_send_pos s)" "0 < snd (recs ! ?k)" "256 dvd snd (recs ! ?k)"
    "chain (hop s) (unat (sp_send_pos s) + snd (recs ! ?k)) (drop (Suc ?k) recs) (unat (sp_commit_pos s))"
    using h qn by simp_all
qed

lemma tx_fields_inv:
  assumes inv: "queue_inv s recs" and k: "unat (sp_sent_count s) < length recs"
    and at: "fst (recs ! unat (sp_sent_count s)) = unat (sp_send_pos s)"
      "rec_at rec (recs ! unat (sp_sent_count s))"
  shows "queue_inv (s\<lparr>sp_tx_record := rec, sp_tx_cached := True\<rparr>) recs"
proof -
  let ?u = "s\<lparr>sp_tx_record := rec, sp_tx_cached := True\<rparr>"
  have h: "hop ?u = hop s" by (rule hop_cong) simp_all
  have "inv_res ?u = inv_res s" by (rule inv_res_cong) simp_all
  then show ?thesis
    using inv k at h by (auto simp: queue_inv_def inv_shape_def inv_gap_def inv_sent_def
        sent_record_def inv_pend_def inv_chain_def)
qed

lemma validated_header:
  assumes "spool_validate_header page addr gen s = Some rec"
  shows "rec_header_addr rec = addr" "rec_generation rec = gen"
  using assms by (auto simp: spool_validate_header_def Let_def record_zero_def split: if_splits)

text \<open>The sender reads the record the invariant puts at its position, provided the size in the
  header that passed the checks is the size that was committed there.\<close>

lemma peek_inv:
  assumes inv: "queue_inv (w_spool w) recs"
    and out: "zy100_online_spool_peek_tx D w = (r, found, w')"
    and size: "\<And>rec. found = Some rec \<Longrightarrow> \<not> sp_tx_cached (w_spool w) \<Longrightarrow>
      unat (rec_record_bytes rec) = snd (recs ! unat (sp_sent_count (w_spool w)))"
  shows "queue_inv (w_spool w') recs"
    "r = IO_OK \<Longrightarrow> \<exists>rec. found = Some rec \<and> unat (sp_sent_count (w_spool w)) < length recs \<and>
       rec_at rec (recs ! unat (sp_sent_count (w_spool w))) \<and> sp_tx_cached (w_spool w') \<and>
       sp_tx_record (w_spool w') = rec"
proof -
  let ?s = "w_spool w"
  have goal: "queue_inv (w_spool w') recs \<and> (r = IO_OK \<longrightarrow> (\<exists>rec. found = Some rec \<and>
       unat (sp_sent_count ?s) < length recs \<and> rec_at rec (recs ! unat (sp_sent_count ?s)) \<and>
       sp_tx_cached (w_spool w') \<and> sp_tx_record (w_spool w') = rec))"
  proof (cases "sp_tx_cached ?s")
    case True
    then show ?thesis
      using out inv by (auto simp: zy100_online_spool_peek_tx_def queue_inv_def inv_sent_def)
  next
    case nc: False
    let ?hop = "sp_wrap_gap_bytes ?s \<noteq> 0 \<and> sp_send_pos ?s = sp_wrap_gap_start ?s \<and>
        unat (sp_wrap_gap_start ?s) + unat (sp_wrap_gap_bytes ?s) \<le> unat (sp_commit_pos ?s)"
    obtain pos where pos: "pos = (if ?hop then sp_wrap_gap_start ?s + sp_wrap_gap_bytes ?s else sp_send_pos ?s)"
      by blast
    have sk: "spool_skip_gap_bounded (sp_send_pos ?s) (sp_commit_pos ?s) False ?s = (True, pos, ?s)"
      using skip_bounded [OF inv, of "sp_send_pos ?s" False] pos by simp
    obtain s1 where s1: "s1 = ?s\<lparr>sp_send_pos := pos\<rparr>" by blast
    have i1: "queue_inv s1 recs"
      using inv send_hop_inv [OF inv nc] pos s1 by (cases ?hop) auto
    have f1: "sp_sent_count s1 = sp_sent_count ?s" "sp_commit_pos s1 = sp_commit_pos ?s"
      "sp_send_pos s1 = pos" "\<not> sp_tx_cached s1" using nc s1 by simp_all
    have nh: "\<not> (sp_wrap_gap_bytes s1 \<noteq> 0 \<and> sp_send_pos s1 = sp_wrap_gap_start s1 \<and>
      unat (sp_wrap_gap_start s1) + unat (sp_wrap_gap_bytes s1) \<le> unat (sp_commit_pos s1))"
    proof (cases ?hop)
      case True
      then have "unat pos \<noteq> unat (sp_wrap_gap_start ?s)"
        using pos gap_end_unat [OF inv] by simp
      then show ?thesis using s1 by auto
    next
      case False then show ?thesis using pos s1 by auto
    qed
    note defs = zy100_online_spool_peek_tx_def Let_def sk prod.case
    obtain rd w2 where tx: "spool_tx_read_ready D (on_spool (\<lambda>_. s1) w) = (rd, w2)" by fastforce
    have c2: "queue_core (w_spool w2) = queue_core s1"
      using queue_core_cong [OF conjunct1 [OF tx_ready_frame [OF tx]]] by simp
    obtain st w3 where rp: "spool_read_page D 2 (spool_pos_addr pos) 256 w2 = (st, w3)" by fastforce
    have c3: "queue_core (w_spool w3) = queue_core s1" using read_page_frame [OF rp] c2 by simp
    let ?v = "spool_validate_header (sp_page (w_spool w3)) (spool_pos_addr pos) (spool_pos_generation pos) (w_spool w3)"
    have run: "(r, found, w') =
        (if ucast (sp_sent_count s1) \<ge> (4 :: u32) \<or> sp_send_pos s1 \<ge> sp_commit_pos s1
         then (IO_EMPTY, None, on_spool (\<lambda>_. s1) w)
         else if rd \<noteq> IO_OK then (rd, None, w2)
         else if st = IMU_STATUS_BUS_ERROR then (IO_BUSY, None, on_spool note_tx_spi_busy w3)
         else case (if st \<noteq> IMU_STATUS_OK then None else ?v) of
             Some rec \<Rightarrow> (IO_OK, Some rec, on_spool (\<lambda>s. s\<lparr>sp_tx_record := rec, sp_tx_cached := True\<rparr>) w3)
           | None \<Rightarrow> (IO_ERROR, None, spool_error st_read_errors_update 11 (spool_pos_addr pos)
               (if st = IMU_STATUS_OK \<and> zy100_get_u16_le (sp_page (w_spool w3)) 44 \<noteq> spool_pos_generation pos
                then on_spool (on_stats (inc st_generation_mismatch_update)) w3 else w3)))"
      using out nc unfolding defs s1 [symmetric] tx rp by simp
    consider (no) "r \<noteq> IO_OK" "queue_core (w_spool w') = queue_core s1"
      | (yes) rec where "sp_send_pos s1 < sp_commit_pos s1" "?v = Some rec" "found = Some rec"
          "w_spool w' = (w_spool w3)\<lparr>sp_tx_record := rec, sp_tx_cached := True\<rparr>"
    proof (cases "\<not> ucast (sp_sent_count s1) \<ge> (4 :: u32) \<and> \<not> sp_send_pos s1 \<ge> sp_commit_pos s1 \<and>
        rd = IO_OK \<and> st = IMU_STATUS_OK \<and> ?v \<noteq> None")
      case True
      then obtain rec where v: "?v = Some rec" by blast
      have lt: "sp_send_pos s1 < sp_commit_pos s1" using True by (simp only: not_le)
      have "(r, found, w') = (IO_OK, Some rec, on_spool (\<lambda>s. s\<lparr>sp_tx_record := rec, sp_tx_cached := True\<rparr>) w3)"
        unfolding run using True v by (simp del: not_le)
      then show thesis using lt v yes [of rec] by simp
    next
      case False
      then have "r \<noteq> IO_OK \<and> queue_core (w_spool w') = queue_core s1"
        using run c2 c3 by (cases ?v) (simp_all split: if_splits)
      then show thesis using no by blast
    qed
    then show ?thesis
    proof cases
      case no then show ?thesis using inv_core [OF i1] by simp
    next
      case yes
      let ?k = "unat (sp_sent_count ?s)"
      note nx = next_to_send [OF i1 yes(1) nh, unfolded f1]
      have at: "rec_at rec (recs ! ?k)"
        using validated_header [OF yes(2)] size [OF yes(3) nc] nx(2)
        by (simp add: rec_at_def split_beta)
      have i3: "queue_inv (w_spool w3) recs" using inv_core [OF i1 c3] .
      have f3: "sp_sent_count (w_spool w3) = sp_sent_count ?s" "sp_send_pos (w_spool w3) = pos"
        using queue_fields(15,8) [OF c3] f1 by simp_all
      have "queue_inv (w_spool w') recs"
        unfolding yes(4) using nx at f3 by (intro tx_fields_inv [OF i3]) simp_all
      then show ?thesis using yes(3,4) nx(1) at by simp
    qed
  qed
  show "queue_inv (w_spool w') recs" using goal by blast
  show "r = IO_OK \<Longrightarrow> \<exists>rec. found = Some rec \<and> unat (sp_sent_count (w_spool w)) < length recs \<and>
       rec_at rec (recs ! unat (sp_sent_count (w_spool w))) \<and> sp_tx_cached (w_spool w') \<and>
       sp_tx_record (w_spool w') = rec" using goal by blast
qed

lemma ucast_8_32_less4: "\<not> (4 :: u32) \<le> ucast (x :: u8) \<longleftrightarrow> unat x < 4"
  by (simp add: word_le_nat_alt not_le)

lemma mark_sent_inv:
  assumes inv: "queue_inv s recs" and out: "zy100_online_spool_mark_tx_sent type rid s = (ok, s')"
  shows "queue_inv s' recs"
proof (cases ok)
  case False
  then have "queue_core s' = queue_core s"
    using out by (auto simp: zy100_online_spool_mark_tx_sent_def Let_def split: if_splits)
  then show ?thesis using inv_core [OF inv] by blast
next
  case True
  let ?k = "unat (sp_sent_count s)" and ?h = "unat (sp_sent_head s)" and ?tx = "sp_tx_record s"
  let ?u = "s\<lparr>sp_sent_records := (sp_sent_records s)[(?h + ?k) mod 4 := ?tx],
     sp_sent_count := sp_sent_count s + 1, sp_send_pos := sp_send_pos s + rec_record_bytes ?tx,
     sp_tx_cached := False, sp_tx_record := record_zero\<rparr>"
  have s': "s' = ?u" and c: "sp_tx_cached s" "?k < 4"
    and se: "\<not> sp_send_pos s + rec_record_bytes ?tx < sp_send_pos s"
    using out True ucast_8_32_less4 by (auto simp: zy100_online_spool_mark_tx_sent_def Let_def split: if_splits)
  have i: "inv_shape s" "inv_chain s recs" "inv_gap s recs" "inv_res s" "inv_sent s recs" "inv_pend s recs"
    using inv by (simp_all add: queue_inv_def)
  have k: "?k < length recs" "fst (recs ! ?k) = unat (sp_send_pos s)" "rec_at ?tx (recs ! ?k)"
    using i(5) c(1) by (simp_all add: inv_sent_def)
  obtain q n where qn: "recs ! ?k = (q, n)" by fastforce
  then have qs: "q = unat (sp_send_pos s)" "n = unat (rec_record_bytes ?tx)"
    using k(2,3) by (simp_all add: rec_at_def)
  have d: "drop ?k recs = (q, n) # drop (Suc ?k) recs" using Cons_nth_drop_Suc [OF k(1)] qn by simp
  have t: "take (Suc ?k) recs = take ?k recs @ [(q, n)]" using k(1) qn by (simp add: take_Suc_conv_app_nth)
  have ch: "chain (hop s) (unat (sp_ack_pos s)) (take ?k recs) q"
    "0 < n" "256 dvd n" "chain (hop s) (q + n) (drop (Suc ?k) recs) (unat (sp_commit_pos s))"
    using i(2) d qs(1) by (simp_all add: inv_chain_def)
  have us: "unat (sp_send_pos s + rec_record_bytes ?tx) = q + n"
    using unat_add_le [of "sp_send_pos s"] se qs by (simp add: not_less)
  have uk: "unat (sp_sent_count s + 1) = Suc ?k"
    using c(2) by (subst unat_add_no_wrap) simp_all
  have h: "hop ?u = hop s" by (rule hop_cong) simp_all
  have "inv_chain ?u recs"
    using i(2) k(1) us uk t chain_snoc [OF ch(1-3)] ch(4) h by (simp add: inv_chain_def Suc_le_eq)
  moreover have "inv_res ?u" using i(4) inv_res_cong [of ?u s] by simp
  moreover have "inv_sent ?u recs"
  proof -
    have len: "length (sp_sent_records s) = 4" using i(1) by (simp add: inv_shape_def)
    have ne: "(?h + ?k) mod 4 \<noteq> (?h + j) mod 4" if "j < ?k" for j
    proof
      assume "(?h + ?k) mod 4 = (?h + j) mod 4"
      then have "(?k - j) mod 4 = 0" using that by (metis add_diff_cancel_left mod_eq_dvd_iff_nat
          nat_add_left_cancel_le less_imp_le dvd_eq_mod_eq_0)
      then show False using that c(2) by auto
    qed
    have "rec_at (sent_record ?u j) (recs ! j)" if "j < Suc ?k" for j
    proof (cases "j = ?k")
      case True then show ?thesis using k(3) len by (simp add: sent_record_def)
    next
      case False
      then have "j < ?k" using that by simp
      then show ?thesis using i(5) ne len by (simp add: inv_sent_def sent_record_def)
    qed
    then show ?thesis using uk by (simp add: inv_sent_def)
  qed
  moreover have "inv_shape ?u" using i(1) uk c(2) by (simp add: inv_shape_def)
  moreover have "inv_gap ?u recs" "inv_pend ?u recs" using i by (simp_all add: inv_gap_def inv_pend_def)
  ultimately show ?thesis unfolding s' by (simp add: queue_inv_def)
qed

section \<open>Acknowledgement\<close>

text \<open>The oldest record leaves the queue.\<close>

lemma ack_advance:
  assumes inv: "queue_inv s ((q, n) # rs)" and k: "sp_sent_count s \<noteq> 0"
    and u: "sp_reserve_pos u = sp_reserve_pos s" "sp_reservation u = sp_reservation s"
      "sp_commit_pos u = sp_commit_pos s" "sp_send_pos u = sp_send_pos s"
      "sp_tx_cached u = sp_tx_cached s" "sp_tx_record u = sp_tx_record s"
      "sp_sent_records u = (sp_sent_records s)[unat (sp_sent_head s) := record_zero]"
      "unat (sp_sent_head u) = (unat (sp_sent_head s) + 1) mod 4"
      "sp_sent_count u = sp_sent_count s - 1"
      "unat (st_pending_records (sp_stats u)) = unat (st_pending_records (sp_stats s)) - 1"
      "unat (st_pending_bytes (sp_stats u)) = unat (st_pending_bytes (sp_stats s)) - n"
    and ack: "q + n \<le> unat (sp_ack_pos u)" "256 dvd unat (sp_ack_pos u)"
    and ch: "chain (hop u) (unat (sp_ack_pos u)) (take (unat (sp_sent_count s) - 1) rs) (unat (sp_send_pos s))"
      "chain (hop u) (unat (sp_send_pos s)) (drop (unat (sp_sent_count s) - 1) rs) (unat (sp_commit_pos s))"
    and gap: "(sp_wrap_gap_start u = 0 \<and> sp_wrap_gap_bytes u = 0 \<and>
        (sp_wrap_gap_bytes s \<noteq> 0 \<longrightarrow> sp_commit_pos s \<noteq> sp_wrap_gap_start s)) \<or>
      (sp_wrap_gap_start u = sp_wrap_gap_start s \<and> sp_wrap_gap_bytes u = sp_wrap_gap_bytes s \<and>
       sp_ack_pos s \<noteq> sp_wrap_gap_start s \<and> unat (sp_ack_pos u) = q + n)"
  shows "queue_inv u rs"
proof -
  have i: "inv_shape s" "inv_chain s ((q, n) # rs)" "inv_gap s ((q, n) # rs)" "inv_res s"
    "inv_sent s ((q, n) # rs)" "inv_pend s ((q, n) # rs)" using inv by (simp_all add: queue_inv_def)
  have k0: "0 < unat (sp_sent_count s)" using k by (simp add: unat_gt_0)
  have uk: "unat (sp_sent_count u) = unat (sp_sent_count s) - 1"
    using k0 u(9) by (simp add: unat_diff_le word_le_nat_alt)
  have ap: "unat (sp_ack_pos s) \<le> q" using inv_record_bounds(1) [OF i(2), of q n] by simp
  have "unat (sp_sent_count s) - 1 \<le> length rs" "unat (sp_reserve_pos s) \<le> unat (sp_ack_pos s) + 0x100000"
    using i(2) by (auto simp: inv_chain_def)
  then have "inv_chain u rs"
    unfolding inv_chain_def uk u(1,3,4) using ack ap ch by simp
  moreover have "inv_gap u rs"
    using gap
  proof
    assume "sp_wrap_gap_start u = sp_wrap_gap_start s \<and> sp_wrap_gap_bytes u = sp_wrap_gap_bytes s \<and>
       sp_ack_pos s \<noteq> sp_wrap_gap_start s \<and> unat (sp_ack_pos u) = q + n"
    then have g: "sp_wrap_gap_start u = sp_wrap_gap_start s" "sp_wrap_gap_bytes u = sp_wrap_gap_bytes s"
      "unat (sp_wrap_gap_start s) \<noteq> unat (sp_ack_pos s)" "unat (sp_ack_pos u) = q + n"
      by (auto simp: word_unat_eq_iff)
    then show ?thesis
      using i(3) unfolding inv_gap_def u(1) g(1,2,4) by (simp add: ends_def)
  qed (simp add: inv_gap_def)
  moreover have "commit_target u = commit_target s"
  proof (cases "sp_wrap_gap_start u = sp_wrap_gap_start s \<and> sp_wrap_gap_bytes u = sp_wrap_gap_bytes s")
    case True then show ?thesis by (simp add: commit_target_def u(3))
  next
    case False
    then have g: "\<not> (sp_wrap_gap_bytes s \<noteq> 0 \<and> sp_commit_pos s = sp_wrap_gap_start s)"
      "sp_wrap_gap_bytes u = 0" using gap by blast+
    show ?thesis unfolding commit_target_def u(3) g(2) if_not_P [OF g(1)] by simp
  qed
  then have "inv_res u" using i(4) u(1-3) by (simp add: inv_res_def Let_def)
  moreover have "inv_sent u rs"
  proof -
    have len: "length (sp_sent_records s) = 4" "unat (sp_sent_head s) < 4" "unat (sp_sent_count s) \<le> 4"
      using i(1) by (simp_all add: inv_shape_def)
    have "rec_at (sent_record u j) (rs ! j)" if j: "j < unat (sp_sent_count u)" for j
    proof -
      have j4: "Suc j < unat (sp_sent_count s)" using j uk by simp
      have idx: "((unat (sp_sent_head s) + 1) mod 4 + j) mod 4 = (unat (sp_sent_head s) + Suc j) mod 4"
        by (simp add: mod_simps)
      have ne: "(unat (sp_sent_head s) + Suc j) mod 4 \<noteq> unat (sp_sent_head s)"
        using j4 len(2,3) by presburger
      have "sent_record u j = sent_record s (Suc j)"
        unfolding sent_record_def u(7,8) idx using ne len(1) by simp
      then show ?thesis using i(5) j4 by (auto simp: inv_sent_def)
    qed
    moreover have "sp_tx_cached s \<Longrightarrow> unat (sp_sent_count s) - 1 < length rs \<and>
        fst (rs ! (unat (sp_sent_count s) - 1)) = unat (sp_send_pos s) \<and>
        rec_at (sp_tx_record s) (rs ! (unat (sp_sent_count s) - 1))"
      using i(5) k0 by (auto simp: inv_sent_def nth_Cons')
    ultimately show ?thesis using u uk by (simp add: inv_sent_def)
  qed
  moreover have "inv_pend u rs" using i(6) u(10,11) by (simp add: inv_pend_def)
  moreover have "inv_shape u"
  proof -
    have "unat (sp_sent_count u) \<le> 4" using i(1) uk by (auto simp: inv_shape_def)
    then show ?thesis using i(1) u(7,8) by (simp add: inv_shape_def)
  qed
  ultimately show ?thesis by (simp add: queue_inv_def)
qed

lemma core_reclaim: "queue_core (reclaim_boundaries b n s) = queue_core s"
proof (induction b n s rule: reclaim_boundaries.induct)
  case (1 b n s)
  show ?case
    by (subst reclaim_boundaries.simps) (auto simp: Let_def 1 split: if_splits)
qed

lemma core_mark_reclaimed [simp]: "queue_core (spool_mark_reclaimed_range a b s) = queue_core s"
  by (simp add: spool_mark_reclaimed_range_def core_reclaim)

text \<open>The guard excludes the race at the wrap gap: everything before the gap has been sent, the
  sender has not crossed the gap yet, but the record behind it is already committed.\<close>

definition ack_safe :: "spool_state \<Rightarrow> bool" where
  "ack_safe s \<longleftrightarrow> \<not> (sp_wrap_gap_bytes s \<noteq> 0 \<and> sp_send_pos s = sp_wrap_gap_start s \<and>
     unat (sp_wrap_gap_start s) + unat (sp_wrap_gap_bytes s) \<le> unat (sp_commit_pos s))"

lemma reclaimed_fields [simp]:
  fixes a b s
  defines "v \<equiv> spool_mark_reclaimed_range a b s"
  shows "sp_reserve_pos v = sp_reserve_pos s" "sp_reservation v = sp_reservation s"
    "sp_commit_pos v = sp_commit_pos s" "sp_send_pos v = sp_send_pos s" "sp_ack_pos v = sp_ack_pos s"
    "sp_tx_cached v = sp_tx_cached s" "sp_tx_record v = sp_tx_record s"
    "sp_sent_records v = sp_sent_records s" "sp_sent_head v = sp_sent_head s"
    "sp_sent_count v = sp_sent_count s" "sp_wrap_gap_start v = sp_wrap_gap_start s"
    "sp_wrap_gap_bytes v = sp_wrap_gap_bytes s"
    "st_pending_records (sp_stats v) = st_pending_records (sp_stats s)"
    "st_pending_bytes (sp_stats v) = st_pending_bytes (sp_stats s)"
  using queue_fields [OF core_mark_reclaimed [of a b s]] by (simp_all only: v_def)

lemma refresh_fields [simp]:
  "sp_reserve_pos (spool_refresh_stats s) = sp_reserve_pos s"
  "sp_reservation (spool_refresh_stats s) = sp_reservation s"
  "sp_commit_pos (spool_refresh_stats s) = sp_commit_pos s"
  "sp_send_pos (spool_refresh_stats s) = sp_send_pos s"
  "sp_ack_pos (spool_refresh_stats s) = sp_ack_pos s"
  "sp_tx_cached (spool_refresh_stats s) = sp_tx_cached s"
  "sp_tx_record (spool_refresh_stats s) = sp_tx_record s"
  "sp_sent_records (spool_refresh_stats s) = sp_sent_records s"
  "sp_sent_head (spool_refresh_stats s) = sp_sent_head s"
  "sp_sent_count (spool_refresh_stats s) = sp_sent_count s"
  "sp_wrap_gap_start (spool_refresh_stats s) = sp_wrap_gap_start s"
  "sp_wrap_gap_bytes (spool_refresh_stats s) = sp_wrap_gap_bytes s"
  "st_pending_records (sp_stats (spool_refresh_stats s)) = st_pending_records (sp_stats s)"
  "st_pending_bytes (sp_stats (spool_refresh_stats s)) = st_pending_bytes (sp_stats s)"
  by (simp_all add: spool_refresh_stats_def Let_def)

lemmas ack_defs = ack_pop_def ack_release_def ack_accept_def on_stats_def Let_def

text \<open>The acknowledgement under the invariant: which record it takes and where it puts \<open>ack_pos\<close>.\<close>

lemma first_sent:
  assumes inv: "queue_inv s ((q, n) # rs)" and k: "sp_sent_count s \<noteq> 0"
  shows "rec_at (sp_sent_records s ! unat (sp_sent_head s)) (q, n)"
    "0 < n" "256 dvd n" "hop s (unat (sp_ack_pos s)) q"
    "chain (hop s) (q + n) (take (unat (sp_sent_count s) - 1) rs) (unat (sp_send_pos s))"
    "chain (hop s) (unat (sp_send_pos s)) (drop (unat (sp_sent_count s) - 1) rs) (unat (sp_commit_pos s))"
    "q + n \<le> unat (sp_send_pos s)" "256 dvd q" "unat (of_nat q :: u32) = q"
proof -
  have i: "inv_shape s" "inv_chain s ((q, n) # rs)" "inv_sent s ((q, n) # rs)" "inv_gap s ((q, n) # rs)"
    using inv by (simp_all add: queue_inv_def)
  obtain j where j: "unat (sp_sent_count s) = Suc j" using k by (cases "unat (sp_sent_count s)") (auto simp: unat_eq_zero)
  have "\<forall>i < Suc j. rec_at (sent_record s i) (((q, n) # rs) ! i)" using i(3) j by (simp add: inv_sent_def)
  then have "rec_at (sent_record s 0) (((q, n) # rs) ! 0)" by blast
  then show "rec_at (sp_sent_records s ! unat (sp_sent_head s)) (q, n)"
    using i(1) by (simp add: sent_record_def inv_shape_def)
  show c: "0 < n" "256 dvd n" "hop s (unat (sp_ack_pos s)) q"
    "chain (hop s) (q + n) (take (unat (sp_sent_count s) - 1) rs) (unat (sp_send_pos s))"
    "chain (hop s) (unat (sp_send_pos s)) (drop (unat (sp_sent_count s) - 1) rs) (unat (sp_commit_pos s))"
    using i(2) j by (simp_all add: inv_chain_def)
  show le: "q + n \<le> unat (sp_send_pos s)" using chain_le [OF c(4)] .
  show "256 dvd q"
    using c(3) i(2,4) by (auto simp: hop_def inv_chain_def inv_gap_def)
  show "unat (of_nat q :: u32) = q"
    using le unat_lt_32 [of "sp_send_pos s"] by (simp add: unat_of_nat take_bit_nat_eq_self_iff)
qed


lemma ack_target:
  assumes inv: "queue_inv s ((q, n) # rs)" and k: "sp_sent_count s \<noteq> 0"
  shows "spool_skip_gap_bounded (sp_ack_pos s) (sp_commit_pos s) False s = (True, of_nat q, s)"
proof -
  note f = first_sent [OF inv k]
  have i: "inv_chain s ((q, n) # rs)" "inv_gap s ((q, n) # rs)" using inv by (simp_all add: queue_inv_def)
  have cm: "q + n \<le> unat (sp_commit_pos s)" using inv_record_bounds(2) [OF i(1), of q n] by simp
  show ?thesis
  proof (cases "sp_wrap_gap_bytes s \<noteq> 0 \<and> sp_ack_pos s = sp_wrap_gap_start s")
    case True
    then have q: "q = unat (sp_wrap_gap_start s) + unat (sp_wrap_gap_bytes s)"
      using f(4) i(2) by (auto simp: hop_def inv_gap_def)
    have "sp_wrap_gap_start s + sp_wrap_gap_bytes s = of_nat q"
      using gap_end_unat(1) [OF inv] True q f(9) by (simp add: word_unat_eq_iff)
    then show ?thesis using skip_bounded [OF inv, of "sp_ack_pos s" False] True q cm by auto
  next
    case False
    then have "q = unat (sp_ack_pos s)" using f(4) by (auto simp: hop_def word_unat_eq_iff)
    then show ?thesis using skip_bounded [OF inv, of "sp_ack_pos s" False] False by auto
  qed
qed

lemma skip_bounded_gen:
  assumes "sp_wrap_gap_bytes s \<noteq> 0 \<Longrightarrow> unat (sp_wrap_gap_start s + sp_wrap_gap_bytes s) =
      unat (sp_wrap_gap_start s) + unat (sp_wrap_gap_bytes s)"
  shows "spool_skip_gap_bounded p c rel s =
    (if sp_wrap_gap_bytes s \<noteq> 0 \<and> p = sp_wrap_gap_start s \<and>
        unat (sp_wrap_gap_start s) + unat (sp_wrap_gap_bytes s) \<le> unat c
     then (True, sp_wrap_gap_start s + sp_wrap_gap_bytes s,
           if rel then s\<lparr>sp_wrap_gap_start := 0, sp_wrap_gap_bytes := 0\<rparr> else s)
     else (True, p, s))"
  using assms by (auto simp: spool_skip_gap_bounded_def spool_skip_gap_value_def Let_def
      word_less_nat_alt word_le_nat_alt)

lemma accept_fields [simp]:
  "sp_wrap_gap_start (ack_accept t r s) = sp_wrap_gap_start s"
  "sp_wrap_gap_bytes (ack_accept t r s) = sp_wrap_gap_bytes s"
  "sp_commit_pos (ack_accept t r s) = sp_commit_pos s"
  by (simp_all add: ack_accept_def on_stats_def)

text \<open>The queue after an accepted acknowledgement of the first record.\<close>

lemma ack_accepted_inv:
  assumes inv: "queue_inv s ((q, n) # rs)" and k: "sp_sent_count s \<noteq> 0" and safe: "ack_safe s"
    and sent: "unat (rec_record_bytes sent) = n"
    and e: "e \<longleftrightarrow> sp_wrap_gap_bytes s \<noteq> 0 \<and> q + n = unat (sp_wrap_gap_start s) \<and>
       unat (sp_wrap_gap_start s) + unat (sp_wrap_gap_bytes s) \<le> unat (sp_commit_pos s)"
    and c: "c \<longleftrightarrow> of_nat q \<noteq> sp_ack_pos s"
    and u: "u = ack_pop (ack_release (sp_ack_pos s)
        (if e then sp_wrap_gap_start s + sp_wrap_gap_bytes s else of_nat q + rec_record_bytes sent) c
        (if e then (ack_accept type sent s)\<lparr>sp_wrap_gap_start := 0, sp_wrap_gap_bytes := 0\<rparr>
         else ack_accept type sent s))"
  shows "queue_inv u rs"
proof -
  note f = first_sent [OF inv k]
  have i: "inv_shape s" "inv_chain s ((q, n) # rs)" "inv_gap s ((q, n) # rs)" "inv_pend s ((q, n) # rs)"
    using inv by (simp_all add: queue_inv_def)
  note gb = gap_end_unat [OF inv]
  let ?g = "unat (sp_wrap_gap_start s)" and ?gb = "unat (sp_wrap_gap_bytes s)"
  have cm: "q + n \<le> unat (sp_commit_pos s)" "unat (sp_send_pos s) \<le> unat (sp_commit_pos s)"
    using inv_record_bounds(2) [OF i(2), of q n] inv_positions(2) [OF inv] by simp_all
  have uend: "unat (of_nat q + rec_record_bytes sent) = q + n"
    using f(9) sent cm(1) unat_lt_32 [of "sp_commit_pos s"] by (subst unat_add_32) simp_all
  have cq: "c \<longleftrightarrow> q \<noteq> unat (sp_ack_pos s)" using c f(9) by (simp add: word_unat_eq_iff)
  have fields: "sp_reserve_pos u = sp_reserve_pos s" "sp_reservation u = sp_reservation s"
      "sp_commit_pos u = sp_commit_pos s" "sp_send_pos u = sp_send_pos s"
      "sp_tx_cached u = sp_tx_cached s" "sp_tx_record u = sp_tx_record s"
      "sp_sent_records u = (sp_sent_records s)[unat (sp_sent_head s) := record_zero]"
      "sp_sent_head u = ucast ((ucast (sp_sent_head s) + 1 :: u32) mod 4)"
      "sp_sent_count u = sp_sent_count s - 1"
      "st_pending_records (sp_stats u) = st_pending_records (sp_stats s) - 1"
      "st_pending_bytes (sp_stats u) = (if st_pending_bytes (sp_stats s) \<ge> rec_record_bytes sent
        then st_pending_bytes (sp_stats s) - rec_record_bytes sent else 0)"
      "sp_ack_pos u = (if e then sp_wrap_gap_start s + sp_wrap_gap_bytes s else of_nat q + rec_record_bytes sent)"
      "sp_wrap_gap_start u = (if c \<or> e then 0 else sp_wrap_gap_start s)"
      "sp_wrap_gap_bytes u = (if c \<or> e then 0 else sp_wrap_gap_bytes s)"
    by (simp_all add: u ack_defs)
  have head: "unat (sp_sent_head u) = (unat (sp_sent_head s) + 1) mod 4"
  proof -
    have "unat (sp_sent_head s) < 4" using i(1) by (simp add: inv_shape_def)
    then have "unat ((ucast (sp_sent_head s) + 1 :: u32) mod 4) = (unat (sp_sent_head s) + 1) mod 4"
      by (simp add: unat_mod unat_add_32)
    then show ?thesis unfolding fields(8) by (subst unat_ucast_32_8) simp_all
  qed
  have pend: "unat (st_pending_records (sp_stats u)) = unat (st_pending_records (sp_stats s)) - 1"
    "unat (st_pending_bytes (sp_stats u)) = unat (st_pending_bytes (sp_stats s)) - n"
    unfolding fields(10,11) using i(4) sent
    by (simp_all add: inv_pend_def unat_diff_le word_le_nat_alt)
  have hz: "c \<or> e \<Longrightarrow> chain (=) p xs t \<Longrightarrow> chain (hop u) p xs t" for p xs t
    using chain_eq_any [of p xs t "hop u"] by simp
  have hs: "\<not> (c \<or> e) \<Longrightarrow> hop u = hop s" using fields(13,14) by (intro hop_cong) simp_all
  let ?k = "unat (sp_sent_count s) - 1"
  have nq: "\<forall>(q, n) \<in> set (take ?k rs). q \<noteq> ?g" if "sp_wrap_gap_bytes s \<noteq> 0"
    using i(3) that set_take_subset [of ?k rs] by (auto simp: inv_gap_def)
  have qg: "q \<noteq> ?g" if "sp_wrap_gap_bytes s \<noteq> 0" using i(3) that by (simp add: inv_gap_def)
  have ch: "chain (hop u) (unat (sp_ack_pos u)) (take ?k rs) (unat (sp_send_pos s)) \<and>
      chain (hop u) (unat (sp_send_pos s)) (drop ?k rs) (unat (sp_commit_pos s)) \<and>
      q + n \<le> unat (sp_ack_pos u) \<and> 256 dvd unat (sp_ack_pos u) \<and>
      (c \<or> e \<longrightarrow> sp_wrap_gap_bytes s \<noteq> 0 \<longrightarrow> sp_commit_pos s \<noteq> sp_wrap_gap_start s)"
  proof (cases c)
    case True
    then have h: "sp_wrap_gap_bytes s \<noteq> 0" "unat (sp_ack_pos s) = ?g" "q = ?g + ?gb"
      using cq f(4) by (auto simp: hop_def)
    have lt: "?g < q + n" "\<not> e" using h gb f(2) e by simp_all
    then have "chain (=) (q + n) (take ?k rs) (unat (sp_send_pos s))"
      "chain (=) (unat (sp_send_pos s)) (drop ?k rs) (unat (sp_commit_pos s))"
      using chain_past_gap [OF f(5)] chain_past_gap [OF f(6)] f(7) by simp_all
    then show ?thesis
      using hz True lt uend fields(12) f(3,8) cm(1) by (auto simp: word_unat_eq_iff)
  next
    case nc: False
    then have qa: "q = unat (sp_ack_pos s)" using cq by simp
    show ?thesis
    proof (cases e)
      case True
      then have h: "sp_wrap_gap_bytes s \<noteq> 0" "q + n = ?g" "?g + ?gb \<le> unat (sp_commit_pos s)" using e by simp_all
      have ua: "unat (sp_ack_pos u) = ?g + ?gb" using fields(12) True gb [OF h(1)] by simp
      have "unat (sp_send_pos s) \<noteq> ?g"
        using safe h by (auto simp: ack_safe_def word_unat_eq_iff)
      then have sg: "?g + ?gb \<le> unat (sp_send_pos s)"
        using chain_over_gap [OF f(5) h(1) _ nq [OF h(1)]] h(2) by (auto simp: ends_def)
      have "chain (=) (?g + ?gb) (take ?k rs) (unat (sp_send_pos s))"
        using f(5) h(2) by (intro chain_from_gap [OF _ h(1) nq [OF h(1)] sg]) simp
      moreover have "chain (=) (unat (sp_send_pos s)) (drop ?k rs) (unat (sp_commit_pos s))"
        using chain_past_gap [OF f(6)] sg gb(2) [OF h(1)] by simp
      moreover have "256 dvd ?g + ?gb" using i(3) h(1) by (simp add: inv_gap_def)
      ultimately show ?thesis
        using hz True ua h gb(2) [OF h(1)] by (auto simp: word_unat_eq_iff)
    next
      case False
      then show ?thesis
        using nc hs f(3,5,6,8) uend fields(12) by simp
    qed
  qed
  show ?thesis
  proof (rule ack_advance [OF inv k fields(1-7) head fields(9) pend])
    show "q + n \<le> unat (sp_ack_pos u)" "256 dvd unat (sp_ack_pos u)"
      "chain (hop u) (unat (sp_ack_pos u)) (take ?k rs) (unat (sp_send_pos s))"
      "chain (hop u) (unat (sp_send_pos s)) (drop ?k rs) (unat (sp_commit_pos s))" using ch by blast+
    show "(sp_wrap_gap_start u = 0 \<and> sp_wrap_gap_bytes u = 0 \<and>
        (sp_wrap_gap_bytes s \<noteq> 0 \<longrightarrow> sp_commit_pos s \<noteq> sp_wrap_gap_start s)) \<or>
      (sp_wrap_gap_start u = sp_wrap_gap_start s \<and> sp_wrap_gap_bytes u = sp_wrap_gap_bytes s \<and>
       sp_ack_pos s \<noteq> sp_wrap_gap_start s \<and> unat (sp_ack_pos u) = q + n)"
    proof (cases "c \<or> e")
      case True then show ?thesis using ch fields(13,14) by simp
    next
      case False
      then have ua: "unat (sp_ack_pos u) = q + n" "q = unat (sp_ack_pos s)" using uend fields(12) cq by simp_all
      show ?thesis
      proof (cases "sp_wrap_gap_bytes s = 0")
        case True then show ?thesis using i(3) False fields(13,14) by (simp add: inv_gap_def)
      next
        case g: False
        then show ?thesis using qg [OF g] ua False fields(13,14) by (auto simp: word_unat_eq_iff)
      qed
    qed
  qed
qed

lemma ack_rejected_core:
  assumes "zy100_online_spool_ack type rid w = (False, w')"
    and "\<And>p s1. sp_wrap_gap_start s1 = sp_wrap_gap_start (w_spool w) \<Longrightarrow>
      sp_wrap_gap_bytes s1 = sp_wrap_gap_bytes (w_spool w) \<Longrightarrow>
      fst (spool_skip_gap_bounded p (sp_commit_pos (w_spool w)) True s1)"
  shows "queue_core (w_spool w') = queue_core (w_spool w)"
proof -
  let ?s = "w_spool w"
  obtain ok pos s0 where sk: "spool_skip_gap_bounded (sp_ack_pos ?s) (sp_commit_pos ?s) False ?s = (ok, pos, s0)"
    by (rule prod_cases3)
  let ?sent = "sp_sent_records ?s ! unat (sp_sent_head ?s)"
  let ?s1 = "ack_accept type ?sent ?s"
  obtain ok2 pos2 s2 where sk2: "spool_skip_gap_bounded (pos + rec_record_bytes ?sent) (sp_commit_pos ?s1) True ?s1
      = (ok2, pos2, s2)" by (rule prod_cases3)
  have ok2 using assms(2) [of ?s1 "pos + rec_record_bytes ?sent"] sk2 by simp
  then show ?thesis
    using assms(1) unfolding zy100_online_spool_ack_def Let_def sk sk2 prod.case
    by (auto simp: ack_error_def split: if_splits)
qed

lemma ack_inv:
  assumes inv: "queue_inv (w_spool w) recs" and safe: "ack_safe (w_spool w)"
    and out: "zy100_online_spool_ack type rid w = (ok, w')"
  shows "queue_inv (w_spool w') (if ok then tl recs else recs)"
    "ok \<Longrightarrow> recs \<noteq> [] \<and> rec_record_id (sent_record (w_spool w) 0) = rid \<and>
       rec_type (sent_record (w_spool w) 0) = type"
proof -
  let ?s = "w_spool w"
  let ?sent = "sp_sent_records ?s ! unat (sp_sent_head ?s)"
  let ?s1 = "ack_accept type ?sent ?s"
  have gen: "spool_skip_gap_bounded p (sp_commit_pos ?s) True s1 =
      (if sp_wrap_gap_bytes ?s \<noteq> 0 \<and> p = sp_wrap_gap_start ?s \<and>
          unat (sp_wrap_gap_start ?s) + unat (sp_wrap_gap_bytes ?s) \<le> unat (sp_commit_pos ?s)
       then (True, sp_wrap_gap_start ?s + sp_wrap_gap_bytes ?s, s1\<lparr>sp_wrap_gap_start := 0, sp_wrap_gap_bytes := 0\<rparr>)
       else (True, p, s1))"
    if "sp_wrap_gap_start s1 = sp_wrap_gap_start ?s" "sp_wrap_gap_bytes s1 = sp_wrap_gap_bytes ?s" for p s1
    using skip_bounded_gen [of s1 p "sp_commit_pos ?s" True] gap_end_unat(1) [OF inv] that by simp
  have main: "queue_inv (w_spool w') (if ok then tl recs else recs) \<and>
      (ok \<longrightarrow> recs \<noteq> [] \<and> rec_record_id (sent_record ?s 0) = rid \<and> rec_type (sent_record ?s 0) = type)"
  proof (cases ok)
    case False
    have "queue_core (w_spool w') = queue_core ?s"
      using out False gen by (intro ack_rejected_core [of type rid w w']) simp_all
    then show ?thesis using inv_core [OF inv] False by simp
  next
    case True
    have k: "sp_sent_count ?s \<noteq> 0"
      using out True unfolding zy100_online_spool_ack_def Let_def
      by (auto split: if_splits prod.splits)
    have "unat (sp_sent_count ?s) \<le> length recs" using inv by (simp add: queue_inv_def inv_chain_def)
    moreover have "0 < unat (sp_sent_count ?s)" using k by (simp add: unat_gt_0)
    ultimately obtain q n rs where recs: "recs = (q, n) # rs" by (cases recs) auto
    note f = first_sent [OF inv [unfolded recs] k] and at = ack_target [OF inv [unfolded recs] k]
    have n: "unat (rec_record_bytes ?sent) = n" using f(1) by (simp add: rec_at_def)
    have head: "sent_record ?s 0 = ?sent"
      using inv by (simp add: sent_record_def queue_inv_def inv_shape_def)
    let ?fin = "of_nat q + rec_record_bytes ?sent :: u32"
    have cm: "q + n \<le> unat (sp_commit_pos ?s)"
      using inv_record_bounds(2) [of ?s recs q n] inv recs by (simp add: queue_inv_def)
    have uend: "unat ?fin = q + n"
      using f(9) n cm unat_lt_32 [of "sp_commit_pos ?s"] by (subst unat_add_32) simp_all
    obtain e where e: "e \<longleftrightarrow> sp_wrap_gap_bytes ?s \<noteq> 0 \<and> q + n = unat (sp_wrap_gap_start ?s) \<and>
       unat (sp_wrap_gap_start ?s) + unat (sp_wrap_gap_bytes ?s) \<le> unat (sp_commit_pos ?s)" by blast
    obtain c where c: "c \<longleftrightarrow> of_nat q \<noteq> sp_ack_pos ?s" by blast
    have sk2: "spool_skip_gap_bounded ?fin (sp_commit_pos ?s1) True ?s1 =
        (True, if e then sp_wrap_gap_start ?s + sp_wrap_gap_bytes ?s else ?fin,
         if e then ?s1\<lparr>sp_wrap_gap_start := 0, sp_wrap_gap_bytes := 0\<rparr> else ?s1)"
      using gen [of ?s1 ?fin] e uend by (auto simp: word_unat_eq_iff)
    have "w_spool w' = ack_pop (ack_release (sp_ack_pos ?s)
        (if e then sp_wrap_gap_start ?s + sp_wrap_gap_bytes ?s else ?fin) c
        (if e then ?s1\<lparr>sp_wrap_gap_start := 0, sp_wrap_gap_bytes := 0\<rparr> else ?s1)) \<and>
      rec_record_id ?sent = rid \<and> rec_type ?sent = type"
      using out True unfolding zy100_online_spool_ack_def Let_def at sk2 prod.case c
      by (auto split: if_splits)
    then show ?thesis
      using ack_accepted_inv [OF inv [unfolded recs] k safe n e c refl] True recs head by simp
  qed
  show "queue_inv (w_spool w') (if ok then tl recs else recs)" using main by blast
  show "ok \<Longrightarrow> recs \<noteq> [] \<and> rec_record_id (sent_record (w_spool w) 0) = rid \<and>
       rec_type (sent_record (w_spool w) 0) = type" using main by blast
qed

end
