(* ===== verification/SpoolRun.thy ===== *)
theory SpoolRun
  imports SpoolWindow
begin

text \<open>
  Runs of the spool: the step relation over the operations the application calls, in any order
  and with any answers of the flash, the queue of committed records they act on, and what holds
  in every state they reach.
\<close>

unbundle bit_operations_syntax

section \<open>Steps\<close>

text \<open>The second component is the queue of committed records that are not acknowledged yet.  A
  step \<open>other\<close> is anything outside the spool.  The three side conditions are the assumptions the
  queue rests on: a size that does not wrap, an abort and an acknowledgement away from the wrap
  gap, and a header that says the size that was committed.\<close>

inductive spool_step :: "'d device \<Rightarrow> 'd world \<times> ghost \<Rightarrow> 'd world \<times> ghost \<Rightarrow> bool" for D where
  session: "spool_step D (w, recs) (on_spool (zy100_online_spool_begin sid) w, [])"
| cleanup: "zy100_online_spool_abort_cleanup_begin (w_spool w) = (True, s) \<Longrightarrow>
    spool_step D (w, recs) (on_spool (\<lambda>_. s) w, [])"
| segment: "spool_step D (w, recs) (on_spool (zy100_online_spool_note_capture_segment seg ofs) w, recs)"
| reserve: "spool_provider_reserve kind sid rb pb tgt (w_spool w) = (res, tgt', s) \<Longrightarrow>
    unat rb < 0xFFFFFF00 \<Longrightarrow> spool_step D (w, recs) (on_spool (\<lambda>_. s) w, recs)"
| write_page: "zy100_online_spool_write_reserved_page D token addr page w = (io, w') \<Longrightarrow>
    spool_step D (w, recs) (w', recs)"
| read_back: "zy100_online_spool_read_reserved D token addr buf w = (io, buf', w') \<Longrightarrow>
    spool_step D (w, recs) (w', recs)"
| commit: "spool_provider_commit token (w_spool w) = (ok, s) \<Longrightarrow>
    spool_step D (w, recs) (on_spool (\<lambda>_. s) w, recs)"
| commit_crc: "zy100_online_spool_commit_with_crc token crc (w_spool w) = (ok, s) \<Longrightarrow>
    spool_step D (w, recs) (on_spool (\<lambda>_. s) w, recs)"
| pump: "zy100_online_spool_commit_pump_once D allow w = (r, w') \<Longrightarrow> r \<noteq> PUMP_COMMITTED \<Longrightarrow>
    spool_step D (w, recs) (w', recs)"
| pumped: "zy100_online_spool_commit_pump_once D allow w = (PUMP_COMMITTED, w') \<Longrightarrow>
    spool_step D (w, recs) (w', recs @ [(unat (sp_commit_pos (w_spool w)),
      unat (res_total_bytes (sp_reservation (w_spool w))))])"
| abort: "abort_safe (w_spool w) \<Longrightarrow>
    spool_step D (w, recs) (on_spool (spool_provider_abort token) w, recs)"
| peek: "zy100_online_spool_peek_tx D w = (io, found, w') \<Longrightarrow>
    (\<And>rec. found = Some rec \<Longrightarrow> \<not> sp_tx_cached (w_spool w) \<Longrightarrow>
      unat (rec_record_bytes rec) = snd (recs ! unat (sp_sent_count (w_spool w)))) \<Longrightarrow>
    spool_step D (w, recs) (w', recs)"
| mark_sent: "zy100_online_spool_mark_tx_sent type rid (w_spool w) = (ok, s) \<Longrightarrow>
    spool_step D (w, recs) (on_spool (\<lambda>_. s) w, recs)"
| read: "zy100_online_spool_read D addr buf len w = (io, buf', w') \<Longrightarrow> spool_step D (w, recs) (w', recs)"
| nack: "zy100_online_spool_ack type rid w = (False, w') \<Longrightarrow> ack_safe (w_spool w) \<Longrightarrow>
    spool_step D (w, recs) (w', recs)"
| ack: "zy100_online_spool_ack type rid w = (True, w') \<Longrightarrow> ack_safe (w_spool w) \<Longrightarrow>
    spool_step D (w, recs) (w', tl recs)"
| preerase: "zy100_online_spool_preerase_poll D n w = (b, w') \<Longrightarrow> spool_step D (w, recs) (w', recs)"
| reclaim_poll: "zy100_online_spool_erase_reclaimable_poll D w = (b, w') \<Longrightarrow>
    spool_step D (w, recs) (w', recs)"
| reclaim_step: "zy100_online_spool_erase_reclaimable_step D w = (p, w') \<Longrightarrow>
    spool_step D (w, recs) (w', recs)"
| block_step: "zy100_online_spool_erase_reclaimable_block32_step D w = (p, w') \<Longrightarrow>
    spool_step D (w, recs) (w', recs)"
| forward: "spool_erase_forward_block32_step D n ret w = (e, w') \<Longrightarrow> spool_step D (w, recs) (w', recs)"
| idle_poll: "zy100_online_spool_flash_idle_poll D w = (b, w') \<Longrightarrow> spool_step D (w, recs) (w', recs)"
| other: "w_spool w' = w_spool w \<Longrightarrow> spool_step D (w, recs) (w', recs)"

inductive_simps spool_step_simps: "spool_step D (w, recs) (w', recs')"

definition spool_start :: "'d world \<times> ghost \<Rightarrow> bool" where
  "spool_start x \<longleftrightarrow> (\<exists>sid s. w_spool (fst x) = zy100_online_spool_begin sid s) \<and> snd x = []"

definition run_inv :: "'d world \<times> ghost \<Rightarrow> bool" where
  "run_inv x \<longleftrightarrow> queue_inv (w_spool (fst x)) (snd x)"

lemma abort_session_inactive:
  assumes "queue_inv s recs"
  shows "\<not> res_active (sp_reservation (zy100_online_spool_abort_session s))"
proof (cases "res_active (sp_reservation s)")
  case False then show ?thesis by (simp add: zy100_online_spool_abort_session_def)
next
  case True
  have "unat (res_total_bytes (sp_reservation s)) \<le> unat (sp_reserve_pos s)"
    using commit_target_lt(2) [OF assms True] by linarith
  then have "\<not> sp_reserve_pos s < res_total_bytes (sp_reservation s)" by (simp add: word_less_nat_alt)
  then show ?thesis
    using True by (simp add: zy100_online_spool_abort_session_def spool_provider_abort_def Let_def)
      (simp add: reservation_zero_def)
qed

lemma abort_cleanup_inv:
  assumes inv: "queue_inv s recs" and out: "zy100_online_spool_abort_cleanup_begin s = (True, s')"
  shows "queue_inv s' []"
proof (rule inv_core)
  let ?a = "zy100_online_spool_abort_session s"
  let ?u = "?a\<lparr>sp_ready := True, sp_reserve_pos := 0, sp_commit_pos := 0, sp_ack_pos := 0, sp_send_pos := 0,
     sp_wrap_gap_start := 0, sp_wrap_gap_bytes := 0, sp_tx_cached := False,
     sp_sent_records := replicate 4 record_zero, sp_sent_head := 0, sp_sent_count := 0,
     sp_stats := (sp_stats ?a)\<lparr>st_pending_records := 0, st_pending_bytes := 0\<rparr>\<rparr>"
  show "queue_inv ?u []"
    using abort_session_inactive [OF inv]
    by (simp add: queue_inv_def queue_inv_defs ends_def)
  obtain bm where bm: "all_reclaimable ?a = ?a\<lparr>sp_reclaimable_bitmap := bm\<rparr>"
    unfolding all_reclaimable_def by blast
  let ?v = "?a\<lparr>sp_reclaimable_bitmap := bm, sp_ready := True, sp_reserve_pos := 0, sp_commit_pos := 0,
     sp_ack_pos := 0, sp_send_pos := 0, sp_wrap_gap_start := 0, sp_wrap_gap_bytes := 0,
     sp_tx_cached := False, sp_sent_records := replicate 4 record_zero, sp_sent_head := 0,
     sp_sent_count := 0,
     sp_stats := (sp_stats ?a)\<lparr>st_pending_records := 0, st_pending_bytes := 0\<rparr>\<rparr>"
  have "s' = spool_refresh_stats ?v"
    using out by (simp add: zy100_online_spool_abort_cleanup_begin_def Let_def reset_positions_def
        on_stats_def bm split: if_splits)
  then show "queue_core s' = queue_core ?u" by simp (simp add: queue_core_def spool_core_def)
qed

lemma forward_to_step:
  "zy100_online_spool_erase_forward_to D n w = (e, w') \<Longrightarrow> spool_step D (w, recs) (w', recs)"
  by (auto simp: zy100_online_spool_erase_forward_to_def intro: spool_step.forward spool_step.other split: if_splits)

text \<open>Every step keeps the invariant.\<close>

lemma step_inv:
  assumes "spool_step D x y" "run_inv x"
  shows "run_inv y"
  using assms
proof (cases rule: spool_step.cases)
  case (pump allow w r w' recs)
  then show ?thesis using pump_inv [of w recs D allow r w'] assms(2) by (simp add: run_inv_def)
next
  case (pumped allow w w' recs)
  then show ?thesis using pump_inv [of w recs D allow PUMP_COMMITTED w'] assms(2) by (simp add: run_inv_def)
next
  case (reserve kind sid rb pb tgt w res tgt' s recs)
  then show ?thesis using reserve_inv [of "w_spool w" recs] assms(2) by (simp add: run_inv_def)
next
  case (peek w io found w' recs)
  then show ?thesis using peek_inv(1) [of w recs D io found w'] assms(2) by (simp add: run_inv_def)
next
  case (nack type rid w w' recs)
  then show ?thesis using ack_inv(1) [of w recs type rid False w'] assms(2) by (simp add: run_inv_def)
next
  case (ack type rid w w' recs)
  then show ?thesis using ack_inv(1) [of w recs type rid True w'] assms(2) by (simp add: run_inv_def)
next
  case (write_page token addr page w io w' recs)
  then show ?thesis using write_page_same inv_core assms(2) by (fastforce simp: run_inv_def)
next
  case (read_back token addr buf w io buf' w' recs)
  then show ?thesis using read_reserved_same inv_core assms(2) by (fastforce simp: run_inv_def)
next
  case (read addr buf len w io buf' w' recs)
  then show ?thesis using read_same inv_core assms(2) by (fastforce simp: run_inv_def)
next
  case (cleanup w s recs)
  then show ?thesis using abort_cleanup_inv assms(2) by (auto simp: run_inv_def)
qed (use assms(2) in \<open>auto simp: run_inv_def same_queue_inv begin_inv note_segment_inv
      intro: provider_commit_inv commit_with_crc_inv abort_inv mark_sent_inv
      dest!: preerase_same reclaimable_poll_same reclaimable_step_same block32_step_same
        forward_step_same flash_idle_same\<close>)

interpretation run: invariant_run "spool_start" "spool_step D" run_inv for D
proof
  show "spool_start x \<Longrightarrow> run_inv x" for x :: "'a world \<times> ghost"
    using begin_inv by (auto simp: spool_start_def run_inv_def)
  show "run_inv x \<Longrightarrow> spool_step D x y \<Longrightarrow> run_inv y" for x y :: "'a world \<times> ghost"
    using step_inv by blast
qed

lemma reach_inv:
  assumes "spool_start x" "(spool_step D)\<^sup>*\<^sup>* x (w, recs)"
  shows "queue_inv (w_spool w) recs"
  using run.inv_reachable [OF assms] by (simp add: run_inv_def)

section \<open>What holds in every reachable state\<close>


lemma word_eq_mod0: "256 dvd unat (x :: u32) \<Longrightarrow> x mod 256 = 0"
  by (simp add: word_unat_eq_iff unat_mod dvd_eq_mod_eq_0)

lemma or_mod_256:
  fixes x y :: u32
  assumes "x mod 256 = 0" "y mod 256 = 0"
  shows "(x OR y) mod 256 = 0"
proof -
  have m: "z mod 256 = take_bit 8 z" for z :: u32 by (simp add: take_bit_eq_mod)
  show ?thesis using assms by (simp add: m)
qed

lemma pos_of_header:
  "ucast (spool_pos_generation p) * 0x100000 + (spool_pos_addr p - 0x2F8000) = p"
proof -
  have d: "unat p div 0x100000 < 65536" using unat_lt_32 [of p] by simp
  have g: "unat (ucast (spool_pos_generation p) :: u32) = unat p div 0x100000"
    unfolding spool_pos_generation_def using d
    by (simp add: unat_ucast_32_16 unat_div)
  have "unat (ucast (spool_pos_generation p) * 0x100000 :: u32) = unat p div 0x100000 * 0x100000"
    using g unat_lt_32 [of p] by (simp add: unat_word_ariths)
  moreover have "spool_pos_addr p - 0x2F8000 = spool_pos_offset p" by (simp add: spool_pos_addr_def)
  moreover have "unat p div 0x100000 * 0x100000 + unat p mod 0x100000 = unat p" by simp
  ultimately have "unat (ucast (spool_pos_generation p) * 0x100000 + (spool_pos_addr p - 0x2F8000)) = unat p"
    using unat_lt_32 [of p] by (subst unat_add_32) (simp_all add: unat_pos_offset)
  then show ?thesis by (simp add: word_unat_eq_iff)
qed

lemma generation_always_valid: "spool_pos_generation_valid p"
proof -
  have "unat p div 0x100000 \<le> 0xFFFF" using unat_lt_32 [of p] by simp
  then show ?thesis by (simp add: spool_pos_generation_valid_def word_le_nat_alt unat_div)
qed

text \<open>The part of the self-check below the test of the transmit window.\<close>

lemma self_check_upto:
  assumes inv: "queue_inv s recs"
  shows "\<not> (sp_ack_pos s > sp_send_pos s \<or> sp_send_pos s > sp_commit_pos s \<or>
         sp_commit_pos s > sp_reserve_pos s \<or> spool_used_bytes s = None)"
    "(sp_reserve_pos s OR sp_commit_pos s OR sp_ack_pos s OR sp_send_pos s) mod 256 = 0"
    "res_active (sp_reservation s) \<Longrightarrow>
       spool_pos_addr (spool_skip_gap_value (sp_commit_pos s) s) = res_header_addr (sp_reservation s) \<and>
       spool_skip_gap_value (sp_commit_pos s) s + res_total_bytes (sp_reservation s) = sp_reserve_pos s"
    "sp_wrap_gap_bytes s \<noteq> 0 \<Longrightarrow>
       (sp_wrap_gap_start s OR sp_wrap_gap_bytes s) mod 256 = 0 \<and> \<not> sp_wrap_gap_start s < sp_ack_pos s \<and>
       \<not> sp_wrap_gap_start s + sp_wrap_gap_bytes s > sp_reserve_pos s \<and>
       spool_pos_offset (sp_wrap_gap_start s + sp_wrap_gap_bytes s) = 0"
    "sp_wrap_gap_bytes s = 0 \<Longrightarrow> sp_wrap_gap_start s = 0"
    "\<not> ucast (sp_sent_count s) > (4 :: u32)"
proof -
  have i: "inv_shape s" "inv_chain s recs" "inv_gap s recs" "inv_res s"
    using inv by (simp_all add: queue_inv_def)
  note pos = inv_positions [OF inv] and sk = skip_gap_value_unat [OF inv]
  show "\<not> (sp_ack_pos s > sp_send_pos s \<or> sp_send_pos s > sp_commit_pos s \<or>
         sp_commit_pos s > sp_reserve_pos s \<or> spool_used_bytes s = None)"
    using pos used_bytes_some [of s "sp_reserve_pos s - sp_ack_pos s"]
    by (auto simp: word_less_nat_alt word_le_nat_alt not_less)
  show "(sp_reserve_pos s OR sp_commit_pos s OR sp_ack_pos s OR sp_send_pos s) mod 256 = 0"
    using pos by (intro or_mod_256 word_eq_mod0)
  show "sp_wrap_gap_bytes s = 0 \<Longrightarrow> sp_wrap_gap_start s = 0" using i(3) by (simp add: inv_gap_def)
  show "\<not> ucast (sp_sent_count s) > (4 :: u32)" using i(1) by (simp add: inv_shape_def word_less_nat_alt)
  show "spool_pos_addr (spool_skip_gap_value (sp_commit_pos s) s) = res_header_addr (sp_reservation s) \<and>
       spool_skip_gap_value (sp_commit_pos s) s + res_total_bytes (sp_reservation s) = sp_reserve_pos s"
    if act: "res_active (sp_reservation s)"
  proof -
    have t: "spool_skip_gap_value (sp_commit_pos s) s = of_nat (commit_target s)"
      using sk(1) by (metis unat_of_nat_unat)
    have "unat (of_nat (commit_target s) + res_total_bytes (sp_reservation s) :: u32) = unat (sp_reserve_pos s)"
      using commit_target_lt [OF inv act] unat_lt_32 [of "sp_reserve_pos s"] by (subst unat_add_32) simp_all
    then show ?thesis
      unfolding t using i(4) act by (simp add: inv_res_def Let_def word_unat_eq_iff)
  qed
  assume g: "sp_wrap_gap_bytes s \<noteq> 0"
  have gi: "256 dvd unat (sp_wrap_gap_start s)" "256 dvd unat (sp_wrap_gap_bytes s)"
    "unat (sp_wrap_gap_start s) + unat (sp_wrap_gap_bytes s) \<le> unat (sp_reserve_pos s)"
    "(unat (sp_wrap_gap_start s) + unat (sp_wrap_gap_bytes s)) mod 0x100000 = 0"
    "unat (sp_wrap_gap_start s) \<in> set (ends (unat (sp_ack_pos s)) recs)"
    using i(3) g by (simp_all add: inv_gap_def)
  have "unat (sp_ack_pos s) \<le> unat (sp_wrap_gap_start s)"
    using gi(5) inv_record_bounds(1) [OF i(2)] by (fastforce simp: ends_def)
  then show "(sp_wrap_gap_start s OR sp_wrap_gap_bytes s) mod 256 = 0 \<and> \<not> sp_wrap_gap_start s < sp_ack_pos s \<and>
       \<not> sp_wrap_gap_start s + sp_wrap_gap_bytes s > sp_reserve_pos s \<and>
       spool_pos_offset (sp_wrap_gap_start s + sp_wrap_gap_bytes s) = 0"
    using gi gap_end_unat(1) [OF inv g]
    by (intro conjI) (rule or_mod_256 [OF word_eq_mod0 word_eq_mod0],
        simp_all add: word_less_nat_alt word_unat_eq_iff [of "spool_pos_offset _"] unat_pos_offset)
qed

lemma window_ends:
  assumes inv: "queue_inv s recs" and g: "sp_wrap_gap_bytes s = 0" and k: "sp_sent_count s \<noteq> 0"
  shows "rec_header_addr (sp_sent_records s ! unat (sp_sent_head s)) = spool_pos_addr (sp_ack_pos s)"
    "rec_generation (sp_sent_records s ! unat (sp_sent_head s)) = spool_pos_generation (sp_ack_pos s)"
    "ucast (rec_generation (sent_record s (unat (sp_sent_count s) - 1))) * 0x100000 +
       (rec_header_addr (sent_record s (unat (sp_sent_count s) - 1)) - 0x2F8000) +
       rec_record_bytes (sent_record s (unat (sp_sent_count s) - 1)) = sp_send_pos s"
proof -
  have i: "inv_shape s" "inv_chain s recs" "inv_sent s recs" using inv by (simp_all add: queue_inv_def)
  have k0: "0 < unat (sp_sent_count s)" using k by (simp add: unat_gt_0)
  then obtain q n rs where recs: "recs = (q, n) # rs" using i(2) by (cases recs) (auto simp: inv_chain_def)
  note f = first_sent [OF inv [unfolded recs] k]
  have "q = unat (sp_ack_pos s)" using f(4) g by simp
  then have "of_nat q = sp_ack_pos s" by simp
  then show "rec_header_addr (sp_sent_records s ! unat (sp_sent_head s)) = spool_pos_addr (sp_ack_pos s)"
    "rec_generation (sp_sent_records s ! unat (sp_sent_head s)) = spool_pos_generation (sp_ack_pos s)"
    using f(1) by (simp_all add: rec_at_def)
  let ?j = "unat (sp_sent_count s) - 1" and ?l = "sent_record s (unat (sp_sent_count s) - 1)"
  obtain q' n' where qn: "recs ! ?j = (q', n')" by fastforce
  have at: "rec_at ?l (q', n')" using i(3) k0 qn by (metis inv_sent_def diff_less zero_less_one)
  have jl: "?j < length recs" using i(2) k0 by (auto simp: inv_chain_def)
  have t: "take (unat (sp_sent_count s)) recs = take ?j recs @ [(q', n')]"
    using take_Suc_conv_app_nth [OF jl] qn k0 by simp
  have ch: "chain (hop s) (unat (sp_ack_pos s)) (take (unat (sp_sent_count s)) recs) (unat (sp_send_pos s))"
    using i(2) by (simp add: inv_chain_def)
  have "last (ends (unat (sp_ack_pos s)) (take (unat (sp_sent_count s)) recs)) = unat (sp_send_pos s)"
    using chain_last [OF ch] g by simp
  then have e: "q' + n' = unat (sp_send_pos s)" unfolding t by (simp add: ends_def)
  have q': "unat (of_nat q' :: u32) = q'"
    using e unat_lt_32 [of "sp_send_pos s"] by (simp add: unat_of_nat take_bit_nat_eq_self_iff)
  have "unat (of_nat q' + rec_record_bytes ?l) = unat (sp_send_pos s)"
    using at e q' unat_lt_32 [of "sp_send_pos s"] by (subst unat_add_32) (auto simp: rec_at_def)
  then have "of_nat q' + rec_record_bytes ?l = sp_send_pos s" by (simp add: word_unat_eq_iff)
  then show "ucast (rec_generation ?l) * 0x100000 + (rec_header_addr ?l - 0x2F8000) + rec_record_bytes ?l = sp_send_pos s"
    using at pos_of_header [of "of_nat q'"] by (simp add: rec_at_def)
qed

lemma self_check_clean:
  assumes inv: "queue_inv s recs" and g: "sp_wrap_gap_bytes s = 0" and e: "\<not> sp_erase_wip s"
  shows "zy100_online_spool_invariant_code s = 0"
proof -
  note c = self_check_upto [OF inv]
  have i: "inv_shape s" "inv_chain s recs" "inv_pend s recs" using inv by (simp_all add: queue_inv_def)
  have gs: "sp_wrap_gap_start s = 0" by (rule c(5) [OF g])
  have idle: "sp_send_pos s = sp_ack_pos s" if "sp_sent_count s = 0"
    using i(2) that g by (simp add: inv_chain_def word_unat_eq_iff)
  have three: "\<not> (st_pending_records (sp_stats s) = 0 \<and>
      (sp_ack_pos s \<noteq> sp_commit_pos s \<or> sp_send_pos s \<noteq> sp_commit_pos s \<or> sp_sent_count s \<noteq> 0))"
  proof
    assume a: "st_pending_records (sp_stats s) = 0 \<and>
      (sp_ack_pos s \<noteq> sp_commit_pos s \<or> sp_send_pos s \<noteq> sp_commit_pos s \<or> sp_sent_count s \<noteq> 0)"
    then have r: "recs = []" using i(3) by (simp add: inv_pend_def)
    then have "unat (sp_sent_count s) = 0" "unat (sp_send_pos s) = unat (sp_ack_pos s)"
      "unat (sp_commit_pos s) = unat (sp_send_pos s)" using i(2) g by (simp_all add: inv_chain_def)
    then have "sp_sent_count s = 0" "sp_send_pos s = sp_ack_pos s" "sp_commit_pos s = sp_send_pos s"
      by (simp_all only: unat_eq_zero word_unat_eq_iff)
    then show False using a by simp
  qed
  have sk: "spool_skip_gap_value (sp_ack_pos s) s = sp_ack_pos s" by (simp add: spool_skip_gap_value_def g)
  have idx: "sp_sent_records s ! ((unat (sp_sent_head s) + unat (sp_sent_count s) - 1) mod 4) =
      sent_record s (unat (sp_sent_count s) - 1)" if "sp_sent_count s \<noteq> 0"
  proof -
    have "0 < unat (sp_sent_count s)" using that by (simp add: unat_gt_0)
    then show ?thesis by (simp add: sent_record_def)
  qed
  have final: "(if sp_sent_count s = 0 then (if sp_ack_pos s = sp_send_pos s then 0 else 7) else
      if rec_header_addr (sp_sent_records s ! unat (sp_sent_head s)) \<noteq> spool_pos_addr (sp_ack_pos s) \<or>
         rec_generation (sp_sent_records s ! unat (sp_sent_head s)) \<noteq> spool_pos_generation (sp_ack_pos s) \<or>
         ucast (rec_generation (sp_sent_records s ! ((unat (sp_sent_head s) + unat (sp_sent_count s) - 1) mod 4))) * 0x100000 +
         (rec_header_addr (sp_sent_records s ! ((unat (sp_sent_head s) + unat (sp_sent_count s) - 1) mod 4)) - 0x2F8000) +
         rec_record_bytes (sp_sent_records s ! ((unat (sp_sent_head s) + unat (sp_sent_count s) - 1) mod 4)) \<noteq> sp_send_pos s
      then 7 else 0 :: u8) = 0"
  proof (cases "sp_sent_count s = 0")
    case True then show ?thesis using idle by simp
  next
    case False then show ?thesis using window_ends [OF inv g False] unfolding idx [OF False] by simp
  qed
  have cr: "\<not> sp_ack_pos s > sp_commit_pos s" using c(1) by auto
  have n2: "\<not> (sp_reserve_pos s OR sp_commit_pos s OR sp_ack_pos s OR sp_send_pos s) mod 256 \<noteq> 0"
    using c(2) by simp
  have n4: "\<not> (res_active (sp_reservation s) \<and>
      (spool_pos_addr (spool_skip_gap_value (sp_commit_pos s) s) \<noteq> res_header_addr (sp_reservation s) \<or>
       spool_skip_gap_value (sp_commit_pos s) s + res_total_bytes (sp_reservation s) \<noteq> sp_reserve_pos s))"
    using c(3) by auto
  show ?thesis
    unfolding zy100_online_spool_invariant_code_def Let_def sk if_not_P [OF c(1)] if_not_P [OF n2]
      if_not_P [OF three] if_not_P [OF n4] if_not_P [OF c(6)] if_not_P [OF cr]
    by (simp only: g gs e generation_always_valid final simp_thms if_False)
qed


section \<open>First in, first out\<close>

lemma accepted_in_flight:
  assumes "zy100_online_spool_ack type rid w = (True, w')"
  shows "0 < unat (sp_sent_count (w_spool w))"
proof -
  have "sp_sent_count (w_spool w) \<noteq> 0"
    using assms unfolding zy100_online_spool_ack_def Let_def by (auto split: if_splits prod.splits)
  then show ?thesis by (simp add: unat_gt_0)
qed

text \<open>C2: An acknowledgement that is accepted away from the wrap gap removes exactly the oldest
  record: that record carries the acknowledged id and type, lay where the queue says, and the
  remaining records, positions and counters are a consistent queue again.\<close>

theorem ack_removes_oldest:
  assumes "queue_inv (w_spool w) recs" "ack_safe (w_spool w)"
    "zy100_online_spool_ack type rid w = (True, w')"
  shows "recs \<noteq> [] \<and> rec_at (sent_record (w_spool w) 0) (hd recs) \<and>
    rec_record_id (sent_record (w_spool w) 0) = rid \<and> rec_type (sent_record (w_spool w) 0) = type \<and>
    queue_inv (w_spool w') (tl recs) \<and>
    unat (st_pending_records (sp_stats (w_spool w'))) = length recs - 1"
proof -
  note r = ack_inv [OF assms]
  have "rec_at (sent_record (w_spool w) 0) (recs ! 0)"
    using assms(1) accepted_in_flight [OF assms(3)] by (simp add: queue_inv_def inv_sent_def)
  then show ?thesis
    using r by (auto simp: hd_conv_nth queue_inv_def inv_pend_def)
qed

text \<open>C4: A transmit read that returns a record returns the oldest record not yet sent: its address
  and generation are those of the position where it was committed, provided the size its header
  states is the size that was committed there (what a flash that keeps its pages guarantees).\<close>

theorem peek_returns_oldest_unsent:
  assumes "queue_inv (w_spool w) recs" "zy100_online_spool_peek_tx D w = (IO_OK, Some rec, w')"
    "\<not> sp_tx_cached (w_spool w) \<Longrightarrow>
      unat (rec_record_bytes rec) = snd (recs ! unat (sp_sent_count (w_spool w)))"
  shows "unat (sp_sent_count (w_spool w)) < length recs \<and>
    rec_header_addr rec = spool_pos_addr (of_nat (fst (recs ! unat (sp_sent_count (w_spool w))))) \<and>
    rec_generation rec = spool_pos_generation (of_nat (fst (recs ! unat (sp_sent_count (w_spool w))))) \<and>
    queue_inv (w_spool w') recs"
proof -
  note p = peek_inv [OF assms(1,2)]
  show ?thesis using p assms(3) by (auto simp: rec_at_def split_beta)
qed

text \<open>C3: A commit appends: when the pump reports a record as committed, that record stands behind
  every record of the queue, begins where the queue ended, and the state is a consistent queue with
  this record as its last.\<close>

theorem commit_appends:
  assumes "queue_inv (w_spool w) recs" "zy100_online_spool_commit_pump_once D allow w = (PUMP_COMMITTED, w')"
  shows "queue_inv (w_spool w') (recs @ [(unat (sp_commit_pos (w_spool w)),
      unat (res_total_bytes (sp_reservation (w_spool w))))]) \<and>
    (\<forall>(q, n) \<in> set recs. q + n \<le> unat (sp_commit_pos (w_spool w))) \<and>
    unat (st_pending_records (sp_stats (w_spool w'))) = length recs + 1"
proof -
  have "inv_chain (w_spool w) recs" using assms(1) by (simp add: queue_inv_def)
  then have "\<forall>(q, n) \<in> set recs. q + n \<le> unat (sp_commit_pos (w_spool w))"
    using inv_record_bounds(2) by blast
  moreover have "queue_inv (w_spool w') (recs @ [(unat (sp_commit_pos (w_spool w)),
      unat (res_total_bytes (sp_reservation (w_spool w))))])"
    using pump_inv [OF assms] by simp
  ultimately show ?thesis by (auto simp: queue_inv_def inv_pend_def)
qed

section \<open>Erase safety\<close>

lemma live_bytes_protected:
  assumes inv: "queue_inv s recs" and act: "sp_session_active s"
    and free: "\<not> spool_sector_erase_protected k s"
  shows "(\<forall>(q, n) \<in> set recs. \<forall>p. q \<le> p \<and> p < q + n \<longrightarrow> (p mod 0x100000) div 4096 \<noteq> unat k) \<and>
    (\<forall>p. unat (sp_commit_pos s) \<le> p \<and> p < unat (sp_reserve_pos s) \<longrightarrow>
       (p mod 0x100000) div 4096 \<noteq> unat k)"
proof -
  have ch: "inv_chain s recs" using inv by (simp add: queue_inv_def)
  note pos = inv_positions [OF inv]
  have "spool_used_bytes s \<noteq> None" using self_check_upto(1) [OF inv] by blast
  then have dead: "(p mod 0x100000) div 4096 \<noteq> unat k"
    if "unat (sp_ack_pos s) \<le> p" "p < unat (sp_reserve_pos s)" for p
    using unprotected_sector(3) [OF free act] that by (auto simp: sector_live_def)
  have "(p mod 0x100000) div 4096 \<noteq> unat k" if "(q, n) \<in> set recs" "q \<le> p" "p < q + n" for q n p
    using inv_record_bounds [OF ch that(1)] that(2,3) pos(3) by (intro dead) linarith+
  moreover have "(p mod 0x100000) div 4096 \<noteq> unat k"
    if "unat (sp_commit_pos s) \<le> p" "p < unat (sp_reserve_pos s)" for p
    using that pos(1,2) by (intro dead) linarith+
  ultimately show ?thesis by blast
qed



section \<open>The queue at work\<close>

text \<open>A flash that answers at once and always reads the same page, and a session with two
  committed records, the first of them in flight.\<close>

definition demo_flash :: "u8 list \<Rightarrow> unit device" where
  "demo_flash page = \<lparr>gd25q32e_init = \<lambda>d. (IMU_STATUS_OK, d),
     gd25q32e_is_busy = \<lambda>d. (IMU_STATUS_OK, False, d),
     gd25q32e_wait_while_busy = \<lambda>t d. (IMU_STATUS_OK, d),
     gd25q32e_page_program = \<lambda>a bs d. (IMU_STATUS_OK, d),
     gd25q32e_read_fast = \<lambda>a buf d. (IMU_STATUS_OK, page, d),
     gd25q32e_sector_erase_4k = \<lambda>a d. (IMU_STATUS_OK, d),
     gd25q32e_block_erase_32k = \<lambda>a d. (IMU_STATUS_OK, d),
     spi_bus_owner_none = \<lambda>d. (True, d),
     bsp_capture_timebase_snapshot = \<lambda>d. (True, 0, d),
     imu_bsp_local_timestamp_us = \<lambda>d. (0, d),
     zy100_os_time_ms = \<lambda>d. (0, d),
     svc_app_watchdog_poll = \<lambda>t d. d\<rparr>"

definition demo_record :: spool_record where
  "demo_record = record_zero\<lparr>rec_type := 4, rec_record_id := 1, rec_header_addr := 0x2F8000,
     rec_record_bytes := 0x200\<rparr>"

definition demo_spool :: spool_state where
  "demo_spool = spool_zero\<lparr>sp_ready := True, sp_session_active := True, sp_session_id := 7,
     sp_reserve_pos := 0x500, sp_commit_pos := 0x500, sp_send_pos := 0x200,
     sp_sent_records := [demo_record, record_zero, record_zero, record_zero], sp_sent_count := 1,
     sp_reclaimable_bitmap := [0xFF20, 0, 0, 0, 0, 0, 0, 0],
     sp_stats := stats_zero\<lparr>st_pending_records := 2, st_pending_bytes := 0x500\<rparr>\<rparr>"

definition demo_world :: "unit world" where
  "demo_world = \<lparr>w_spool = demo_spool, w_diag = sd_zero, w_stress = online_stress_zero, w_dev = ()\<rparr>"

lemmas demo_defs = demo_spool_def demo_record_def spool_zero_def stats_zero_def reservation_zero_def record_zero_def

lemma demo_sel [simp]:
  "w_spool demo_world = demo_spool" "w_stress demo_world = online_stress_zero" "w_dev demo_world = ()"
  by (simp_all add: demo_world_def)

lemma demo_fields:
  "sp_session_active demo_spool" "sp_ack_pos demo_spool = 0" "sp_erase_wip demo_spool = False"
  "sp_reclaimable_bitmap demo_spool = [0xFF20, 0, 0, 0, 0, 0, 0, 0]"
  "sp_erased_bitmap demo_spool = replicate 8 0"
  "res_active (sp_reservation demo_spool) = False" "sp_tx_cached demo_spool = False"
  "sp_sent_count demo_spool = 1" "sent_record demo_spool 0 = demo_record"
  "rec_header_addr demo_record = 0x2F8000" "rec_record_bytes demo_record = 0x200"
  "spool_used_bytes demo_spool = Some 0x500"
  by (simp_all add: demo_defs sent_record_def spool_used_bytes_def)

lemma demo_inv: "queue_inv demo_spool [(0, 0x200), (0x200, 0x300)]"
  by (simp add: queue_inv_def queue_inv_defs demo_defs ends_def sent_record_def rec_at_def
      spool_pos_addr_def spool_pos_offset_def spool_pos_generation_def)

lemma demo_ack: "fst (zy100_online_spool_ack 4 1 demo_world) = True"
  by (simp add: zy100_online_spool_ack_def Let_def spool_skip_gap_bounded_def spool_skip_gap_value_def
      demo_defs spool_pos_addr_def spool_pos_offset_def spool_pos_generation_def ack_accept_def on_stats_def)

theorem ack_removes_oldest_witness:
  "fst (zy100_online_spool_ack 4 1 demo_world) = True \<and>
   queue_inv (w_spool (snd (zy100_online_spool_ack 4 1 demo_world))) [(0x200, 0x300)]"
proof -
  have "zy100_online_spool_ack 4 1 demo_world = (True, snd (zy100_online_spool_ack 4 1 demo_world))"
    using demo_ack by (metis prod.collapse)
  moreover have "ack_safe (w_spool demo_world)" by (simp add: ack_safe_def demo_defs)
  ultimately show ?thesis
    using ack_removes_oldest [of demo_world "[(0, 0x200), (0x200, 0x300)]"] demo_inv demo_ack by simp
qed

definition demo_header :: "u8 list" where
  "demo_header = [0x4F, 0x4E, 0x4C, 0x53, 1, 0, 0, 1, 7, 0, 0, 0, 4, 3, 1, 0, 2, 0, 0, 0, 200, 0, 0, 0,
     0, 2, 0, 0, 77, 0, 0, 0, 1, 0, 0, 0, 0, 0, 0, 0, 9, 0, 0, 0, 0, 0, 0, 0] @ replicate 208 0xFF"

lemma demo_header_length [simp]: "length demo_header = 256"
  by (simp add: demo_header_def)

lemma demo_header_fields:
  "zy100_get_u32_le demo_header 0 = 0x534C4E4F" "zy100_get_u16_le demo_header 4 = 1"
  "zy100_get_u16_le demo_header 6 = 256" "zy100_get_u32_le demo_header 8 = 7"
  "demo_header ! 12 = 4" "demo_header ! 13 = 3" "zy100_get_u16_le demo_header 14 = 1"
  "zy100_get_u32_le demo_header 16 = 2" "zy100_get_u32_le demo_header 24 = 0x200"
  "zy100_get_u32_le demo_header 32 = 1" "zy100_get_u16_le demo_header 44 = 0"
  by (simp_all add: demo_header_def zy100_get_u32_le_def zy100_get_u16_le_def nth_append)

lemma demo_busy:
  "\<exists>w'. spool_io_busy (demo_flash page) w = (IMU_STATUS_OK, False, w') \<and> w_spool w' = w_spool w"
  by (simp add: spool_io_busy_def timebase_snapshot_def demo_flash_def Let_def)

lemma demo_ready:
  "\<not> sp_erase_wip (w_spool w) \<Longrightarrow>
   \<exists>w'. spool_tx_read_ready (demo_flash page) w = (IO_OK, w') \<and> w_spool w' = w_spool w"
  by (simp add: spool_tx_read_ready_def spool_io_busy_def bus_owner_none_def timebase_snapshot_def
      demo_flash_def Let_def)

lemma demo_read:
  "length page = 256 \<Longrightarrow> length (sp_page (w_spool w)) = 256 \<Longrightarrow> kind \<noteq> 1 \<Longrightarrow>
   \<exists>w'. spool_read_page (demo_flash page) kind addr 256 w = (IMU_STATUS_OK, w') \<and>
     w_spool w' = (w_spool w)\<lparr>sp_page := page\<rparr>"
  by (simp add: spool_read_page_def spool_io_read_def timebase_snapshot_def demo_flash_def Let_def put_at_def)

definition demo_second :: spool_record where
  "demo_second = \<lparr>rec_type = 4, rec_flags = 3, rec_generation = 0, rec_record_id = 2,
     rec_header_addr = 0x2F8200, rec_data_addr = 0x2F8300, rec_record_bytes = 0x300,
     rec_source_record_bytes = 0x200, rec_payload_bytes = 200, rec_crc32 = 77,
     rec_capture_segment_id = 1, rec_segment_start_offset_ms = 0, rec_source_id = 9\<rparr>"

lemma demo_validate:
  assumes "sp_session_id s = 7"
  shows "spool_validate_header demo_header 0x2F8200 0 s = Some demo_second"
  using assms
  by (simp add: spool_validate_header_def demo_header_fields Let_def demo_second_def record_zero_def)
    (simp add: demo_header_def zy100_get_u32_le_def nth_append)

lemma demo_peek:
  "\<exists>w'. zy100_online_spool_peek_tx (demo_flash demo_header) demo_world = (IO_OK, Some demo_second, w')"
proof -
  let ?w1 = "on_spool (\<lambda>_. demo_spool) demo_world"
  have sk: "spool_skip_gap_bounded (sp_send_pos demo_spool) (sp_commit_pos demo_spool) False demo_spool =
      (True, 0x200, demo_spool)"
    by (simp add: spool_skip_gap_bounded_def spool_skip_gap_value_def demo_defs Let_def)
  have f: "sp_tx_cached demo_spool = False" "demo_spool\<lparr>sp_send_pos := 0x200\<rparr> = demo_spool"
    "sp_sent_count demo_spool = 1" "sp_send_pos demo_spool = 0x200" "sp_commit_pos demo_spool = 0x500"
    "sp_session_id demo_spool = 7" "length (sp_page demo_spool) = 256" "sp_erase_wip demo_spool = False"
    by (simp_all add: demo_defs)
  obtain w2 where w2: "spool_tx_read_ready (demo_flash demo_header) ?w1 = (IO_OK, w2)" "w_spool w2 = demo_spool"
    using demo_ready [of ?w1 demo_header] f by auto
  have a: "spool_pos_addr 0x200 = 0x2F8200" "spool_pos_generation 0x200 = 0"
    by (simp_all add: spool_pos_addr_def spool_pos_offset_def spool_pos_generation_def)
  obtain w3 where w3: "spool_read_page (demo_flash demo_header) 2 0x2F8200 256 w2 = (IMU_STATUS_OK, w3)"
    "w_spool w3 = demo_spool\<lparr>sp_page := demo_header\<rparr>"
    using demo_read [of demo_header w2 2 "0x2F8200"] w2 f by auto
  have v: "spool_validate_header demo_header 0x2F8200 0 (demo_spool\<lparr>sp_page := demo_header\<rparr>) = Some demo_second"
    by (rule demo_validate) (simp add: f)
  show ?thesis
    unfolding zy100_online_spool_peek_tx_def Let_def demo_sel sk prod.case f(2) w2 a w3
    using f v by (simp add: w3 word_le_nat_alt)
qed

theorem peek_returns_oldest_unsent_witness:
  "\<exists>w'. zy100_online_spool_peek_tx (demo_flash demo_header) demo_world = (IO_OK, Some demo_second, w') \<and>
     rec_header_addr demo_second = spool_pos_addr 0x200 \<and>
     queue_inv (w_spool w') [(0, 0x200), (0x200, 0x300)]"
proof -
  obtain w' where p: "zy100_online_spool_peek_tx (demo_flash demo_header) demo_world = (IO_OK, Some demo_second, w')"
    using demo_peek by blast
  have k: "unat (sp_sent_count (w_spool demo_world)) = 1" by (simp add: demo_defs)
  show ?thesis
    using peek_returns_oldest_unsent [of demo_world "[(0, 0x200), (0x200, 0x300)]", OF _ p] p k demo_inv
    by (simp add: demo_second_def)
qed

lemma demo_free:
  assumes "unat k \<in> {5, 8, 9, 10, 11, 12, 13, 14, 15}"
  shows "\<not> spool_sector_erase_protected k demo_spool"
proof -
  have k: "k \<in> {5, 8, 9, 10, 11, 12, 13, 14, 15}"
    using assms by (auto simp: word_unat_eq_iff)
  have "spool_bitmap_get (sp_reclaimable_bitmap demo_spool) k"
    using k by (auto simp: bitmap_get_bit demo_fields)
  moreover have "\<not> sector_live k demo_spool"
  proof
    assume "sector_live k demo_spool"
    then obtain p where "p < 0x500" "(p mod 0x100000) div 4096 = unat k"
      by (auto simp: sector_live_def demo_defs)
    then show False using assms by auto
  qed
  moreover have lt: "unat k < 256" using assms by auto
  ultimately have "\<not> spool_sector_contains_live_bytes k demo_spool"
    using contains_live_iff [OF lt] by blast
  moreover have "\<not> spool_ranges_overlap (spool_sector_addr k) 4096 0x2F8000 0x200"
    using k by (auto simp: spool_ranges_overlap_def spool_sector_addr_def)
  ultimately show ?thesis
    using k \<open>spool_bitmap_get (sp_reclaimable_bitmap demo_spool) k\<close>
    by (auto simp: spool_sector_erase_protected_def demo_fields Let_def)
qed

lemma demo_not_busy:
  "\<exists>w'. spool_flash_busy (demo_flash page) w = (True, False, w') \<and> w_spool w' = w_spool w"
  using demo_busy [of page w] by (auto simp: spool_flash_busy_def)

lemma demo_erase: "\<exists>w'. spool_issue_erase (demo_flash page) 5 demo_world = (True, w')"
proof -
  obtain w1 where w1: "spool_flash_busy (demo_flash page) demo_world = (True, False, w1)"
    "w_spool w1 = demo_spool" using demo_not_busy [of page demo_world] by auto
  show ?thesis
    using demo_free [of 5]
    by (simp add: spool_issue_erase_def demo_fields w1(1)) (simp add: demo_flash_def)
qed


lemma demo_block: "spool_block32_reclaimable 8 demo_spool"
proof -
  have "\<not> spool_sector_erase_protected (8 + of_nat j) demo_spool \<and>
      spool_bitmap_get (sp_reclaimable_bitmap demo_spool) (8 + of_nat j)" if "j < 8" for j
  proof -
    have u: "unat (8 + of_nat j :: u32) = 8 + j"
      using that by (subst unat_add_32) (simp_all add: unat_of_nat take_bit_nat_eq_self_iff)
    have "j \<in> {0, 1, 2, 3, 4, 5, 6, 7}" using that by auto
    then have "unat (8 + of_nat j :: u32) \<in> {5, 8, 9, 10, 11, 12, 13, 14, 15}" unfolding u by auto
    then have f: "\<not> spool_sector_erase_protected (8 + of_nat j) demo_spool" by (rule demo_free)
    then show ?thesis using unprotected_sector(2) demo_fields(1) by blast
  qed
  then show ?thesis
    by (simp add: spool_block32_reclaimable_def list_all_iff Let_def spool_sector_addr_def)
qed


text \<open>The same session while the second record is being committed: its header is written.\<close>

definition demo_committing :: "unit world" where
  "demo_committing = demo_world\<lparr>w_spool := demo_spool\<lparr>sp_commit_pos := 0x200,
     sp_reservation := reservation_zero\<lparr>res_active := True, res_data_done := True, res_type := 4,
       res_record_id := 2, res_header_addr := 0x2F8200, res_data_addr := 0x2F8300,
       res_source_record_bytes := 0x200, res_payload_bytes := 200, res_total_bytes := 0x300,
       res_commit_state := COMMIT_HEADER_VERIFY\<rparr>,
     sp_stats := stats_zero\<lparr>st_pending_records := 1, st_pending_bytes := 0x200\<rparr>\<rparr>\<rparr>"

lemma demo_committing_inv: "queue_inv (w_spool demo_committing) [(0, 0x200)]"
  by (simp add: demo_committing_def queue_inv_def queue_inv_defs demo_defs ends_def sent_record_def
      rec_at_def commit_target_def spool_pos_addr_def spool_pos_offset_def spool_pos_generation_def)

lemma demo_commit:
  "\<exists>w'. zy100_online_spool_commit_pump_once (demo_flash demo_header) True demo_committing = (PUMP_COMMITTED, w')"
proof -
  let ?s = "w_spool demo_committing"
  have f: "res_active (sp_reservation ?s)" "res_data_done (sp_reservation ?s)"
    "res_commit_state (sp_reservation ?s) = COMMIT_HEADER_VERIFY"
    "res_header_addr (sp_reservation ?s) = 0x2F8200" "res_record_id (sp_reservation ?s) = 2"
    "res_total_bytes (sp_reservation ?s) = 0x300" "sp_commit_pos ?s = 0x200" "sp_reserve_pos ?s = 0x500"
    "sp_session_id ?s = 7" "length (sp_page ?s) = 256"
    by (simp_all add: demo_committing_def demo_defs)
  obtain w1 where w1: "bus_owner_none (demo_flash demo_header) demo_committing = (True, w1)" "w_spool w1 = ?s"
    by (simp add: bus_owner_none_def demo_flash_def)
  obtain w2 where w2: "spool_io_busy (demo_flash demo_header) w1 = (IMU_STATUS_OK, False, w2)" "w_spool w2 = ?s"
    using demo_busy [of demo_header w1] w1 by auto
  obtain w3 where w3: "spool_read_page (demo_flash demo_header) 1 0x2F8200 256 w2 = (IMU_STATUS_OK, w3)"
    "w_spool w3 = ?s\<lparr>sp_page := demo_header, sp_page_retry_pending := False\<rparr>"
    using w2(2) f(10)
    by (simp add: spool_read_page_def spool_io_read_def timebase_snapshot_def demo_flash_def Let_def put_at_def)
  have g: "spool_pos_generation 0x200 = 0" by (simp add: spool_pos_generation_def)
  have v: "spool_validate_header demo_header 0x2F8200 0
      (?s\<lparr>sp_page := demo_header, sp_page_retry_pending := False\<rparr>) = Some demo_second"
    by (rule demo_validate) (simp add: f)
  have step: "\<exists>w'. commit_verify_step (demo_flash demo_header) w2 = (PUMP_COMMITTED, w')"
    unfolding commit_verify_step_def Let_def w2 f w3 prod.case
    by (simp add: f g v demo_second_def)
  show ?thesis
    unfolding zy100_online_spool_commit_pump_once_def Let_def w1 w2 prod.case f
    using step by (simp add: f)
qed

theorem commit_appends_witness:
  "\<exists>w'. zy100_online_spool_commit_pump_once (demo_flash demo_header) True demo_committing = (PUMP_COMMITTED, w') \<and>
     queue_inv (w_spool w') [(0, 0x200), (0x200, 0x300)]"
proof -
  obtain w' where p: "zy100_online_spool_commit_pump_once (demo_flash demo_header) True demo_committing =
      (PUMP_COMMITTED, w')" using demo_commit by blast
  have "unat (sp_commit_pos (w_spool demo_committing)) = 0x200"
    "unat (res_total_bytes (sp_reservation (w_spool demo_committing))) = 0x300"
    by (simp_all add: demo_committing_def)
  then show ?thesis using commit_appends [OF demo_committing_inv p] p by simp
qed

section \<open>Two races at the wrap gap\<close>

text \<open>A session whose sender has reached the wrap gap while the record behind the gap is already
  committed.\<close>

definition race_world :: "unit world" where
  "race_world = demo_world\<lparr>w_spool := demo_spool\<lparr>sp_ack_pos := 0xFFB00, sp_send_pos := 0xFFE00,
     sp_commit_pos := 0x100400, sp_reserve_pos := 0x100400,
     sp_wrap_gap_start := 0xFFE00, sp_wrap_gap_bytes := 0x200,
     sp_sent_records := [demo_record\<lparr>rec_header_addr := 0x3F7B00, rec_record_bytes := 0x300\<rparr>,
       record_zero, record_zero, record_zero],
     sp_stats := stats_zero\<lparr>st_pending_records := 2, st_pending_bytes := 0x700\<rparr>\<rparr>\<rparr>"

lemma race_inv: "queue_inv (w_spool race_world) [(0xFFB00, 0x300), (0x100000, 0x400)]"
  by (simp add: race_world_def queue_inv_def queue_inv_defs demo_defs ends_def sent_record_def
      rec_at_def hop_def spool_pos_addr_def spool_pos_offset_def spool_pos_generation_def)


text \<open>A session whose commit has crossed the gap but whose header page was refused by a busy bus.\<close>

definition crossed_spool :: spool_state where
  "crossed_spool = demo_spool\<lparr>sp_ack_pos := 0xFFB00, sp_send_pos := 0xFFE00,
     sp_commit_pos := 0x100000, sp_reserve_pos := 0x100400,
     sp_wrap_gap_start := 0xFFE00, sp_wrap_gap_bytes := 0x200,
     sp_reservation := reservation_zero\<lparr>res_active := True, res_data_done := True, res_type := 4,
       res_record_id := 2, res_token := 2, res_header_addr := 0x2F8000, res_data_addr := 0x2F8100,
       res_source_record_bytes := 0x300, res_total_bytes := 0x400, res_commit_state := COMMIT_HEADER_READY\<rparr>,
     sp_sent_records := [demo_record\<lparr>rec_header_addr := 0x3F7B00, rec_record_bytes := 0x300\<rparr>,
       record_zero, record_zero, record_zero],
     sp_stats := stats_zero\<lparr>st_pending_records := 1, st_pending_bytes := 0x300\<rparr>\<rparr>"


end
