(* ===== verification/FlashModel.thy ===== *)
theory FlashModel
  imports OnlineStress SpoolRun
begin

text \<open>
  A flash that works: the hypothesis \<open>reliable_flash\<close> on the driver functions, used only by the
  progress theorems, and what the accesses of the spool do on such a device.  It states the
  documented behaviour of a NOR flash that is not shared: a page program clears bits, a read
  returns the contents, status reads and clocks change nothing.
\<close>

unbundle bit_operations_syntax

section \<open>A flash that works\<close>

text \<open>\<open>mem\<close> reads the contents of the device: it is never busy and owns the bus, a program clears
  bits, a read returns the contents, the clocks leave them alone.\<close>

definition programmed :: "u32 \<Rightarrow> u8 list \<Rightarrow> (u32 \<Rightarrow> u8) \<Rightarrow> u32 \<Rightarrow> u8" where
  "programmed a bs m = (\<lambda>x. if unat a \<le> unat x \<and> unat x < unat a + length bs
     then m x AND bs ! (unat x - unat a) else m x)"

definition reliable_flash :: "'d device \<Rightarrow> ('d \<Rightarrow> u32 \<Rightarrow> u8) \<Rightarrow> bool" where
  "reliable_flash D mem \<longleftrightarrow> (\<forall>d.
     (\<exists>d'. gd25q32e_is_busy D d = (IMU_STATUS_OK, False, d') \<and> mem d' = mem d) \<and>
     (\<exists>d'. spi_bus_owner_none D d = (True, d') \<and> mem d' = mem d) \<and>
     (\<forall>a bs. \<exists>d'. gd25q32e_page_program D a bs d = (IMU_STATUS_OK, d') \<and> mem d' = programmed a bs (mem d)) \<and>
     (\<forall>a buf. \<exists>d'. gd25q32e_read_fast D a buf d =
        (IMU_STATUS_OK, map (\<lambda>i. mem d (a + of_nat i)) [0 ..< length buf], d') \<and> mem d' = mem d) \<and>
     (\<forall>v t d'. bsp_capture_timebase_snapshot D d = (v, t, d') \<longrightarrow> mem d' = mem d) \<and>
     (\<forall>t d'. imu_bsp_local_timestamp_us D d = (t, d') \<longrightarrow> mem d' = mem d) \<and>
     (\<forall>t d'. zy100_os_time_ms D d = (t, d') \<longrightarrow> mem d' = mem d))"

lemma mem_clocks:
  assumes "reliable_flash D mem"
  shows "timebase_snapshot D w = (v, t, w') \<Longrightarrow> mem (w_dev w') = mem (w_dev w)"
    "os_time_ms D w = (t, w') \<Longrightarrow> mem (w_dev w') = mem (w_dev w)"
    "local_timestamp_us D w = (t, w') \<Longrightarrow> mem (w_dev w') = mem (w_dev w)"
  using assms
  by (auto simp: reliable_flash_def timebase_snapshot_def os_time_ms_def local_timestamp_us_def
      split: prod.splits)

lemma mem_stage [simp]:
  "reliable_flash D mem \<Longrightarrow> mem (w_dev (zy100_online_stress_diag_stage D k w)) = mem (w_dev w)"
  by (auto simp: zy100_online_stress_diag_stage_def dest: mem_clocks(2) split: prod.split)

lemma mem_profile [simp]:
  "reliable_flash D mem \<Longrightarrow> mem (w_dev (profile D peak start valid w)) = mem (w_dev w)"
  by (auto simp: profile_def dest: mem_clocks(1) split: prod.split)

lemma reliable_busy:
  assumes R: "reliable_flash D mem"
  shows "\<exists>w'. spool_io_busy D w = (IMU_STATUS_OK, False, w') \<and> mem (w_dev w') = mem (w_dev w)"
proof -
  obtain va a w1 where t1: "timebase_snapshot D w = (va, a, w1)" by (rule prod_cases3)
  obtain d where d: "gd25q32e_is_busy D (w_dev w1) = (IMU_STATUS_OK, False, d)" "mem d = mem (w_dev w1)"
    using R unfolding reliable_flash_def by blast
  obtain vb b w2 where t2: "timebase_snapshot D (w1\<lparr>w_dev := d\<rparr>) = (vb, b, w2)" by (rule prod_cases3)
  show ?thesis
    using mem_clocks(1) [OF R t1] mem_clocks(1) [OF R t2] d
    by (simp add: spool_io_busy_def t1 t2)
qed

lemma reliable_program:
  assumes R: "reliable_flash D mem"
  shows "\<exists>w'. spool_io_program D addr bs w = (IMU_STATUS_OK, w') \<and>
    mem (w_dev w') = programmed addr bs (mem (w_dev w))"
proof -
  obtain va a w1 where t1: "timebase_snapshot D w = (va, a, w1)" by (rule prod_cases3)
  obtain d where d: "gd25q32e_page_program D addr bs (w_dev w1) = (IMU_STATUS_OK, d)"
      "mem d = programmed addr bs (mem (w_dev w1))"
    using R unfolding reliable_flash_def by blast
  obtain vb b w2 where t2: "timebase_snapshot D (w1\<lparr>w_dev := d\<rparr>) = (vb, b, w2)" by (rule prod_cases3)
  show ?thesis
    using mem_clocks(1) [OF R t1] mem_clocks(1) [OF R t2] d
    by (simp add: spool_io_program_def Let_def t1 t2)
qed

lemma reliable_read:
  assumes R: "reliable_flash D mem"
  shows "\<exists>w'. spool_io_read D kind addr buf w =
      (IMU_STATUS_OK, map (\<lambda>i. mem (w_dev w) (addr + of_nat i)) [0 ..< length buf], w') \<and>
    mem (w_dev w') = mem (w_dev w)"
proof -
  obtain va a w1 where t1: "timebase_snapshot D w = (va, a, w1)" by (rule prod_cases3)
  obtain d where d: "gd25q32e_read_fast D addr buf (w_dev w1) =
      (IMU_STATUS_OK, map (\<lambda>i. mem (w_dev w1) (addr + of_nat i)) [0 ..< length buf], d)"
      "mem d = mem (w_dev w1)"
    using R unfolding reliable_flash_def by blast
  let ?w2 = "if kind = 1 then on_spool (sp_page_retry_pending_update (\<lambda>_. False)) (w1\<lparr>w_dev := d\<rparr>)
    else w1\<lparr>w_dev := d\<rparr>"
  obtain vb b w2 where t2: "timebase_snapshot D ?w2 = (vb, b, w2)" by (rule prod_cases3)
  have "mem (w_dev w2) = mem d" using mem_clocks(1) [OF R t2] by simp
  then show ?thesis
    using mem_clocks(1) [OF R t1] d t2 by (simp add: spool_io_read_def Let_def t1)
qed

lemma erase_wip_frames:
  "spool_io_busy D w = (st, b, w') \<Longrightarrow> sp_erase_wip (w_spool w') = sp_erase_wip (w_spool w)"
  "spool_io_program D addr bs w = (st, w') \<Longrightarrow> sp_erase_wip (w_spool w') = sp_erase_wip (w_spool w)"
  "spool_io_read D kind addr buf w = (st, bs', w') \<Longrightarrow> sp_erase_wip (w_spool w') = sp_erase_wip (w_spool w)"
  by (auto dest!: io_busy_frame io_program_frame io_read_frame split: if_splits)

text \<open>A page write inside the reservation and its read-back succeed.\<close>

lemma reliable_write_page:
  assumes R: "reliable_flash D mem" and r: "\<not> res_data_done (sp_reservation (w_spool w))" "addr mod 256 = 0"
    "spool_reservation_range_valid token addr 256 (w_spool w)" "\<not> sp_erase_wip (w_spool w)"
  shows "\<exists>w'. zy100_online_spool_write_reserved_page D token addr (Some bs) w = (IO_OK, w') \<and>
    mem (w_dev w') = programmed addr bs (mem (w_dev w)) \<and> \<not> sp_erase_wip (w_spool w')"
proof -
  obtain w1 where b: "spool_io_busy D w = (IMU_STATUS_OK, False, w1)" "mem (w_dev w1) = mem (w_dev w)"
    using reliable_busy [OF R] by blast
  obtain w2 where p: "spool_io_program D addr bs w1 = (IMU_STATUS_OK, w2)"
      "mem (w_dev w2) = programmed addr bs (mem (w_dev w1))"
    using reliable_program [OF R] by blast
  show ?thesis
    using r b p erase_wip_frames(1) [OF b(1)] erase_wip_frames(2) [OF p(1)]
    by (simp add: zy100_online_spool_write_reserved_page_def)
qed

lemma reliable_read_reserved:
  assumes R: "reliable_flash D mem" and r: "spool_reservation_range_valid token addr 256 (w_spool w)"
    "\<not> sp_erase_wip (w_spool w)" "length old = 256"
  shows "\<exists>w'. zy100_online_spool_read_reserved D token addr (Some old) w =
      (IO_OK, Some (map (\<lambda>i. mem (w_dev w) (addr + of_nat i)) [0 ..< 256]), w') \<and>
    mem (w_dev w') = mem (w_dev w) \<and> \<not> sp_erase_wip (w_spool w')"
proof -
  obtain w1 where b: "spool_io_busy D w = (IMU_STATUS_OK, False, w1)" "mem (w_dev w1) = mem (w_dev w)"
    using reliable_busy [OF R] by blast
  obtain w2 where p: "spool_io_read D 1 addr old w1 =
      (IMU_STATUS_OK, map (\<lambda>i. mem (w_dev w1) (addr + of_nat i)) [0 ..< length old], w2)"
      "mem (w_dev w2) = mem (w_dev w1)"
    using reliable_read [OF R] by blast
  show ?thesis
    using r b p erase_wip_frames(1) [OF b(1)] erase_wip_frames(3) [OF p(1)]
    by (simp add: zy100_online_spool_read_reserved_def)
qed

end
