(* ===== verification/StressWriter.thy ===== *)
theory StressWriter
  imports FlashModel
begin

text \<open>
  The stress writer keeps its promises: what a write step leaves alone, the invariant of the record
  being written (its pages, its checksum, its place in the source and in the spool), that every
  operation keeps it, and the runs of the writer beside the sender.
\<close>

unbundle bit_operations_syntax

section \<open>What the calls leave alone\<close>

lemma stage_frame [simp]:
  "w_stress (zy100_online_stress_diag_stage D k w) = w_stress w"
  "w_spool (zy100_online_stress_diag_stage D k w) = w_spool w"
  by (auto simp: zy100_online_stress_diag_stage_def Let_def dest!: os_time_frame split: prod.split)

lemma diag_freeze_frame [simp]:
  "w_stress (zy100_online_stress_diag_freeze D e w) = w_stress w"
  "w_spool (zy100_online_stress_diag_freeze D e w) = w_spool w"
  by (auto simp: zy100_online_stress_diag_freeze_def diag_freeze_now_def Let_def
      dest!: os_time_frame snapshot_frame split: prod.split)

lemma stress_fail_frame:
  assumes "stress_fail D e w = (r, w')"
  shows "\<not> r \<and> w_spool w' = w_spool w \<and> w_stress w' = latch_failure e (w_stress w)"
  using assms by (auto simp: stress_fail_def Let_def)

lemma profile_frame [simp]: "w_spool (profile D peak start valid w) = w_spool w"
  by (auto simp: profile_def Let_def dest!: snapshot_frame split: prod.split)

lemma profile_peaks:
  "\<exists>v. w_stress (profile D os_build_max_us_update start valid w) = (w_stress w)\<lparr>os_build_max_us := v\<rparr>"
  "\<exists>v. w_stress (profile D os_program_max_us_update start valid w) = (w_stress w)\<lparr>os_program_max_us := v\<rparr>"
  "\<exists>v. w_stress (profile D os_verify_max_us_update start valid w) = (w_stress w)\<lparr>os_verify_max_us := v\<rparr>"
proof -
  obtain ok stop w1 where t: "timebase_snapshot D w = (ok, stop, w1)" by (rule prod_cases3)
  have s: "w_stress w1 = w_stress w" using snapshot_frame [OF t] by simp
  show "\<exists>v. w_stress (profile D os_build_max_us_update start valid w) = (w_stress w)\<lparr>os_build_max_us := v\<rparr>"
    by (cases "valid \<and> ok")
      (auto simp: profile_def t s intro: exI [of _ "maximum (os_build_max_us (w_stress w)) (start - stop)"]
        exI [of _ "os_build_max_us (w_stress w)"])
  show "\<exists>v. w_stress (profile D os_program_max_us_update start valid w) = (w_stress w)\<lparr>os_program_max_us := v\<rparr>"
    by (cases "valid \<and> ok")
      (auto simp: profile_def t s intro: exI [of _ "maximum (os_program_max_us (w_stress w)) (start - stop)"]
        exI [of _ "os_program_max_us (w_stress w)"])
  show "\<exists>v. w_stress (profile D os_verify_max_us_update start valid w) = (w_stress w)\<lparr>os_verify_max_us := v\<rparr>"
    by (cases "valid \<and> ok")
      (auto simp: profile_def t s intro: exI [of _ "maximum (os_verify_max_us (w_stress w)) (start - stop)"]
        exI [of _ "os_verify_max_us (w_stress w)"])
qed

section \<open>The invariant of the writer\<close>

definition stress_block :: "online_stress \<Rightarrow> nat" where
  "stress_block s = unat (src_rate (os_source s)) div 50"

text \<open>The data bytes in the first \<open>off\<close> bytes of a record with \<open>n\<close> data bytes.\<close>

definition rec_written :: "nat \<Rightarrow> nat \<Rightarrow> nat" where
  "rec_written off n = min (off - 64) n"

text \<open>The offset of the record in the source.\<close>

definition rec_base :: "online_stress \<Rightarrow> u32" where
  "rec_base s = src_consumed (os_source s) - (os_record_data s - os_data_left s)"

text \<open>Byte \<open>i\<close> of a record: behind the 64 bytes of the header the pattern, then erased bytes.\<close>

definition image_byte :: "u32 \<Rightarrow> u32 \<Rightarrow> nat \<Rightarrow> nat \<Rightarrow> u8 \<Rightarrow> bool" where
  "image_byte seed base n i b \<longleftrightarrow>
     (64 \<le> i \<and> i < 64 + n \<longrightarrow> b = zy100_stress_pattern seed (base + of_nat (i - 64))) \<and>
     (64 + n \<le> i \<longrightarrow> b = 0xFF)"

definition image_header :: "stress_source \<Rightarrow> u32 \<Rightarrow> u32 \<Rightarrow> u8 list \<Rightarrow> bool" where
  "image_header src base n h \<longleftrightarrow> take 4 h = STRS \<and> zy100_get_u32_le h 8 = src_seed src \<and>
     zy100_get_u32_le h 12 = src_rate src \<and>
     zy100_get_u32_le h 20 = base div (src_rate src div 50) \<and>
     zy100_get_u32_le h 28 = base \<and> zy100_get_u32_le h 32 = n"

text \<open>\<open>bs\<close> are the bytes of the record from offset \<open>off\<close> on.\<close>

definition image_part :: "online_stress \<Rightarrow> nat \<Rightarrow> u8 list \<Rightarrow> bool" where
  "image_part s off bs \<longleftrightarrow>
     (\<forall>i < length bs. image_byte (src_seed (os_source s)) (rec_base s) (unat (os_record_data s))
        (off + i) (bs ! i)) \<and>
     (off = 0 \<and> bs \<noteq> [] \<longrightarrow> image_header (os_source s) (rec_base s) (os_record_data s) bs)"

definition page_ready :: "online_stress \<Rightarrow> bool" where
  "page_ready s \<longleftrightarrow> image_part s (unat (os_page_offset s)) (the (os_page s)) \<and>
     unat (os_page_data s) =
       rec_written (unat (os_page_offset s) + 256) (unat (os_record_data s)) -
       rec_written (unat (os_page_offset s)) (unat (os_record_data s))"

text \<open>The record being written; \<open>bs\<close> are its verified pages.\<close>

definition writer_record :: "online_stress \<Rightarrow> u8 list \<Rightarrow> bool" where
  "writer_record s bs \<longleftrightarrow> 0 < stress_block s \<and>
     (unat (os_record_data s) = stress_block s \<or> unat (os_record_data s) = 2 * stress_block s) \<and>
     unat (os_record_bytes s) = 256 * ((64 + unat (os_record_data s) + 255) div 256) \<and>
     256 dvd unat (os_page_offset s) \<and> os_page_offset s \<le> os_record_bytes s \<and>
     unat (os_data_left s) =
       unat (os_record_data s) - rec_written (unat (os_page_offset s)) (unat (os_record_data s)) \<and>
     unat (os_data_left s) \<le> unat (src_used (os_source s)) \<and>
     stress_block s dvd unat (rec_base s) \<and>
     unat (rec_base s) + unat (os_record_data s) =
       unat (src_consumed (os_source s)) + unat (os_data_left s) \<and>
     length bs = unat (os_page_offset s) \<and> image_part s 0 bs \<and>
     os_crc s = zy100_crc32_ieee_update zy100_crc32_ieee_begin bs"

text \<open>The reservation the record is written to.\<close>

definition writer_reserved :: "online_stress \<Rightarrow> spool_reservation \<Rightarrow> bool" where
  "writer_reserved s r \<longleftrightarrow> res_active r \<and> \<not> res_data_done r \<and> res_commit_state r = COMMIT_IDLE \<and>
     res_token r = tgt_token (os_target s) \<and> res_data_addr r = tgt_data_addr (os_target s) \<and>
     res_source_record_bytes r = os_record_bytes s \<and> res_payload_bytes r = os_record_data s \<and>
     res_type r = 4"

definition writer_commit :: "online_stress \<Rightarrow> spool_reservation \<Rightarrow> u8 list \<Rightarrow> bool" where
  "writer_commit s r bs \<longleftrightarrow> os_page_offset s = os_record_bytes s \<and> res_crc_final_valid r \<and>
     res_crc32_final r = zy100_crc32_ieee bs"

definition writer_stable :: "online_stress \<Rightarrow> bool" where
  "writer_stable s \<longleftrightarrow> source_ok (os_source s) \<and> zy100_stress_rate_valid (src_rate (os_source s)) \<and>
     unat (src_consumed (os_source s)) + unat (src_used (os_source s)) =
       unat (src_generated (os_source s)) \<and>
     (\<exists>p v. os_page s = Some p \<and> length p = 256 \<and> os_verify s = Some v \<and> length v = 256) \<and>
     os_committed s + (if os_phase s = 0 then 0 else os_record_data s - os_data_left s) =
       src_consumed (os_source s) \<and>
     src_error (os_source s) \<noteq> ZY100_STRESS_OWNER"

definition writer_ok :: "online_stress \<Rightarrow> spool_reservation \<Rightarrow> u8 list \<Rightarrow> bool" where
  "writer_ok s r bs \<longleftrightarrow> writer_stable s \<and>
     (src_error (os_source s) = 0 \<longrightarrow>
        (os_phase s = 0 \<longrightarrow> stress_block s dvd unat (src_consumed (os_source s))) \<and>
        (os_phase s \<noteq> 0 \<longrightarrow> os_phase s \<in> {1, 2, 3} \<and> writer_record s bs) \<and>
        (os_phase s \<in> {1, 2} \<longrightarrow> os_page_offset s < os_record_bytes s \<and> writer_reserved s r) \<and>
        (os_phase s = 2 \<longrightarrow> os_prepared s) \<and>
        (os_phase s \<in> {1, 2} \<and> os_prepared s \<longrightarrow> page_ready s) \<and>
        (os_phase s = 3 \<longrightarrow> writer_commit s r bs))"

lemmas writer_defs = stress_block_def rec_base_def image_part_def page_ready_def writer_record_def
  writer_reserved_def writer_commit_def writer_stable_def image_header_def

text \<open>The fields the invariant does not look at.\<close>

lemma writer_ok_upd [simp]:
  "writer_ok (os_build_max_us_update f s) r bs = writer_ok s r bs"
  "writer_ok (os_program_max_us_update f s) r bs = writer_ok s r bs"
  "writer_ok (os_verify_max_us_update f s) r bs = writer_ok s r bs"
  "writer_ok (os_cache_wait_update f s) r bs = writer_ok s r bs"
  "writer_ok (os_flash_wait_update f s) r bs = writer_ok s r bs"
  "writer_ok (os_acked_update f s) r bs = writer_ok s r bs"
  "writer_ok (os_send_wait_update f s) r bs = writer_ok s r bs"
  "writer_ok (os_ack_wait_update f s) r bs = writer_ok s r bs"
  "writer_ok (os_skipped_update f s) r bs = writer_ok s r bs"
  "writer_ok (os_publish_ms_update f s) r bs = writer_ok s r bs"
  "writer_ok (os_record_max_ms_update f s) r bs = writer_ok s r bs"
  "writer_ok (os_record_start_ms_update f s) r bs = writer_ok s r bs"
  "writer_ok (os_io_waiting_update g s) r bs = writer_ok s r bs"
  "writer_ok (os_status_pending_update g s) r bs = writer_ok s r bs"
  "writer_ok (os_terminal_frozen_update g s) r bs = writer_ok s r bs"
  "writer_ok (os_snapshot_update h s) r bs = writer_ok s r bs"
  by (simp_all add: writer_ok_def writer_defs)

section \<open>Failures and ticks\<close>

lemma latch_fields:
  "src_error (os_source (latch_failure e s)) = (if src_error (os_source s) = 0 then e else src_error (os_source s))"
  "os_first_failure (latch_failure e s) = (if os_first_failure s = 0
     then ucast (src_error (os_source (latch_failure e s))) else os_first_failure s)"
  by (simp_all add: latch_failure_def Let_def)

lemma latch_stable:
  assumes "writer_stable s" "e \<noteq> ZY100_STRESS_OWNER" "e \<noteq> 0"
  shows "writer_ok (latch_failure e s) r bs"
proof -
  have "src_error (os_source (latch_failure e s)) \<noteq> 0" using assms(3) by (simp add: latch_fields)
  moreover have "writer_stable (latch_failure e s)"
    using assms by (auto simp: writer_stable_def latch_failure_def Let_def)
  ultimately show ?thesis by (simp add: writer_ok_def)
qed

lemma fail_ok:
  assumes "stress_fail D e w = (r, w')" "writer_stable (w_stress w)" "e \<noteq> ZY100_STRESS_OWNER" "e \<noteq> 0"
  shows "writer_ok (w_stress w') res bs"
  using stress_fail_frame [OF assms(1)] latch_stable [OF assms(2-4)] by simp

lemma ok_stable: "writer_ok s r bs \<Longrightarrow> writer_stable s"
  by (simp add: writer_ok_def)

lemma tick_error:
  assumes "source_ok s" "zy100_stress_source_tick s now = (r, t)"
  shows "src_error t \<in> {src_error s, ZY100_STRESS_RING_FULL, ZY100_STRESS_RANGE}"
proof -
  let ?s1 = "s\<lparr>src_elapsed_ms := now - src_start_ms s\<rparr>"
  define e where "e = (ucast (src_elapsed_ms ?s1 div 20) * ucast (src_rate ?s1 div 50) :: u64)"
  have ring: "src_ring s \<noteq> None" using assms(1) by (auto simp: source_ok_def)
  have tick: "zy100_stress_source_tick s now =
      (if src_frozen s \<or> src_error s \<noteq> 0 then (src_error s = 0, s)
       else if e > 0xFFFFFFFF \<or> src_elapsed_ms ?s1 \<ge> 0x80000000
       then (False, ?s1\<lparr>src_error := ZY100_STRESS_RANGE, src_frozen := True\<rparr>)
       else stress_fill (?s1\<lparr>src_expected := ucast e\<rparr>))"
    unfolding zy100_stress_source_tick_def e_def Let_def using ring by (simp only: if_False) simp
  show ?thesis
  proof (cases "(src_frozen s \<or> src_error s \<noteq> 0) \<or> e > 0xFFFFFFFF \<or> src_elapsed_ms ?s1 \<ge> 0x80000000")
    case True
    then show ?thesis using assms(2) unfolding tick by (auto split: if_splits)
  next
    case False
    then have fill: "stress_fill (?s1\<lparr>src_expected := ucast e\<rparr>) = (r, t)" using assms(2) unfolding tick by simp
    have "unat (ucast e :: u32) = unat (src_elapsed_ms ?s1 div 20) * unat (src_rate ?s1 div 50)"
      unfolding e_def by (rule unat_expected) (use False in \<open>simp add: e_def\<close>)
    then have "unat (src_rate s) div 50 dvd unat (ucast e :: u32)" by (simp add: unat_div)
    then show ?thesis using stress_fill_spec [OF _ _ fill] assms(1) by (cases r) auto
  qed
qed

text \<open>The source only grows behind the bytes the record still needs.\<close>

lemma source_grows:
  assumes ok: "source_ok s" "source_ok t" and le: "src_generated s \<le> src_generated t"
    and c: "src_consumed t = src_consumed s"
    and sum: "unat (src_consumed s) + unat (src_used s) = unat (src_generated s)"
  shows "unat (src_consumed t) + unat (src_used t) = unat (src_generated t) \<and>
    unat (src_used s) \<le> unat (src_used t)"
proof -
  have g: "src_generated t = src_consumed t + ucast (src_used t)" and u: "unat (src_used t) \<le> 4096"
    using ok(2) by (auto elim: source_okE)
  have le': "unat (src_generated s) \<le> unat (src_generated t)" using le by (simp add: word_le_nat_alt)
  have "unat (src_consumed t) + unat (src_used t) < 4294967296"
  proof (rule ccontr)
    assume a: "\<not> ?thesis"
    then have "unat (src_generated t) = unat (src_consumed t) + unat (src_used t) - 4294967296"
      using unat_lt_32 [of "src_consumed t"] unat_lt_16 [of "src_used t"]
      by (simp add: g unat_word_ariths mod_if)
    then show False using a u le' sum unat_lt_32 [of "src_consumed s"] unfolding c by linarith
  qed
  then have "unat (src_generated t) = unat (src_consumed t) + unat (src_used t)"
    by (simp add: g unat_word_ariths)
  then show ?thesis using le' sum c by simp
qed

text \<open>A source that moved on, with the same consumed offset, rate, seed and error.\<close>

lemma writer_ok_source:
  assumes w: "writer_ok s r bs"
    and src: "source_ok t" "src_rate t = src_rate (os_source s)" "src_seed t = src_seed (os_source s)"
      "src_consumed t = src_consumed (os_source s)" "src_generated (os_source s) \<le> src_generated t"
    and err: "src_error t = 0 \<Longrightarrow> src_error (os_source s) = 0" "src_error t \<noteq> ZY100_STRESS_OWNER"
  shows "writer_ok (s\<lparr>os_source := t\<rparr>) r bs"
proof -
  have st: "writer_stable s" using w by (rule ok_stable)
  then have g: "unat (src_consumed t) + unat (src_used t) = unat (src_generated t)"
    "unat (src_used (os_source s)) \<le> unat (src_used t)"
    using source_grows [OF _ src(1,5,4)] unfolding writer_stable_def by blast+
  have eqs: "stress_block (s\<lparr>os_source := t\<rparr>) = stress_block s" "rec_base (s\<lparr>os_source := t\<rparr>) = rec_base s"
    "\<And>off p. image_part (s\<lparr>os_source := t\<rparr>) off p = image_part s off p"
    using src by (simp_all add: writer_defs)
  have "writer_stable (s\<lparr>os_source := t\<rparr>)"
    using st src err(2) g(1) by (cases "os_phase s = 0") (simp_all add: writer_stable_def)
  moreover have "writer_record s bs \<Longrightarrow> writer_record (s\<lparr>os_source := t\<rparr>) bs"
    using g(2) src(4) by (simp add: writer_record_def eqs)
  moreover have "page_ready (s\<lparr>os_source := t\<rparr>) = page_ready s" by (simp add: page_ready_def eqs)
  moreover have "writer_reserved (s\<lparr>os_source := t\<rparr>) r = writer_reserved s r"
    "writer_commit (s\<lparr>os_source := t\<rparr>) r bs = writer_commit s r bs"
    by (simp_all add: writer_reserved_def writer_commit_def)
  ultimately show ?thesis
    using w err(1) src(4) by (auto simp: writer_ok_def eqs)
qed

lemma tick_writer:
  assumes w: "writer_ok (w_stress w) res bs" and out: "zy100_online_stress_tick D now w = (r, w')"
  shows "writer_ok (w_stress w') res bs \<and> w_spool w' = w_spool w"
proof -
  let ?w2 = "if src_used (os_source (w_stress w)) \<noteq> 0
    then on_stress (inc os_cache_wait_update) (on_diag (zy100_stress_diag_pump now) w)
    else on_diag (zy100_stress_diag_pump now) w"
  have w2: "writer_ok (w_stress ?w2) res bs" "os_source (w_stress ?w2) = os_source (w_stress w)" "w_spool ?w2 = w_spool w"
    using w by auto
  obtain ok t where t: "zy100_stress_source_tick (os_source (w_stress w)) now = (ok, t)" by fastforce
  have so: "source_ok (os_source (w_stress w))" and ne: "src_error (os_source (w_stress w)) \<noteq> 7"
    using ok_stable [OF w] by (simp_all add: writer_stable_def)
  note sp = tick_spec [OF so t]
  let ?w3 = "on_stress (os_source_update (\<lambda>_. t)) ?w2"
  have err0: "src_error (os_source (w_stress w)) = 0" if "src_error t = 0"
  proof (rule ccontr)
    assume "src_error (os_source (w_stress w)) \<noteq> 0"
    moreover have "src_ring (os_source (w_stress w)) \<noteq> None" using so by (auto simp: source_ok_def)
    ultimately have "t = os_source (w_stress w)" using t by (auto simp: zy100_stress_source_tick_def)
    with that \<open>src_error (os_source (w_stress w)) \<noteq> 0\<close> show False by simp
  qed
  have ne7: "src_error t \<noteq> 7" using tick_error [OF so t] ne by auto
  have "writer_ok ((w_stress ?w2)\<lparr>os_source := t\<rparr>) res bs"
    by (rule writer_ok_source [OF w2(1)]) (use sp(1) err0 ne7 in \<open>simp_all add: w2(2)\<close>)
  then have w3: "writer_ok (w_stress ?w3) res bs" "w_spool ?w3 = w_spool w" using w2(3) by simp_all
  have tick: "zy100_online_stress_tick D now w = (if \<not> ok then stress_fail D (src_error t) ?w3
      else (True, on_diag (zy100_stress_diag_water now (source_used ?w3)) ?w3))"
    unfolding zy100_online_stress_tick_def Let_def using t w2(2) by simp
  show ?thesis
  proof (cases ok)
    case True then show ?thesis using out tick w3 by auto
  next
    case False
    then have f: "stress_fail D (src_error t) ?w3 = (r, w')" using out tick by simp
    have "src_error t \<noteq> 0" using sp(3) False by blast
    then show ?thesis
      using fail_ok [OF f ok_stable [OF w3(1)] ne7] stress_fail_frame [OF f] w3(2) by simp
  qed
qed

section \<open>The first step of a record\<close>

lemma align_256: "unat (((x :: u32) + 255) AND NOT 255) = 256 * ((unat x + 255) div 256)"
  if "unat x + 255 < 4294967296"
proof -
  have n: "y AND NOT (mask 8) = push_bit 8 (drop_bit 8 y)" for y :: u32
    by (rule bit_eqI) (auto simp: bit_simps)
  have "unat (push_bit 8 (drop_bit 8 (x + 255)) + take_bit 8 (x + 255)) = unat (x + 255)"
    by (simp add: bits_ident)
  have u: "unat (x + 255) = unat x + 255" using that by (subst unat_add_32) simp_all
  have d: "unat (drop_bit 8 (x + 255)) = (unat x + 255) div 256"
    by (simp add: drop_bit_eq_div unat_div u)
  have "unat (push_bit 8 (drop_bit 8 (x + 255))) = take_bit 32 (256 * ((unat x + 255) div 256))"
    by (simp only: unsigned_push_bit_eq d) (simp add: push_bit_eq_mult mult.commute)
  also have "\<dots> = 256 * ((unat x + 255) div 256)"
    using that by (simp add: take_bit_nat_eq_self_iff)
  finally show ?thesis by (simp add: mask_255 n)
qed

lemma reserve_refresh:
  "sp_reservation (spool_refresh_stats s) = sp_reservation s" "sp_reservation (on_stats f s) = sp_reservation s"
  by (simp_all add: spool_refresh_stats_def on_stats_def Let_def)

lemma reserve_if: "sp_reservation (if c then on_stats f s else s) = sp_reservation s"
  by (simp add: reserve_refresh)

lemma reserve_stress_fields:
  assumes "zy100_online_spool_reserve_stress sid rb pb (Some t0) s = (RESERVE_OK, tgt, s')"
  shows "\<exists>t. tgt = Some t \<and> res_active (sp_reservation s') \<and> \<not> res_data_done (sp_reservation s') \<and>
    res_commit_state (sp_reservation s') = COMMIT_IDLE \<and> res_token (sp_reservation s') = tgt_token t \<and>
    res_data_addr (sp_reservation s') = tgt_data_addr t \<and>
    res_source_record_bytes (sp_reservation s') = rb \<and> res_payload_bytes (sp_reservation s') = pb \<and>
    res_type (sp_reservation s') = 4"
proof -
  let ?s = "reserve_attempt 4 s"
  have "reserve_checked 4 sid rb pb (Some t0) ?s = (RESERVE_OK, tgt, s')"
    using assms by (simp add: zy100_online_spool_reserve_stress_def spool_provider_reserve_def)
  then obtain pl t where t: "tgt = Some t" and
    rc: "reserve_commit_plan 4 sid rb pb pl (?s\<lparr>sp_reservation := reservation_zero,
          sp_next_record_id := sp_next_record_id ?s + 1, sp_next_token := sp_next_token ?s + 1\<rparr>) = (t, s')"
    using reserve_checked_cases [of 4 sid rb pb "Some t0" ?s RESERVE_OK tgt s'] by auto
  let ?z = "?s\<lparr>sp_reservation := reservation_zero, sp_next_record_id := sp_next_record_id ?s + 1,
      sp_next_token := sp_next_token ?s + 1\<rparr>"
  have "snd (reserve_commit_plan 4 sid rb pb pl ?z) = s'" "fst (reserve_commit_plan 4 sid rb pb pl ?z) = t"
    using rc by simp_all
  then have s': "sp_reservation s' = sp_reservation (snd (reserve_commit_plan 4 sid rb pb pl ?z))"
    and t': "t = fst (reserve_commit_plan 4 sid rb pb pl ?z)" by simp_all
  show ?thesis
    unfolding s' unfolding t t' reserve_commit_plan_def Let_def mark_used_eq prod.case fst_conv snd_conv
      by (simp add: reserve_refresh reserve_if reservation_zero_def)
qed

lemma rate_block:
  assumes "zy100_stress_rate_valid rate"
  shows "unat (rate div 50) = unat rate div 50" "unat rate div 50 \<le> 1920"
  using assms by (auto simp: zy100_stress_rate_valid_def unat_div)

text \<open>The state of the writer when a record begins.\<close>

definition record_begun :: "u32 \<Rightarrow> u32 \<Rightarrow> store_target \<Rightarrow> u32 \<Rightarrow> online_stress \<Rightarrow> online_stress" where
  "record_begun data bytes target now s =
     s\<lparr>os_record_data := data, os_record_bytes := bytes, os_target := target, os_data_left := data,
       os_record_start_ms := now, os_page_offset := 0, os_crc := zy100_crc32_ieee_begin,
       os_prepared := False, os_phase := 1\<rparr>"

lemma record_begun_ok:
  assumes st: "writer_stable s" and p0: "os_phase s = 0" and e0: "src_error (os_source s) = 0"
    and al: "stress_block s dvd unat (src_consumed (os_source s))"
    and b: "src_rate (os_source s) div 50 \<noteq> 0" and n: "n = 1 \<or> n = 2"
    and fits: "n * (src_rate (os_source s) div 50) \<le> ucast (src_used (os_source s))"
    and res: "writer_reserved (record_begun data bytes t now s) r"
    and data: "data = n * (src_rate (os_source s) div 50)"
    and bytes: "bytes = (64 + data + 255) AND NOT 255"
  shows "writer_ok (record_begun data bytes t now s) r []"
proof -
  let ?s = "record_begun data bytes t now s"
  have v: "zy100_stress_rate_valid (src_rate (os_source s))" using st by (simp add: writer_stable_def)
  have bl: "unat (src_rate (os_source s) div 50) = stress_block s" "stress_block s \<le> 1920"
    using rate_block [OF v] by (simp_all add: stress_block_def)
  have pos: "0 < stress_block s" using b bl(1) by (simp add: word_unat_eq_iff)
  have d: "unat data = unat n * stress_block s"
    unfolding data using n bl by (auto simp: unat_word_ariths)
  have d2: "unat data = stress_block s \<or> unat data = 2 * stress_block s" using n d by auto
  have "unat data \<le> 3840" using d2 bl(2) by auto
  moreover from this have u: "unat (64 + data) = 64 + unat data"
    by (subst unat_add_32) simp_all
  ultimately have by': "unat bytes = 256 * ((64 + unat data + 255) div 256)"
    unfolding bytes using align_256 [of "64 + data"] by simp
  have lt: "(0 :: u32) < bytes" by (simp add: word_less_nat_alt by')
  have le: "unat data \<le> unat (src_used (os_source s))"
    using fits data by (simp add: word_le_nat_alt)
  have f: "os_source ?s = os_source s" "os_record_data ?s = data" "os_record_bytes ?s = bytes"
    "os_data_left ?s = data" "os_page_offset ?s = 0" "os_crc ?s = zy100_crc32_ieee_begin"
    "os_phase ?s = 1" "\<not> os_prepared ?s" "stress_block ?s = stress_block s"
    by (simp_all add: record_begun_def stress_block_def)
  have base: "rec_base ?s = src_consumed (os_source s)" by (simp add: rec_base_def f)
  have rec: "writer_record ?s []"
    unfolding writer_record_def f base
    using pos d2 by' le al by (simp add: rec_written_def image_part_def zy100_crc32_ieee_update_def)
  have "writer_stable ?s"
    using st p0 by (simp add: writer_stable_def record_begun_def)
  then show ?thesis
    using rec lt res e0 by (simp add: writer_ok_def f)
qed

lemma io_wait_frame [simp]:
  "w_spool (io_wait w) = w_spool w"
  "writer_ok (w_stress (io_wait w)) r bs = writer_ok (w_stress w) r bs"
  by (simp_all add: io_wait_def)

lemma record_upd_stable:
  assumes "writer_stable s" "os_phase s = 0"
  shows "writer_stable (s\<lparr>os_record_data := d, os_record_bytes := b, os_target := t\<rparr>)"
  using assms by (simp add: writer_stable_def)

lemma record_upd_ok:
  assumes "writer_ok s r bs" "os_phase s = 0"
  shows "writer_ok (s\<lparr>os_record_data := d, os_record_bytes := b, os_target := t\<rparr>) r' bs'"
  using assms by (simp add: writer_ok_def record_upd_stable stress_block_def)

lemma reserve_wait_ok:
  assumes out: "write_reserve_wait D k w = (r, w')" and w: "writer_ok (w_stress w) res bs"
  shows "writer_ok (w_stress w') res bs"
proof -
  let ?w1 = "io_wait w"
  obtain er w2 where fe: "zy100_online_spool_erase_forward_block32_step D ?w1 = (er, w2)" by fastforce
  have s2: "w_stress w2 = w_stress ?w1"
    using forward_step_same fe unfolding zy100_online_spool_erase_forward_block32_step_def same_queue_def by blast
  let ?w3 = "on_diag (zy100_stress_diag_erase True (zy100_online_spool_erase_wip (w_spool w2))
      (zy100_online_spool_erased_ahead_bytes (w_spool w2))) w2"
  have w3: "writer_ok (w_stress ?w3) res bs" using w s2 by simp
  show ?thesis
  proof (cases "k = RESERVE_FULL \<and> er = ERASE_ERROR")
    case True
    then have "stress_fail D ZY100_STRESS_RESERVE ?w3 = (r, w')"
      using out by (simp add: write_reserve_wait_def fe)
    then show ?thesis using fail_ok ok_stable [OF w3] by fastforce
  next
    case False
    then have "w' = ?w3 \<or> w' = ?w1" using out by (auto simp: write_reserve_wait_def fe Let_def split: if_splits)
    then show ?thesis using w w3 by auto
  qed
qed

lemma record_begin_fields:
  "\<exists>now. w_stress (write_record_begin D w) = record_begun (os_record_data (w_stress w))
     (os_record_bytes (w_stress w)) (os_target (w_stress w)) now (w_stress w)"
  "w_spool (write_record_begin D w) = w_spool w"
proof -
  obtain now w2 where t: "os_time_ms D (on_stress (\<lambda>s. s\<lparr>os_data_left := os_record_data s\<rparr>) w) = (now, w2)"
    by fastforce
  show "\<exists>now. w_stress (write_record_begin D w) = record_begun (os_record_data (w_stress w))
     (os_record_bytes (w_stress w)) (os_target (w_stress w)) now (w_stress w)"
    using os_time_frame [OF t]
    by (intro exI [of _ now]) (simp add: write_record_begin_def Let_def t record_begun_def)
  show "w_spool (write_record_begin D w) = w_spool w"
    using os_time_frame [OF t] by (simp add: write_record_begin_def Let_def t)
qed

lemma write_start_ok:
  assumes w: "writer_ok (w_stress w) (sp_reservation (w_spool w)) bs" and p0: "os_phase (w_stress w) = 0"
    and e0: "src_error (os_source (w_stress w)) = 0" and out: "write_start D w = (r, w')"
  shows "writer_ok (w_stress w') (sp_reservation (w_spool w')) [] \<and>
    (r = None \<longrightarrow> os_phase (w_stress w') = 1 \<and> src_error (os_source (w_stress w')) = 0)"
proof -
  let ?s = "w_stress w" and ?src = "os_source (w_stress w)"
  let ?b = "src_rate ?src div 50"
  let ?n = "ucast (src_used ?src) div ?b"
  have any: "writer_ok ?s res bs'" for res bs' using w p0 by (simp add: writer_ok_def)
  have stage: "writer_ok (w_stress (zy100_online_stress_diag_stage D k w))
      (sp_reservation (w_spool (zy100_online_stress_diag_stage D k w))) []" for k using any by simp
  show ?thesis
  proof (cases "?b = 0 \<or> (?n < 2 \<and> \<not> src_frozen ?src) \<or> ?n = 0")
    case True
    then have "r \<noteq> None \<and> (\<exists>k. w' = zy100_online_stress_diag_stage D k w)"
      using out unfolding write_start_def Let_def by (auto split: if_splits)
    then show ?thesis using stage by auto
  next
    case False
    then have f: "?b \<noteq> 0" "\<not> (?n < 2 \<and> \<not> src_frozen ?src)" "?n \<noteq> 0" by blast+
    define n where "n = (if ?n > 2 then 2 else ?n)"
    define data where "data = n * ?b"
    define bytes where "bytes = (64 + data + 255) AND NOT 255"
    let ?w1 = "on_stress (\<lambda>s. s\<lparr>os_record_data := data, os_record_bytes := bytes\<rparr>) w"
    let ?w2 = "zy100_online_stress_diag_stage D ZY100_SD_RESERVE ?w1"
    obtain k t sp where rs: "zy100_online_spool_reserve_stress (src_consumed ?src div ?b + 1) bytes data
        (Some (os_target (w_stress ?w2))) (w_spool ?w2) = (k, t, sp)" by (rule prod_cases3)
    let ?w3 = "on_stress (os_target_update (\<lambda>_. the t)) (on_spool (\<lambda>_. sp) ?w2)"
    have eq: "write_start D w = (if k = RESERVE_ERROR
        then let (r, w4) = stress_fail D ZY100_STRESS_RESERVE ?w3 in (Some r, w4)
        else if k \<noteq> RESERVE_OK then let (r, w4) = write_reserve_wait D k ?w3 in (Some r, w4)
        else (None, write_record_begin D ?w3))"
      unfolding write_start_def Let_def if_not_P [OF f(1)] if_not_P [OF f(2)] if_not_P [OF f(3)]
        n_def [symmetric] data_def [symmetric] bytes_def [symmetric] rs prod.case ..
    have s3: "w_stress ?w3 = ?s\<lparr>os_record_data := data, os_record_bytes := bytes, os_target := the t\<rparr>" by simp
    have ok3: "writer_ok (w_stress ?w3) res bs'" for res bs'
      unfolding s3 using record_upd_ok [OF w p0] .
    consider (err) "k = RESERVE_ERROR" | (wait) "k \<noteq> RESERVE_ERROR" "k \<noteq> RESERVE_OK" | (ok) "k = RESERVE_OK"
      by blast
    then show ?thesis
    proof cases
      case err
      obtain r1 where f: "stress_fail D ZY100_STRESS_RESERVE ?w3 = (r1, w')" "r = Some r1"
        using out eq err by (auto split: prod.splits)
      then show ?thesis using fail_ok [OF f(1) ok_stable [OF ok3]] by simp
    next
      case wait
      obtain r1 where f: "write_reserve_wait D k ?w3 = (r1, w')" "r = Some r1"
        using out eq wait by (auto split: prod.splits)
      then show ?thesis using reserve_wait_ok [OF f(1) ok3] by simp
    next
      case ok
      then have w': "w' = write_record_begin D ?w3" and r: "r = None" using out eq by auto
      note fl = reserve_stress_fields [OF rs [unfolded ok]]
      obtain now where st: "w_stress w' = record_begun data bytes (the t) now (w_stress ?w3)"
        using record_begin_fields(1) [of D ?w3] w' by auto
      have sp': "sp_reservation (w_spool w') = sp_reservation sp"
        using record_begin_fields(2) [of D ?w3] w' by simp
      have n12: "n = 1 \<or> n = 2"
      proof -
        have "unat ?n \<noteq> 0" using False by (simp add: unat_eq_zero)
        then have "unat n \<noteq> 0 \<and> unat n \<le> 2" by (auto simp: n_def word_less_nat_alt)
        then have "unat n = 1 \<or> unat n = 2" by linarith
        then show ?thesis by (auto simp: word_unat_eq_iff)
      qed
      have "unat n * unat ?b \<le> unat (src_used ?src)"
      proof -
        have "unat n \<le> unat ?n" by (auto simp: n_def word_less_nat_alt)
        then have "unat n * unat ?b \<le> unat ?n * unat ?b" by simp
        also have "\<dots> \<le> unat (src_used ?src)" by (simp add: unat_div)
        finally show ?thesis .
      qed
      moreover have "unat data = unat n * unat ?b"
        using calculation unat_lt_16 [of "src_used ?src"] unfolding data_def
        by (simp add: unat_word_ariths)
      ultimately have fits: "data \<le> ucast (src_used ?src)" by (simp add: word_le_nat_alt)
      have src3: "os_source (w_stress ?w3) = ?src" "os_phase (w_stress ?w3) = 0"
        "stress_block (w_stress ?w3) = stress_block ?s" using p0 by (simp_all add: stress_block_def)
      have al: "stress_block ?s dvd unat (src_consumed ?src)" using w p0 e0 by (simp add: writer_ok_def)
      have res: "writer_reserved (record_begun data bytes (the t) now (w_stress ?w3)) (sp_reservation sp)"
        using fl by (auto simp: writer_reserved_def record_begun_def)
      have "writer_ok (record_begun data bytes (the t) now (w_stress ?w3)) (sp_reservation sp) []"
        by (rule record_begun_ok [OF ok_stable [OF ok3] src3(2) _ _ _ n12 _ res])
          (use al e0 False fits src3 data_def bytes_def in simp_all)
      then show ?thesis using st sp' r e0 by (simp add: record_begun_def)
    qed
  qed
qed

section \<open>Preparing a page\<close>

lemma nth_pattern_run [simp]: "i < n \<Longrightarrow> pattern_run seed off n ! i = zy100_stress_pattern seed (off + of_nat i)"
  by (simp add: pattern_run_def)

lemma header_accepted:
  assumes "src_rate s \<noteq> 0" "blocks \<noteq> 0" "blocks \<le> 2" "src_consumed s mod (src_rate s div 50) = 0"
    "blocks * (src_rate s div 50) \<le> ucast (src_used s)"
  shows "\<exists>h. zy100_stress_source_header s page blocks = (True, h)"
  using assms by (simp add: zy100_stress_source_header_def Let_def not_less)

lemma get_u32_put_at:
  "off + 3 < k \<Longrightarrow> k + length bs \<le> length buf \<Longrightarrow>
   zy100_get_u32_le (put_at k bs buf) off = zy100_get_u32_le buf off"
  by (simp add: zy100_get_u32_le_def)

lemma left_word:
  assumes "writer_record s bs"
  shows "os_record_data s - os_data_left s =
      of_nat (rec_written (unat (os_page_offset s)) (unat (os_record_data s)))"
    "src_consumed (os_source s) = rec_base s +
      of_nat (rec_written (unat (os_page_offset s)) (unat (os_record_data s)))"
proof -
  have l: "unat (os_data_left s) =
       unat (os_record_data s) - rec_written (unat (os_page_offset s)) (unat (os_record_data s))"
    using assms by (simp add: writer_record_def)
  then have "os_data_left s \<le> os_record_data s" by (simp add: word_le_nat_alt)
  then have "unat (os_record_data s - os_data_left s) =
      rec_written (unat (os_page_offset s)) (unat (os_record_data s))"
    using l by (simp add: unat_sub rec_written_def)
  from arg_cong [OF this, of "of_nat :: nat \<Rightarrow> u32"]
  show w: "os_record_data s - os_data_left s =
      of_nat (rec_written (unat (os_page_offset s)) (unat (os_record_data s)))" by simp
  show "src_consumed (os_source s) = rec_base s +
      of_nat (rec_written (unat (os_page_offset s)) (unat (os_record_data s)))"
    unfolding w [symmetric] by (simp add: rec_base_def)
qed

lemma first_page:
  assumes st: "writer_stable s" and rec: "writer_record s bs" and o0: "os_page_offset s = 0"
  shows "\<exists>h page. zy100_stress_source_header (os_source s) (replicate 256 0xFF)
      (os_record_data s div (src_rate (os_source s) div 50)) = (True, h) \<and> length page = 256 \<and>
    zy100_stress_source_copy (os_source s) h 64
      (if 192 > os_data_left s then os_data_left s else 192) = (True, page) \<and> image_part s 0 page"
proof -
  let ?src = "os_source s" and ?n = "unat (os_record_data s)"
  let ?pd = "if 192 > os_data_left s then os_data_left s else 192"
  have v: "zy100_stress_rate_valid (src_rate ?src)" and so: "source_ok ?src"
    using st by (simp_all add: writer_stable_def)
  have b: "unat (src_rate ?src div 50) = stress_block s" "0 < stress_block s"
    using rec rate_block [OF v] by (simp_all add: writer_record_def stress_block_def)
  have n: "?n = stress_block s \<or> ?n = 2 * stress_block s" using rec by (simp add: writer_record_def)
  have left: "unat (os_data_left s) = ?n" "?n \<le> unat (src_used ?src)"
    using rec o0 by (auto simp: writer_record_def rec_written_def)
  have base: "src_consumed ?src = rec_base s" using left_word(2) [OF rec] o0 by (simp add: rec_written_def)
  let ?k = "os_record_data s div (src_rate ?src div 50)"
  have k: "unat ?k = ?n div stress_block s" using b by (simp add: unat_div)
  then have k12: "unat ?k = 1 \<or> unat ?k = 2" using n b(2) by auto
  have kb: "?k * (src_rate ?src div 50) = os_record_data s"
  proof -
    have "unat ?k * unat (src_rate ?src div 50) = ?n" using k b n by auto
    from arg_cong [OF this, of "of_nat :: nat \<Rightarrow> u32"] show ?thesis by simp
  qed
  have mod0: "src_consumed ?src mod (src_rate ?src div 50) = 0"
  proof -
    have "stress_block s dvd unat (src_consumed ?src)" using rec base by (simp add: writer_record_def)
    then have "unat (src_consumed ?src mod (src_rate ?src div 50)) = 0"
      by (simp add: unat_mod b(1) dvd_eq_mod_eq_0 [symmetric])
    then show ?thesis by (simp only: unat_eq_zero)
  qed
  have "src_rate ?src \<noteq> 0" using b by (auto simp: stress_block_def)
  moreover have "?k \<noteq> 0" "?k \<le> 2" using k12 by (auto simp: word_le_nat_alt unat_eq_zero [symmetric])
  moreover have "?k * (src_rate ?src div 50) \<le> ucast (src_used ?src)"
    unfolding kb using left(2) by (simp add: word_le_nat_alt)
  ultimately obtain h where h: "zy100_stress_source_header ?src (replicate 256 0xFF) ?k = (True, h)"
    using header_accepted [OF _ _ _ mod0] by blast
  note hl = header_layout [OF h]
  have hlen: "length h = 256" using hl(1) by simp
  have ff: "h ! i = 0xFF" if "64 \<le> i" "i < 256" for i
  proof -
    have "h ! i = drop 64 h ! (i - 64)" using that hlen by simp
    also have "\<dots> = 0xFF" unfolding hl(16) [simplified] using that by simp
    finally show ?thesis .
  qed
  have pd: "unat ?pd = min 192 ?n" using left(1) by (simp add: word_less_nat_alt min_def)
  have copy: "zy100_stress_source_copy ?src h 64 ?pd =
      (True, put_at 64 (take (unat ?pd) (src_contents ?src)) h)"
    by (rule copy_eq [OF so]) (use pd left(2) in simp)
  have cont: "take (unat ?pd) (src_contents ?src) = pattern_run (src_seed ?src) (rec_base s) (min 192 ?n)"
  proof -
    have "src_contents ?src = pattern_run (src_seed ?src) (src_consumed ?src) (unat (src_used ?src))"
      using so by (auto elim: source_okE)
    then show ?thesis unfolding pd base using left(2) by (simp add: take_pattern_run)
  qed
  let ?p = "put_at 64 (pattern_run (src_seed ?src) (rec_base s) (min 192 ?n)) h"
  have len: "length ?p = 256" using hlen by simp
  have "image_part s 0 ?p"
    unfolding image_part_def
  proof (intro conjI allI impI)
    fix i assume "i < length ?p"
    then have i: "i < 256" using len by simp
    show "image_byte (src_seed ?src) (rec_base s) ?n (0 + i) (?p ! i)"
    proof (cases "64 \<le> i \<and> i < 64 + ?n")
      case True
      then have j: "i - 64 < min 192 ?n" and j': "i < 64 + min 192 ?n" using i by auto
      then have "?p ! i = pattern_run (src_seed ?src) (rec_base s) (min 192 ?n) ! (i - 64)"
        using True j' i hlen by (subst nth_put_at) auto
      then show ?thesis using True by (simp only: nth_pattern_run [OF j] image_byte_def add_0) simp
    next
      case False
      then show ?thesis using i hlen ff by (auto simp: image_byte_def nth_put_at)
    qed
  next
    show "image_header ?src (rec_base s) (os_record_data s) ?p"
      using hl hlen base kb by (simp add: image_header_def get_u32_put_at) (simp add: put_at_def)
  qed
  then show ?thesis using h copy cont len by auto
qed

lemma later_page:
  assumes st: "writer_stable s" and rec: "writer_record s bs" and o: "os_page_offset s \<noteq> 0"
  shows "\<exists>page. length page = 256 \<and> image_part s (unat (os_page_offset s)) page \<and>
    zy100_stress_source_copy (os_source s) (replicate 256 0xFF) 0
      (if 256 > os_data_left s then os_data_left s else 256) = (True, page)"
proof -
  let ?src = "os_source s" and ?n = "unat (os_record_data s)" and ?o = "unat (os_page_offset s)"
  let ?pd = "if 256 > os_data_left s then os_data_left s else 256"
  have so: "source_ok ?src" using st by (simp add: writer_stable_def)
  have left: "unat (os_data_left s) = ?n - rec_written ?o ?n" "unat (os_data_left s) \<le> unat (src_used ?src)"
    using rec by (auto simp: writer_record_def)
  have "256 dvd ?o" "?o \<noteq> 0" using rec o by (auto simp: writer_record_def unat_eq_zero)
  then have o256: "256 \<le> ?o" by (auto elim: dvdE)
  have base: "src_consumed ?src = rec_base s + of_nat (rec_written ?o ?n)" by (rule left_word(2) [OF rec])
  have pd: "unat ?pd = min 256 (?n - rec_written ?o ?n)"
    using left(1) by (simp add: word_less_nat_alt min_def)
  have copy: "zy100_stress_source_copy ?src (replicate 256 0xFF) 0 ?pd =
      (True, put_at 0 (take (unat ?pd) (src_contents ?src)) (replicate 256 0xFF))"
    by (rule copy_eq [OF so]) (use pd left in simp)
  let ?m = "min 256 (?n - rec_written ?o ?n)"
  have cont: "take (unat ?pd) (src_contents ?src) = pattern_run (src_seed ?src) (src_consumed ?src) ?m"
  proof -
    have "src_contents ?src = pattern_run (src_seed ?src) (src_consumed ?src) (unat (src_used ?src))"
      using so by (auto elim: source_okE)
    then show ?thesis unfolding pd using left by (simp add: take_pattern_run)
  qed
  let ?p = "put_at 0 (pattern_run (src_seed ?src) (src_consumed ?src) ?m) (replicate 256 0xFF) :: u8 list"
  have len: "length ?p = 256" by simp
  have "image_part s ?o ?p"
    unfolding image_part_def
  proof (intro conjI allI impI)
    fix i assume "i < length ?p"
    then have i: "i < 256" using len by simp
    show "image_byte (src_seed ?src) (rec_base s) ?n (?o + i) (?p ! i)"
    proof (cases "i < ?m")
      case True
      then have w: "rec_written ?o ?n = ?o - 64" "?o + i < 64 + ?n" using o256 by (auto simp: rec_written_def)
      have "?p ! i = zy100_stress_pattern (src_seed ?src) (src_consumed ?src + of_nat i)"
        using True by (simp add: nth_put_at)
      moreover have "src_consumed ?src + of_nat i = rec_base s + of_nat (?o + i - 64)"
        using o256 by (simp add: base w(1) algebra_simps)
      ultimately show ?thesis using w(2) by (simp add: image_byte_def)
    next
      case False
      then have "64 + ?n \<le> ?o + i" using i o256 by (auto simp: rec_written_def min_def split: if_splits)
      moreover have "?p ! i = 0xFF" using False i by (simp add: nth_put_at)
      ultimately show ?thesis by (simp add: image_byte_def)
    qed
  next
    assume "?o = 0 \<and> ?p \<noteq> []"
    then show "image_header ?src (rec_base s) (os_record_data s) ?p" using o256 by simp
  qed
  then show ?thesis using copy cont len by auto
qed

section \<open>Programming and verifying a page\<close>

lemma room_eq: "rec_written (off + 256) n - rec_written off n = min (if off = 0 then 192 else 256) (n - rec_written off n)"
  if "256 dvd off"
  using that by (auto simp: rec_written_def min_def elim!: dvdE split: if_splits)

text \<open>A prepared page satisfies the invariant.\<close>

lemma page_upd_ok:
  assumes w: "writer_ok s r bs" and ph: "os_phase s = 1" and e0: "src_error (os_source s) = 0"
    and page: "length page = 256" "image_part s (unat (os_page_offset s)) page"
    and pd: "pd = (if room > os_data_left s then os_data_left s else room)"
    and room: "unat room = (if unat (os_page_offset s) = 0 then 192 else 256)"
  shows "writer_ok (s\<lparr>os_page := Some page, os_page_data := pd, os_prepared := True\<rparr>) r bs"
proof -
  let ?s = "s\<lparr>os_page := Some page, os_page_data := pd, os_prepared := True\<rparr>"
  have rec: "writer_record s bs" and lt: "os_page_offset s < os_record_bytes s" and res: "writer_reserved s r"
    using w ph e0 by (simp_all add: writer_ok_def)
  have st: "writer_stable ?s" using ok_stable [OF w] page(1) ph by (auto simp: writer_stable_def)
  have eqs: "stress_block ?s = stress_block s" "rec_base ?s = rec_base s"
    "\<And>off p. image_part ?s off p = image_part s off p" by (simp_all add: writer_defs)
  have rec': "writer_record ?s bs" using rec by (simp add: writer_record_def eqs)
  have d: "256 dvd unat (os_page_offset s)" and left: "unat (os_data_left s) =
      unat (os_record_data s) - rec_written (unat (os_page_offset s)) (unat (os_record_data s))"
    using rec by (simp_all add: writer_record_def)
  have "unat pd = rec_written (unat (os_page_offset s) + 256) (unat (os_record_data s)) -
       rec_written (unat (os_page_offset s)) (unat (os_record_data s))"
    unfolding room_eq [OF d] pd left [symmetric] using room by (simp add: word_less_nat_alt min_def)
  then have "page_ready ?s" using page(2) by (simp add: page_ready_def eqs)
  then show ?thesis using st rec' lt res ph e0 by (simp add: writer_ok_def writer_reserved_def)
qed

lemma prepare_ok:
  assumes w: "writer_ok s r bs" and ph: "os_phase s = 1" and e0: "src_error (os_source s) = 0"
  shows "\<exists>s'. write_prepare s = (True, s') \<and> writer_ok s' r bs \<and> os_phase s' = 1 \<and>
    os_prepared s' \<and> src_error (os_source s') = 0"
proof -
  have st: "writer_stable s" and rec: "writer_record s bs"
    using w ph e0 by (simp_all add: writer_ok_def)
  obtain p where p: "os_page s = Some p" using st by (auto simp: writer_stable_def)
  show ?thesis
  proof (cases "os_page_offset s = 0")
    case True
    let ?pd = "if 192 > os_data_left s then os_data_left s else 192"
    obtain h page where h: "zy100_stress_source_header (os_source s) (replicate 256 0xFF)
        (os_record_data s div (src_rate (os_source s) div 50)) = (True, h)" "length page = 256"
        "zy100_stress_source_copy (os_source s) h 64 ?pd = (True, page)" "image_part s 0 page"
      using first_page [OF st rec True] by blast
    have "write_prepare s = (True, s\<lparr>os_page := Some page, os_page_data := ?pd, os_prepared := True\<rparr>)"
      unfolding write_prepare_def Let_def using True h p by (cases "os_data_left s < 192") simp_all
    moreover have "writer_ok (s\<lparr>os_page := Some page, os_page_data := ?pd, os_prepared := True\<rparr>) r bs"
      by (rule page_upd_ok [OF w ph e0 h(2) _ refl]) (use True h(4) in simp_all)
    ultimately show ?thesis using ph e0 by simp
  next
    case False
    let ?pd = "if 256 > os_data_left s then os_data_left s else 256"
    obtain page where h: "length page = 256" "image_part s (unat (os_page_offset s)) page"
        "zy100_stress_source_copy (os_source s) (replicate 256 0xFF) 0 ?pd = (True, page)"
      using later_page [OF st rec False] by blast
    have "write_prepare s = (True, s\<lparr>os_page := Some page, os_page_data := ?pd, os_prepared := True\<rparr>)"
      unfolding write_prepare_def Let_def using False h p by (cases "os_data_left s < 256") simp_all
    moreover have "writer_ok (s\<lparr>os_page := Some page, os_page_data := ?pd, os_prepared := True\<rparr>) r bs"
      by (rule page_upd_ok [OF w ph e0 h(1,2) refl]) (use False in \<open>simp add: unat_eq_zero\<close>)
    ultimately show ?thesis using ph e0 by simp
  qed
qed

lemma programmed_ok:
  assumes "writer_ok s r bs" "os_phase s = 1" "os_prepared s" "src_error (os_source s) = 0"
  shows "writer_ok (s\<lparr>os_phase := 2\<rparr>) r bs"
proof -
  let ?s = "s\<lparr>os_phase := 2\<rparr>"
  have eqs: "stress_block ?s = stress_block s" "rec_base ?s = rec_base s" "page_ready ?s = page_ready s"
    "writer_record ?s bs = writer_record s bs" "writer_reserved ?s r = writer_reserved s r"
    by (simp_all add: writer_defs)
  have "writer_stable ?s" using ok_stable [OF assms(1)] assms(2) by (simp add: writer_stable_def)
  then show ?thesis using assms by (simp add: writer_ok_def eqs)
qed

text \<open>With the page prepared, a program step is a page write.\<close>

definition program_page :: "'d device \<Rightarrow> u32 \<Rightarrow> 'd world \<Rightarrow> bool \<times> 'd world" where
  "program_page D addr w =
     (let (timed, stamp, w3) = timebase_snapshot D w;
          (io, w4) = zy100_online_spool_write_reserved_page D
            (tgt_token (os_target (w_stress w3))) addr (os_page (w_stress w3)) w3
      in if io = IO_BUSY then (True, io_wait w4)
         else if io \<noteq> IO_OK then stress_fail D ZY100_STRESS_PROGRAM w4
         else (True, on_stress (os_phase_update (\<lambda>_. 2))
                (profile D os_program_max_us_update stamp timed w4)))"

lemma prepare_frame:
  assumes "write_prepare s = (ok, s')"
  shows "os_page_offset s' = os_page_offset s \<and> os_record_bytes s' = os_record_bytes s \<and>
    os_target s' = os_target s \<and> os_record_data s' = os_record_data s \<and> os_source s' = os_source s \<and>
    os_committed s' = os_committed s"
  using assms by (auto simp: write_prepare_def Let_def split: prod.splits if_splits)

lemma program_prepared:
  assumes w: "writer_ok (w_stress w) res bs" and ph: "os_phase (w_stress w) = 1"
    and e0: "src_error (os_source (w_stress w)) = 0"
  obtains w2 where "write_program D addr w = program_page D addr w2"
    "writer_ok (w_stress w2) res bs" "os_phase (w_stress w2) = 1" "os_prepared (w_stress w2)"
    "src_error (os_source (w_stress w2)) = 0" "w_spool w2 = w_spool w"
    "os_page_offset (w_stress w2) = os_page_offset (w_stress w)"
    "os_record_bytes (w_stress w2) = os_record_bytes (w_stress w)"
    "os_target (w_stress w2) = os_target (w_stress w)"
    "\<And>mem. reliable_flash D mem \<Longrightarrow> mem (w_dev w2) = mem (w_dev w)"
proof -
  let ?w1 = "zy100_online_stress_diag_stage D ZY100_SD_PROGRAM w"
  have eq: "write_program D addr w = program_page D addr w2"
    if "(if os_prepared (w_stress ?w1) then (True, ?w1)
      else let (timed, stamp, w1a) = timebase_snapshot D ?w1; (ok, s) = write_prepare (w_stress w1a);
             w1b = on_stress (\<lambda>_. s) w1a
           in if ok then (True, profile D os_build_max_us_update stamp timed w1b) else (False, w1b)) = (True, w2)"
    for w2
    using that by (simp add: write_program_def program_page_def Let_def)
  show ?thesis
  proof (cases "os_prepared (w_stress w)")
    case True
    show ?thesis by (rule that [of ?w1]) (use True w ph e0 eq in simp_all)
  next
    case False
    obtain timed stamp w1a where ts: "timebase_snapshot D ?w1 = (timed, stamp, w1a)" by (rule prod_cases3)
    have w1a: "w_stress w1a = w_stress w" "w_spool w1a = w_spool w" using snapshot_frame [OF ts] by simp_all
    obtain s' where s': "write_prepare (w_stress w) = (True, s')" "writer_ok s' res bs"
        "os_phase s' = 1" "os_prepared s'" "src_error (os_source s') = 0"
      using prepare_ok [OF w ph e0] by blast
    let ?w2 = "profile D os_build_max_us_update stamp timed (on_stress (\<lambda>_. s') w1a)"
    obtain v where v: "w_stress ?w2 = s'\<lparr>os_build_max_us := v\<rparr>"
      using profile_peaks(1) [of D stamp timed "on_stress (\<lambda>_. s') w1a"] by auto
    have m: "mem (w_dev ?w2) = mem (w_dev w)" if "reliable_flash D mem" for mem :: "_ \<Rightarrow> u32 \<Rightarrow> u8"
      using mem_profile [OF that] mem_clocks(1) [OF that ts] mem_stage [OF that] by simp
    show ?thesis
      by (rule that [of ?w2], rule eq)
        (use False s' w1a ts v m prepare_frame [OF s'(1)] in \<open>simp_all add: Let_def\<close>)
  qed
qed

lemma write_program_ok:
  assumes w: "writer_ok (w_stress w) (sp_reservation (w_spool w)) bs" and ph: "os_phase (w_stress w) = 1"
    and e0: "src_error (os_source (w_stress w)) = 0" and out: "write_program D addr w = (r, w')"
  shows "writer_ok (w_stress w') (sp_reservation (w_spool w')) bs \<and>
    os_page_offset (w_stress w') = os_page_offset (w_stress w)"
proof -
  let ?res = "sp_reservation (w_spool w)"
  obtain w2 where w2: "write_program D addr w = program_page D addr w2"
    "writer_ok (w_stress w2) ?res bs" "os_phase (w_stress w2) = 1" "os_prepared (w_stress w2)"
    "src_error (os_source (w_stress w2)) = 0" "w_spool w2 = w_spool w"
    "os_page_offset (w_stress w2) = os_page_offset (w_stress w)"
    using program_prepared [OF w ph e0, where D = D and addr = addr] by blast
  obtain timed2 stamp2 w3 where ts2: "timebase_snapshot D w2 = (timed2, stamp2, w3)" by (rule prod_cases3)
  have w3: "w_stress w3 = w_stress w2" "w_spool w3 = w_spool w2" using snapshot_frame [OF ts2] by simp_all
  obtain io w4 where wr: "zy100_online_spool_write_reserved_page D (tgt_token (os_target (w_stress w3))) addr
      (os_page (w_stress w3)) w3 = (io, w4)" by fastforce
  have w4: "w_stress w4 = w_stress w2" "sp_reservation (w_spool w4) = ?res"
    using write_page_same [OF wr] w3 w2(6) queue_fields(11) [of "w_spool w4" "w_spool w3"] by simp_all
  have ok4: "writer_ok (w_stress w4) ?res bs" using w2(2) w4(1) by simp
  let ?w5 = "profile D os_program_max_us_update stamp2 timed2 w4"
  have eq: "write_program D addr w = (if io = IO_BUSY then (True, io_wait w4)
      else if io \<noteq> IO_OK then stress_fail D ZY100_STRESS_PROGRAM w4
      else (True, on_stress (os_phase_update (\<lambda>_. 2)) ?w5))"
    unfolding w2(1) program_page_def by (simp add: Let_def ts2 wr)
  consider (busy) "io = IO_BUSY" | (err) "io \<noteq> IO_BUSY" "io \<noteq> IO_OK" | (ok) "io = IO_OK" by blast
  then show ?thesis
  proof cases
    case busy then show ?thesis using out eq ok4 w4 w2(7) by (auto simp: io_wait_def)
  next
    case err
    then have f: "stress_fail D ZY100_STRESS_PROGRAM w4 = (r, w')" using out eq by simp
    show ?thesis
      using fail_ok [OF f ok_stable [OF ok4]] stress_fail_frame [OF f] w4 w2(7) by (simp add: latch_failure_def Let_def)
  next
    case ok
    then have w': "w' = on_stress (os_phase_update (\<lambda>_. 2)) ?w5" using out eq by simp
    obtain v where v: "w_stress ?w5 = (w_stress w4)\<lparr>os_program_max_us := v\<rparr>"
      using profile_peaks(2) by blast
    have "writer_ok ((w_stress ?w5)\<lparr>os_phase := 2\<rparr>) ?res bs"
      by (rule programmed_ok) (use v ok4 w4(1) w2 in simp_all)
    then show ?thesis using w' w4 v w2(7) by simp
  qed
qed

section \<open>Releasing a verified page\<close>

lemma read_reserved_buf:
  assumes "zy100_online_spool_read_reserved D token addr (Some old) w = (io, buf, w')"
  shows "\<exists>v. buf = Some v \<and> length v = length old"
  using assms
  by (auto simp: zy100_online_spool_read_reserved_def Let_def dest!: io_read_frame split: prod.splits if_splits)

text \<open>The writer behind the page it verified.\<close>

definition page_released :: "stress_source \<Rightarrow> u8 list \<Rightarrow> online_stress \<Rightarrow> online_stress" where
  "page_released src page s = s\<lparr>os_crc := zy100_crc32_ieee_update (os_crc s) page, os_source := src,
     os_data_left := os_data_left s - os_page_data s, os_page_offset := os_page_offset s + 256,
     os_prepared := False, os_phase := 1\<rparr>"

lemma image_append:
  assumes "image_part s 0 bs" "image_part s (length bs) page" "256 \<le> length page"
    and "bs = [] \<or> 256 \<le> length bs"
  shows "image_part s 0 (bs @ page)"
  unfolding image_part_def
proof (intro conjI allI impI)
  fix i assume i: "i < length (bs @ page)"
  show "image_byte (src_seed (os_source s)) (rec_base s) (unat (os_record_data s)) (0 + i) ((bs @ page) ! i)"
  proof (cases "i < length bs")
    case True then show ?thesis using assms(1) by (simp add: image_part_def nth_append)
  next
    case False
    then have "image_byte (src_seed (os_source s)) (rec_base s) (unat (os_record_data s))
        (length bs + (i - length bs)) (page ! (i - length bs))"
      using i assms(2) unfolding image_part_def by (simp only: length_append)
    then show ?thesis using False by (simp add: nth_append)
  qed
next
  show "image_header (os_source s) (rec_base s) (os_record_data s) (bs @ page)"
  proof (cases "bs = []")
    case True
    have "page \<noteq> []" using assms(3) by auto
    then show ?thesis using True assms(2) by (simp add: image_part_def)
  next
    case False
    then have l: "256 \<le> length bs" using assms(4) by blast
    have h: "image_header (os_source s) (rec_base s) (os_record_data s) bs"
      using assms(1) False by (simp add: image_part_def)
    have g: "zy100_get_u32_le (bs @ page) off = zy100_get_u32_le bs off" if "off + 4 \<le> 256" for off
      using that l by (intro get_u32_cong) (simp add: nth_append)
    show ?thesis using h l by (simp add: image_header_def g)
  qed
qed

lemma page_released_ok:
  assumes w: "writer_ok s r bs" and ph: "os_phase s = 2" and e0: "src_error (os_source s) = 0"
    and page: "os_page s = Some page"
    and src: "zy100_stress_source_consume (os_source s) (os_page_data s) = (ok, src)"
  shows "ok \<and> writer_stable (page_released src page s) \<and>
    writer_record (page_released src page s) (bs @ page) \<and>
    writer_reserved (page_released src page s) r \<and> src_error src = 0"
proof -
  let ?t = "page_released src page s" and ?n = "unat (os_record_data s)" and ?o = "unat (os_page_offset s)"
  have st: "writer_stable s" and rec: "writer_record s bs" and lt: "os_page_offset s < os_record_bytes s"
    and res: "writer_reserved s r" and pr: "page_ready s"
    using w ph e0 by (simp_all add: writer_ok_def)
  have len: "length page = 256" using st page by (auto simp: writer_stable_def)
  have d: "256 dvd ?o" and left: "unat (os_data_left s) = ?n - rec_written ?o ?n"
    and used: "unat (os_data_left s) \<le> unat (src_used (os_source s))"
    and rb: "256 dvd unat (os_record_bytes s)"
    and sum: "unat (rec_base s) + ?n = unat (src_consumed (os_source s)) + unat (os_data_left s)"
    and lbs: "length bs = ?o"
    using rec by (auto simp: writer_record_def)
  have pd: "unat (os_page_data s) = rec_written (?o + 256) ?n - rec_written ?o ?n"
    using pr by (simp add: page_ready_def)
  then have pdl: "unat (os_page_data s) \<le> unat (os_data_left s)"
    unfolding left rec_written_def by (simp add: diff_le_mono)
  have so: "source_ok (os_source s)" using st by (simp add: writer_stable_def)
  obtain t where c: "zy100_stress_source_consume (os_source s) (os_page_data s) = (True, t)"
    "source_ok t" "src_consumed t = src_consumed (os_source s) + os_page_data s"
    "src_generated t = src_generated (os_source s)" "src_seed t = src_seed (os_source s)"
    "src_rate t = src_rate (os_source s)" "src_error t = src_error (os_source s)"
    "unat (src_used t) = unat (src_used (os_source s)) - unat (os_page_data s)"
    using consume_ok [OF so, of "os_page_data s"] pdl used by auto
  have ok: ok and t: "src = t" using src c(1) by auto
  have cu: "unat (src_consumed (os_source s)) + unat (src_used (os_source s)) =
      unat (src_generated (os_source s))" using st by (simp add: writer_stable_def)
  have ct: "unat (src_consumed t) = unat (src_consumed (os_source s)) + unat (os_page_data s)"
    unfolding c(3) using cu pdl used unat_lt_32 [of "src_generated (os_source s)"]
    by (subst unat_add_32) simp_all
  have cut: "unat (src_consumed t) + unat (src_used t) = unat (src_generated t)"
    using cu pdl used by (simp add: ct c(4,8))
  have left': "unat (os_data_left s - os_page_data s) = ?n - rec_written (?o + 256) ?n"
  proof -
    have "os_page_data s \<le> os_data_left s" using pdl by (simp add: word_le_nat_alt)
    then have "unat (os_data_left s - os_page_data s) = unat (os_data_left s) - unat (os_page_data s)"
      by (rule unat_sub)
    also have "\<dots> = ?n - rec_written (?o + 256) ?n"
      unfolding left pd by (simp add: rec_written_def)
    finally show ?thesis .
  qed
  have o': "?o + 256 \<le> unat (os_record_bytes s)"
    using d rb lt by (auto simp: word_less_nat_alt elim!: dvdE)
  then have uo: "unat (os_page_offset s + 256) = ?o + 256"
    using unat_lt_32 [of "os_record_bytes s"] by (subst unat_add_32) simp_all
  have f: "os_source ?t = t" "os_record_data ?t = os_record_data s" "os_record_bytes ?t = os_record_bytes s"
    "os_data_left ?t = os_data_left s - os_page_data s" "os_page_offset ?t = os_page_offset s + 256"
    "os_crc ?t = zy100_crc32_ieee_update (os_crc s) page" "os_page ?t = os_page s" "os_verify ?t = os_verify s"
    "os_committed ?t = os_committed s" "os_phase ?t = 1" "os_target ?t = os_target s"
    by (simp_all add: page_released_def t)
  have base: "rec_base ?t = rec_base s" by (simp add: rec_base_def f c(3))
  have img: "image_part ?t off p = image_part s off p" for off p
    by (simp add: image_part_def image_header_def f base c(5,6))
  have blk: "stress_block ?t = stress_block s" by (simp add: stress_block_def f c(6))
  have "image_part s 0 (bs @ page)"
  proof (rule image_append)
    show "image_part s 0 bs" using rec by (simp add: writer_record_def)
    show "image_part s (length bs) page" using pr page lbs by (simp add: page_ready_def)
    obtain k where k: "length bs = 256 * k" using d lbs by (auto elim: dvdE)
    then show "bs = [] \<or> 256 \<le> length bs" by (cases k) auto
  qed (simp add: len)
  then have "image_part ?t 0 (bs @ page)" by (simp add: img)
  moreover have "unat (os_data_left s - os_page_data s) \<le> unat (src_used t)"
    using pdl used by (simp add: c(8) unat_sub word_le_nat_alt)
  moreover have "unat (rec_base s) + ?n = unat (src_consumed t) + unat (os_data_left s - os_page_data s)"
    using sum pdl by (simp add: ct unat_sub word_le_nat_alt)
  moreover have "256 dvd unat (os_page_offset s + 256)" using d by (simp add: uo)
  moreover have "os_page_offset s + 256 \<le> os_record_bytes s" using o' by (simp add: word_le_nat_alt uo)
  moreover have "length (bs @ page) = unat (os_page_offset s + 256)" using lbs len uo by simp
  ultimately have rec': "writer_record ?t (bs @ page)"
    using rec left' uo unfolding writer_record_def f base blk by simp
  have "writer_stable ?t"
    unfolding writer_stable_def f using st ph c cut by (auto simp: writer_stable_def)
  moreover have "writer_reserved ?t r" using res by (simp add: writer_reserved_def f)
  ultimately show ?thesis using ok rec' c(7) e0 t by simp
qed

lemma commit_with_crc_fields:
  assumes "res_active (sp_reservation s)" "\<not> res_data_done (sp_reservation s)"
    "res_commit_state (sp_reservation s) = COMMIT_IDLE" "res_token (sp_reservation s) = token"
  shows "\<exists>s'. zy100_online_spool_commit_with_crc token crc s = (True, s') \<and>
    res_crc_final_valid (sp_reservation s') \<and> res_crc32_final (sp_reservation s') = crc"
  using assms by (simp add: zy100_online_spool_commit_with_crc_def Let_def)

text \<open>A release never fails: only the flash can make the writer fail.\<close>

lemma release_shape:
  assumes w: "writer_ok (w_stress w) (sp_reservation (w_spool w)) bs" and ph: "os_phase (w_stress w) = 2"
    and e0: "src_error (os_source (w_stress w)) = 0" and page: "os_page (w_stress w) = Some page"
  obtains src w7 sp where
    "zy100_stress_source_consume (os_source (w_stress w)) (os_page_data (w_stress w)) = (True, src)"
    "w_stress w7 = page_released src page (w_stress w)" "w_spool w7 = w_spool w"
    "\<And>mem. reliable_flash D mem \<Longrightarrow> mem (w_dev w7) = mem (w_dev w)"
    "zy100_online_spool_commit_with_crc (tgt_token (os_target (w_stress w)))
       (zy100_crc32_ieee_finish (os_crc (page_released src page (w_stress w)))) (w_spool w) = (True, sp)"
    "res_crc_final_valid (sp_reservation sp)"
    "res_crc32_final (sp_reservation sp) = zy100_crc32_ieee_finish (os_crc (page_released src page (w_stress w)))"
    "write_release D w =
       (if os_page_offset (w_stress w) + 256 = os_record_bytes (w_stress w)
        then (True, on_stress (os_phase_update (\<lambda>_. 3)) (on_spool (\<lambda>_. sp) w7)) else (True, w7))"
proof -
  let ?s = "w_stress w"
  obtain ok src where c: "zy100_stress_source_consume (os_source ?s) (os_page_data ?s) = (ok, src)" by fastforce
  note pr = page_released_ok [OF w ph e0 page c]
  let ?w1 = "on_stress (\<lambda>s. s\<lparr>os_crc := zy100_crc32_ieee_update (os_crc s) (the (os_page s))\<rparr>) w"
  let ?w2 = "on_stress (os_source_update (\<lambda>_. src)) ?w1"
  obtain now w3 where ts: "os_time_ms D ?w2 = (now, w3)" by fastforce
  have w3: "w_stress w3 = w_stress ?w2" "w_spool w3 = w_spool w" using os_time_frame [OF ts] by simp_all
  define w7 where "w7 = on_stress (\<lambda>s. s\<lparr>os_prepared := False, os_phase := 1\<rparr>)
    (on_diag (zy100_stress_diag_record_page ((os_page_offset (w_stress w3) + 256) div 256))
      (on_stress (\<lambda>s. s\<lparr>os_data_left := os_data_left s - os_page_data s, os_page_offset := os_page_offset s + 256\<rparr>)
        (on_diag (zy100_stress_diag_release now (source_used w3 + os_page_data (w_stress w3))
          (os_page_data (w_stress w3))) w3)))"
  let ?t = "page_released src page ?s"
  have s7: "w_stress w7 = ?t" "w_spool w7 = w_spool w" "w_dev w7 = w_dev w3"
    using w3 page by (simp_all add: w7_def page_released_def)
  have f: "os_page_offset ?t = os_page_offset ?s + 256" "os_record_bytes ?t = os_record_bytes ?s"
    "os_target ?t = os_target ?s" by (simp_all add: page_released_def)
  have rs: "writer_reserved ?t (sp_reservation (w_spool w))" using pr by blast
  obtain sp where sp: "zy100_online_spool_commit_with_crc (tgt_token (os_target ?t))
      (zy100_crc32_ieee_finish (os_crc ?t)) (w_spool w) = (True, sp)"
      "res_crc_final_valid (sp_reservation sp)" "res_crc32_final (sp_reservation sp) = zy100_crc32_ieee_finish (os_crc ?t)"
    using rs commit_with_crc_fields [of "w_spool w"] unfolding writer_reserved_def by blast
  obtain ok2 sp2 where cc: "zy100_online_spool_commit_with_crc (tgt_token (os_target (w_stress w7)))
      (zy100_crc32_ieee_finish (os_crc (w_stress w7))) (w_spool w7) = (ok2, sp2)" by fastforce
  have eq: "write_release D w = (if os_page_offset (w_stress w7) = os_record_bytes (w_stress w7)
      then if \<not> ok2 then stress_fail D ZY100_STRESS_COMMIT (on_spool (\<lambda>_. sp2) w7)
           else (True, on_stress (os_phase_update (\<lambda>_. 3)) (on_spool (\<lambda>_. sp2) w7))
      else (True, w7))"
    using c pr cc unfolding write_release_def by (simp add: Let_def ts w7_def)
  have same: "ok2" "sp2 = sp" using cc sp(1) by (simp_all add: s7(1,2))
  show ?thesis
  proof (rule that)
    show "mem (w_dev w7) = mem (w_dev w)" if "reliable_flash D mem" for mem :: "_ \<Rightarrow> u32 \<Rightarrow> u8"
      using s7(3) mem_clocks(2) [OF that ts] by simp
    show "write_release D w =
       (if os_page_offset (w_stress w) + 256 = os_record_bytes (w_stress w)
        then (True, on_stress (os_phase_update (\<lambda>_. 3)) (on_spool (\<lambda>_. sp) w7)) else (True, w7))"
      unfolding eq s7(1) f same(2) using same(1) by simp
  qed (use c pr s7 sp f in simp_all)
qed

lemma write_release_ok:
  assumes w: "writer_ok (w_stress w) (sp_reservation (w_spool w)) bs" and ph: "os_phase (w_stress w) = 2"
    and e0: "src_error (os_source (w_stress w)) = 0" and page: "os_page (w_stress w) = Some page"
    and out: "write_release D w = (r, w')"
  shows "r \<and> writer_ok (w_stress w') (sp_reservation (w_spool w')) (bs @ page) \<and>
    os_page_offset (w_stress w') = os_page_offset (w_stress w) + 256 \<and> os_page (w_stress w') = Some page"
proof -
  let ?s = "w_stress w"
  obtain src w7 s' where c: "zy100_stress_source_consume (os_source ?s) (os_page_data ?s) = (True, src)"
    and s7: "w_stress w7 = page_released src page ?s" "w_spool w7 = w_spool w"
    and s': "res_crc_final_valid (sp_reservation s')"
      "res_crc32_final (sp_reservation s') = zy100_crc32_ieee_finish (os_crc (page_released src page ?s))"
    and eq: "write_release D w = (if os_page_offset ?s + 256 = os_record_bytes ?s
      then (True, on_stress (os_phase_update (\<lambda>_. 3)) (on_spool (\<lambda>_. s') w7)) else (True, w7))"
    using release_shape [OF w ph e0 page, where D = D] by metis
  note pr = page_released_ok [OF w ph e0 page c]
  let ?t = "page_released src page ?s"
  have f: "os_page_offset ?t = os_page_offset ?s + 256" "os_page ?t = Some page" "os_source ?t = src" "os_phase ?t = 1"
    "\<not> os_prepared ?t" "os_record_bytes ?t = os_record_bytes ?s"
    using page by (simp_all add: page_released_def)
  show ?thesis
  proof (cases "os_page_offset ?s + 256 = os_record_bytes ?s")
    case False
    from out have "(True, w7) = (r, w')" unfolding eq if_not_P [OF False] .
    then have w': "w' = w7" "r" by (simp_all only: prod.inject)
    have "os_page_offset ?t \<le> os_record_bytes ?t" using pr unfolding writer_record_def by blast
    then have "os_page_offset ?t < os_record_bytes ?t" using False unfolding f by (rule le_neq_trans)
    then have "writer_ok ?t (sp_reservation (w_spool w)) (bs @ page)"
      using pr f by (simp add: writer_ok_def)
    then show ?thesis using w' s7 f by simp
  next
    case True
    from out have "(True, on_stress (os_phase_update (\<lambda>_. 3)) (on_spool (\<lambda>_. s') w7)) = (r, w')"
      unfolding eq if_P [OF True] .
    then have w': "w' = on_stress (os_phase_update (\<lambda>_. 3)) (on_spool (\<lambda>_. s') w7)" "r"
      by (simp_all only: prod.inject)
    let ?u = "?t\<lparr>os_phase := 3\<rparr>"
    have eqs: "stress_block ?u = stress_block ?t" "rec_base ?u = rec_base ?t"
      "writer_record ?u (bs @ page) = writer_record ?t (bs @ page)" by (simp_all add: writer_defs)
    have "os_crc ?t = zy100_crc32_ieee_update zy100_crc32_ieee_begin (bs @ page)"
      using pr by (simp add: writer_record_def)
    then have "writer_commit ?u (sp_reservation s') (bs @ page)"
      using True s' f by (simp add: writer_commit_def zy100_crc32_ieee_def)
    moreover have "writer_stable ?u" using pr f by (simp add: writer_stable_def)
    ultimately have "writer_ok ?u (sp_reservation s') (bs @ page)"
      using pr f eqs by (simp add: writer_ok_def)
    then show ?thesis using w' s7 f by simp
  qed
qed

text \<open>What else a release moves.\<close>

lemma commit_with_crc_wip:
  "zy100_online_spool_commit_with_crc token crc s = (ok, s') \<Longrightarrow> sp_erase_wip s' = sp_erase_wip s"
  by (auto simp: zy100_online_spool_commit_with_crc_def Let_def spool_latch_error_def on_stats_def split: if_splits)

lemma release_frame:
  assumes w: "writer_ok (w_stress w) (sp_reservation (w_spool w)) bs" and ph: "os_phase (w_stress w) = 2"
    and e0: "src_error (os_source (w_stress w)) = 0" and page: "os_page (w_stress w) = Some page"
    and out: "write_release D w = (r, w')"
  shows "src_error (os_source (w_stress w')) = 0"
    "os_phase (w_stress w') = (if os_page_offset (w_stress w) + 256 = os_record_bytes (w_stress w) then 3 else 1)"
    "os_record_bytes (w_stress w') = os_record_bytes (w_stress w)" "os_target (w_stress w') = os_target (w_stress w)"
    "sp_erase_wip (w_spool w') = sp_erase_wip (w_spool w)"
    "\<And>mem. reliable_flash D mem \<Longrightarrow> mem (w_dev w') = mem (w_dev w)"
    "src_consumed (os_source (w_stress w')) = src_consumed (os_source (w_stress w)) + os_page_data (w_stress w)"
    "os_committed (w_stress w') = os_committed (w_stress w)"
proof -
  let ?s = "w_stress w"
  obtain src w7 sp where c: "zy100_stress_source_consume (os_source ?s) (os_page_data ?s) = (True, src)"
    and s7: "w_stress w7 = page_released src page ?s" "w_spool w7 = w_spool w"
    and m7: "\<And>mem. reliable_flash D mem \<Longrightarrow> mem (w_dev w7) = mem (w_dev w)"
    and cc: "zy100_online_spool_commit_with_crc (tgt_token (os_target ?s))
       (zy100_crc32_ieee_finish (os_crc (page_released src page ?s))) (w_spool w) = (True, sp)"
    and eq: "write_release D w = (if os_page_offset ?s + 256 = os_record_bytes ?s
      then (True, on_stress (os_phase_update (\<lambda>_. 3)) (on_spool (\<lambda>_. sp) w7)) else (True, w7))"
    by (rule release_shape [OF w ph e0 page, where D = D]) blast
  note pr = page_released_ok [OF w ph e0 page c]
  have sc: "src_consumed src = src_consumed (os_source ?s) + os_page_data ?s"
    using c by (auto simp: zy100_stress_source_consume_def split: if_splits)
  let ?t = "page_released src page ?s"
  have f: "os_record_bytes ?t = os_record_bytes ?s" "os_target ?t = os_target ?s" "os_source ?t = src" "os_phase ?t = 1"
    "os_committed ?t = os_committed ?s"
    by (simp_all add: page_released_def)
  have w': "w' = (if os_page_offset ?s + 256 = os_record_bytes ?s
      then on_stress (os_phase_update (\<lambda>_. 3)) (on_spool (\<lambda>_. sp) w7) else w7)"
    using arg_cong [OF out, of snd] unfolding eq by (simp only: if_distrib [of snd] snd_conv)
  have wip: "sp_erase_wip sp = sp_erase_wip (w_spool w)" using commit_with_crc_wip [OF cc] .
  show "src_error (os_source (w_stress w')) = 0" using pr w' s7 f by simp
  show "os_phase (w_stress w') = (if os_page_offset ?s + 256 = os_record_bytes ?s then 3 else 1)"
    using w' s7 f by simp
  show "os_record_bytes (w_stress w') = os_record_bytes ?s" "os_target (w_stress w') = os_target ?s"
    using w' s7 f by simp_all
  show "sp_erase_wip (w_spool w') = sp_erase_wip (w_spool w)" using w' s7 wip by simp
  show "mem (w_dev w') = mem (w_dev w)" if "reliable_flash D mem" for mem :: "_ \<Rightarrow> u32 \<Rightarrow> u8"
    using w' m7 [OF that] by simp
  show "src_consumed (os_source (w_stress w')) = src_consumed (os_source ?s) + os_page_data ?s"
    using w' s7 f sc by simp
  show "os_committed (w_stress w') = os_committed ?s" using w' s7 f by simp
qed

lemma verify_upd_ok:
  assumes w: "writer_ok s r bs" and v: "length v = 256"
  shows "writer_ok (s\<lparr>os_verify := Some v\<rparr>) r bs"
proof -
  let ?s = "s\<lparr>os_verify := Some v\<rparr>"
  have eqs: "stress_block ?s = stress_block s" "page_ready ?s = page_ready s"
    "writer_record ?s bs = writer_record s bs" "writer_reserved ?s r = writer_reserved s r"
    "writer_commit ?s r bs = writer_commit s r bs"
    by (simp_all add: writer_defs)
  have "writer_stable ?s"
    using ok_stable [OF w] v by (cases "os_phase s = 0") (auto simp: writer_stable_def)
  then show ?thesis using w by (simp add: writer_ok_def eqs)
qed

lemma write_verify_ok:
  assumes w: "writer_ok (w_stress w) (sp_reservation (w_spool w)) bs" and ph: "os_phase (w_stress w) = 2"
    and e0: "src_error (os_source (w_stress w)) = 0" and out: "write_verify D addr w = (r, w')"
  shows "(os_page_offset (w_stress w') = os_page_offset (w_stress w) \<and>
      writer_ok (w_stress w') (sp_reservation (w_spool w')) bs) \<or>
    (r \<and> os_page_offset (w_stress w') = os_page_offset (w_stress w) + 256 \<and>
      (\<exists>token page w1 w2. os_page (w_stress w) = Some page \<and> os_page (w_stress w') = Some page \<and>
        zy100_online_spool_read_reserved D token addr (os_verify (w_stress w)) w1 = (IO_OK, Some page, w2) \<and>
        writer_ok (w_stress w') (sp_reservation (w_spool w')) (bs @ page)))"
proof -
  let ?res = "sp_reservation (w_spool w)"
  let ?w1 = "zy100_online_stress_diag_stage D ZY100_SD_VERIFY w"
  obtain timed stamp w2 where ts: "timebase_snapshot D ?w1 = (timed, stamp, w2)" by (rule prod_cases3)
  have w2: "w_stress w2 = w_stress w" "w_spool w2 = w_spool w" using snapshot_frame [OF ts] by simp_all
  let ?tok = "tgt_token (os_target (w_stress w2))"
  obtain io buf w3 where rd: "zy100_online_spool_read_reserved D ?tok addr (os_verify (w_stress w2)) w2 = (io, buf, w3)"
    by (rule prod_cases3)
  obtain old page where old: "os_verify (w_stress w) = Some old" "length old = 256"
      "os_page (w_stress w) = Some page"
    using ok_stable [OF w] by (auto simp: writer_stable_def)
  obtain v where v: "buf = Some v" "length v = 256"
    using read_reserved_buf [of D ?tok addr old w2 io buf w3] rd w2 old by auto
  have w3: "w_stress w3 = w_stress w" "sp_reservation (w_spool w3) = ?res"
    using read_reserved_same [OF rd] w2 queue_fields(11) [of "w_spool w3" "w_spool w2"] by simp_all
  let ?w4 = "on_stress (os_verify_update (\<lambda>_. buf)) w3"
  have ver: "writer_ok ((w_stress w)\<lparr>os_verify := Some v\<rparr>) ?res bs"
    using w v(2) by (rule verify_upd_ok)
  then have ok4: "writer_ok (w_stress ?w4) ?res bs" using w3 v(1) by simp
  let ?w5 = "profile D os_verify_max_us_update stamp timed ?w4"
  have eq: "write_verify D addr w = (if io = IO_BUSY then (True, io_wait ?w4)
      else if io \<noteq> IO_OK \<or> os_page (w_stress ?w4) \<noteq> os_verify (w_stress ?w4)
      then stress_fail D ZY100_STRESS_VERIFY ?w4 else write_release D ?w5)"
    unfolding write_verify_def Let_def ts rd prod.case ..
  consider (busy) "io = IO_BUSY"
    | (err) "io \<noteq> IO_BUSY" "io \<noteq> IO_OK \<or> os_page (w_stress ?w4) \<noteq> os_verify (w_stress ?w4)"
    | (ok) "io = IO_OK" "os_page (w_stress ?w4) = os_verify (w_stress ?w4)" by blast
  then show ?thesis
  proof cases
    case busy
    then have "w' = io_wait ?w4" using out eq by simp
    then show ?thesis using ok4 w3 by (simp add: io_wait_def)
  next
    case err
    then have f: "stress_fail D ZY100_STRESS_VERIFY ?w4 = (r, w')" using out eq by simp
    have "os_page_offset (w_stress w') = os_page_offset (w_stress w)"
      using stress_fail_frame [OF f] w3 by (simp add: latch_failure_def Let_def)
    then show ?thesis using fail_ok [OF f ok_stable [OF ok4]] by simp
  next
    case ok
    obtain p where p: "w_stress ?w5 = (w_stress ?w4)\<lparr>os_verify_max_us := p\<rparr>" using profile_peaks(3) by blast
    have pg: "page = v" using ok(2) w3 old(3) v(1) by simp
    have rl: "write_release D ?w5 = (r, w')" using out eq ok by simp
    have "r \<and> writer_ok (w_stress w') (sp_reservation (w_spool w')) (bs @ page) \<and>
        os_page_offset (w_stress w') = os_page_offset (w_stress ?w5) + 256 \<and> os_page (w_stress w') = Some page"
      by (rule write_release_ok [OF _ _ _ _ rl]) (use p ok4 w3 ph e0 old in simp_all)
    moreover have "os_page_offset (w_stress ?w5) = os_page_offset (w_stress w)" using p w3 by simp
    moreover have "zy100_online_spool_read_reserved D ?tok addr (os_verify (w_stress w)) w2 = (IO_OK, Some page, w3)"
      using rd ok(1) v(1) pg w2 by simp
    ultimately show ?thesis using old(3) by (intro disjI2) auto
  qed
qed

section \<open>Committing a record\<close>

lemma crc_step_final:
  assumes "commit_crc_step D w = (r, w')"
  shows "w_stress w' = w_stress w \<and>
    res_crc32_final (sp_reservation (w_spool w')) = res_crc32_final (sp_reservation (w_spool w)) \<and>
    res_crc_final_valid (sp_reservation (w_spool w')) = res_crc_final_valid (sp_reservation (w_spool w))"
  using assms
  by (auto simp: commit_crc_step_def spool_read_page_def spool_error_def note_tx_spi_busy_def on_res_def
      Let_def reserve_refresh spool_latch_error_def on_stats_def
      dest!: io_read_frame timestamp_frame split: prod.splits if_splits)

lemma header_step_final:
  assumes "commit_header_step D w = (r, w')"
  shows "w_stress w' = w_stress w \<and>
    res_crc32_final (sp_reservation (w_spool w')) = res_crc32_final (sp_reservation (w_spool w)) \<and>
    res_crc_final_valid (sp_reservation (w_spool w')) = res_crc_final_valid (sp_reservation (w_spool w))"
proof -
  obtain ok pos s0 where g: "spool_skip_gap (sp_commit_pos (w_spool w)) False (w_spool w) = (ok, pos, s0)"
    by (rule prod_cases3)
  have s0: "sp_reservation s0 = sp_reservation (w_spool w)"
    using g by (auto simp: spool_skip_gap_def Let_def split: if_splits)
  show ?thesis
    using assms s0
    by (auto simp: commit_header_step_def g spool_error_def note_tx_spi_busy_def on_res_def spool_fill_header_def
        Let_def reserve_refresh spool_latch_error_def on_stats_def
        dest!: io_program_frame split: prod.splits if_splits)
qed

lemma verify_step_final:
  assumes "commit_verify_step D w = (r, w')"
  shows "w_stress w' = w_stress w \<and> (r \<noteq> PUMP_COMMITTED \<longrightarrow>
    res_crc32_final (sp_reservation (w_spool w')) = res_crc32_final (sp_reservation (w_spool w)) \<and>
    res_crc_final_valid (sp_reservation (w_spool w')) = res_crc_final_valid (sp_reservation (w_spool w)))"
proof -
  let ?a = "res_header_addr (sp_reservation (w_spool w))"
  obtain st w1 where rd: "spool_read_page D 1 ?a 256 w = (st, w1)" by fastforce
  have w1: "w_stress w1 = w_stress w" "sp_reservation (w_spool w1) = sp_reservation (w_spool w)"
    using read_page_frame [OF rd] queue_fields(11) [of "w_spool w1" "w_spool w"] by simp_all
  show ?thesis
    using assms w1 unfolding commit_verify_step_def rd Let_def prod.case
    by (auto simp: spool_error_def note_tx_spi_busy_def reserve_refresh spool_latch_error_def on_stats_def Let_def
        split: if_splits)
qed

lemma pump_branches:
  assumes "(if a then x1 else if b then x2 else if c then x3 else if d then x4 else if e then x5
    else if f then (if g then x6 else x7) else if h then x8 else if i then (if g then x9 else x10) else x11) = y"
  obtains "x1 = y" | "x2 = y" | "x3 = y" | "x4 = y" | "x5 = y" | "x6 = y" | "x7 = y" | "x8 = y" | "x9 = y"
    | "x10 = y" | "x11 = y"
  using assms by (simp split: if_splits)

lemma pump_final:
  assumes "zy100_online_spool_commit_pump_once D allow w = (r, w')"
  shows "w_stress w' = w_stress w \<and> (r \<noteq> PUMP_COMMITTED \<longrightarrow>
    res_crc32_final (sp_reservation (w_spool w')) = res_crc32_final (sp_reservation (w_spool w)) \<and>
    res_crc_final_valid (sp_reservation (w_spool w')) = res_crc_final_valid (sp_reservation (w_spool w)))"
proof -
  obtain ob w1 where ow: "bus_owner_none D w = (ob, w1)" by fastforce
  obtain st bu w2 where io: "spool_io_busy D w1 = (st, bu, w2)" by (rule prod_cases3)
  have w1: "w_stress w1 = w_stress w" "w_spool w1 = w_spool w" using owner_frame [OF ow] by simp_all
  have w2: "w_stress w2 = w_stress w" "w_spool w2 = w_spool w" using io_busy_frame [OF io] w1 by simp_all
  let ?w3 = "if res_commit_state (sp_reservation (w_spool w2)) = COMMIT_HEADER_WIP
    then on_spool (on_res (\<lambda>r. r\<lparr>res_commit_state := COMMIT_HEADER_VERIFY\<rparr>)) w2 else w2"
  have w3: "w_stress ?w3 = w_stress w"
    "res_crc32_final (sp_reservation (w_spool ?w3)) = res_crc32_final (sp_reservation (w_spool w))"
    "res_crc_final_valid (sp_reservation (w_spool ?w3)) = res_crc_final_valid (sp_reservation (w_spool w))"
    using w2 by (simp_all add: on_res_def)
  have keep: "w_stress v = w_stress w \<and> sp_reservation (w_spool v) = sp_reservation (w_spool w)"
    if "v \<in> {w, on_spool note_tx_spi_busy (note_bus_poll D w1), on_spool note_tx_spi_busy w2, w2,
      spool_error st_read_errors_update 1 (imu_status_code st) w2,
      spool_error st_state_errors_update 10 (commit_state_code (res_commit_state (sp_reservation (w_spool w2)))) w2}" for v
    using that w1 w2
    by (auto simp: spool_error_def note_tx_spi_busy_def reserve_refresh spool_latch_error_def on_stats_def Let_def)
  have final: ?thesis if "(p, v) = (r, w')" "w_stress v = w_stress w \<and>
      res_crc32_final (sp_reservation (w_spool v)) = res_crc32_final (sp_reservation (w_spool w)) \<and>
      res_crc_final_valid (sp_reservation (w_spool v)) = res_crc_final_valid (sp_reservation (w_spool w))" for p v
    using that by simp
  have simple: ?thesis if "(p, v) = (r, w')"
    "v \<in> {w, on_spool note_tx_spi_busy (note_bus_poll D w1), on_spool note_tx_spi_busy w2, w2,
      spool_error st_read_errors_update 1 (imu_status_code st) w2,
      spool_error st_state_errors_update 10 (commit_state_code (res_commit_state (sp_reservation (w_spool w2)))) w2}" for p v
    using that(1) by (rule final) (use keep [OF that(2)] in simp)
  show ?thesis
  proof (rule pump_branches [OF assms [unfolded zy100_online_spool_commit_pump_once_def Let_def ow io prod.case]],
      goal_cases)
    case 1 then show ?case by (rule simple) blast
  next
    case 2 then show ?case by (rule simple) blast
  next
    case 3 then show ?case by (rule simple) blast
  next
    case 4 then show ?case by (rule simple) blast
  next
    case 5 then show ?case by (rule simple) blast
  next
    case 6 then show ?case by (rule simple) blast
  next
    case 7 then show ?case using crc_step_final [of D w2 r w'] w2 by simp
  next
    case 8 then show ?case using header_step_final [of D w2 r w'] w2 by simp
  next
    case 9 then show ?case by (rule final) (use w3 in blast)
  next
    case 10 then show ?case using verify_step_final [of D ?w3 r w'] unfolding w3 by blast
  next
    case 11 then show ?case by (rule simple) blast
  qed
qed

lemma committed_ok:
  assumes w: "writer_ok s r bs" and ph: "os_phase s = 3" and e0: "src_error (os_source s) = 0"
  shows "writer_ok (s\<lparr>os_committed := os_committed s + os_record_data s, os_record_max_ms := m, os_phase := 0,
      os_target := t\<rparr>) r' bs'"
proof -
  let ?s = "s\<lparr>os_committed := os_committed s + os_record_data s, os_record_max_ms := m, os_phase := 0,
      os_target := t\<rparr>"
  have rec: "writer_record s bs" and c: "writer_commit s r bs" and st: "writer_stable s"
    using w ph e0 by (simp_all add: writer_ok_def)
  have off: "unat (os_page_offset s) = 256 * ((64 + unat (os_record_data s) + 255) div 256)"
    using rec c by (simp add: writer_record_def writer_commit_def)
  have "rec_written (unat (os_page_offset s)) (unat (os_record_data s)) = unat (os_record_data s)"
    unfolding off rec_written_def by linarith
  then have "unat (os_data_left s) = 0" using rec by (simp add: writer_record_def)
  then have left: "os_data_left s = 0" by (simp add: unat_eq_zero)
  have "stress_block s dvd unat (rec_base s) + unat (os_record_data s)"
  proof (rule dvd_add)
    show "stress_block s dvd unat (rec_base s)" using rec unfolding writer_record_def by blast
    have "unat (os_record_data s) = stress_block s \<or> unat (os_record_data s) = 2 * stress_block s"
      using rec unfolding writer_record_def by blast
    then show "stress_block s dvd unat (os_record_data s)" by auto
  qed
  then have al: "stress_block s dvd unat (src_consumed (os_source s))"
    using rec left by (simp add: writer_record_def)
  have "writer_stable ?s" using st ph left by (simp add: writer_stable_def)
  then show ?thesis using al e0 by (simp add: writer_ok_def stress_block_def)
qed

lemma pending_ok:
  assumes "writer_ok s r bs" "os_phase s = 3"
    "res_crc32_final r' = res_crc32_final r" "res_crc_final_valid r' = res_crc_final_valid r"
  shows "writer_ok s r' bs"
  using assms by (simp add: writer_ok_def writer_commit_def)

lemma write_commit_ok:
  assumes w: "writer_ok (w_stress w) (sp_reservation (w_spool w)) bs" and ph: "os_phase (w_stress w) = 3"
    and e0: "src_error (os_source (w_stress w)) = 0" and out: "write_commit D w = (r, w')"
  shows "writer_ok (w_stress w') (sp_reservation (w_spool w')) bs \<and>
    os_page_offset (w_stress w') = os_page_offset (w_stress w)"
proof -
  let ?w1 = "zy100_online_stress_diag_stage D ZY100_SD_COMMIT w"
  obtain c w2 where pu: "zy100_online_spool_commit_pump_once D True ?w1 = (c, w2)" by fastforce
  note fin = pump_final [OF pu]
  have s2: "w_stress w2 = w_stress w" using fin by simp
  consider (err) "c = PUMP_ERROR" | (committed) "c = PUMP_COMMITTED" | (wait) "c \<noteq> PUMP_ERROR" "c \<noteq> PUMP_COMMITTED"
    by blast
  then show ?thesis
  proof cases
    case err
    then have f: "stress_fail D ZY100_STRESS_COMMIT w2 = (r, w')"
      using out by (simp add: write_commit_def Let_def pu)
    have "writer_stable (w_stress w2)" using ok_stable [OF w] s2 by simp
    from fail_ok [OF f this] show ?thesis
      using stress_fail_frame [OF f] s2 by (simp add: latch_failure_def Let_def)
  next
    case wait
    then have w': "w' = on_stress (inc os_flash_wait_update) w2"
      using out by (simp add: write_commit_def Let_def pu)
    have "writer_ok (w_stress w2) (sp_reservation (w_spool w2)) bs"
      unfolding s2 by (rule pending_ok [OF w ph]) (use fin wait in simp_all)
    then show ?thesis using w' s2 by simp
  next
    case committed
    obtain t1 w3 where t1: "os_time_ms D w2 = (t1, w3)" by fastforce
    let ?w4 = "on_stress (\<lambda>s. s\<lparr>os_committed := os_committed s + os_record_data s\<rparr>)
                      (on_diag (zy100_stress_diag_record_end t1) w3)"
    obtain t2 w5 where t2: "os_time_ms D ?w4 = (t2, w5)" by fastforce
    have s5: "w_stress w5 = (w_stress w)\<lparr>os_committed := os_committed (w_stress w) + os_record_data (w_stress w)\<rparr>"
      using os_time_frame [OF t2] os_time_frame [OF t1] s2 by simp
    have "w' = on_stress (\<lambda>s. s\<lparr>os_record_max_ms := maximum (os_record_max_ms s) (t2 - os_record_start_ms s),
                 os_phase := 0, os_target := (os_target s)\<lparr>tgt_token := 0\<rparr>\<rparr>) w5"
      using out committed by (simp add: write_commit_def Let_def pu t1 t2)
    then show ?thesis
      using s5 committed_ok [OF w ph e0] by simp
  qed
qed

section \<open>The write step\<close>

text \<open>The verified pages of the current record behind a step: a new record starts without pages,
  a step that moves the page offset has verified the page in the buffer.\<close>

definition pages_after :: "'d world \<Rightarrow> 'd world \<Rightarrow> u8 list \<Rightarrow> u8 list" where
  "pages_after w w' bs =
     (if os_phase (w_stress w) = 0 then []
      else if os_page_offset (w_stress w') \<noteq> os_page_offset (w_stress w)
      then bs @ the (os_page (w_stress w')) else bs)"

lemma write_step_ok:
  assumes w: "writer_ok (w_stress w) (sp_reservation (w_spool w)) bs"
    and out: "zy100_online_stress_write_step D w = (r, w')"
  shows "writer_ok (w_stress w') (sp_reservation (w_spool w')) (pages_after w w' bs)"
proof -
  let ?w = "on_stress (os_io_waiting_update (\<lambda>_. False)) w"
  let ?s = "w_stress w"
  have ok: "writer_ok (w_stress ?w) (sp_reservation (w_spool ?w)) bs" using w by simp
  have f: "os_phase (w_stress ?w) = os_phase ?s" "os_source (w_stress ?w) = os_source ?s"
    "os_page_offset (w_stress ?w) = os_page_offset ?s" "os_page (w_stress ?w) = os_page ?s" by simp_all
  show ?thesis
  proof (cases "src_error (os_source ?s) = 0")
    case False
    then have "w' = ?w" using out by (simp add: zy100_online_stress_write_step_def Let_def)
    then show ?thesis using ok False by (simp add: writer_ok_def)
  next
    case e0: True
    have "os_phase ?s \<in> {0, 1, 2, 3}" using w e0 by (auto simp: writer_ok_def)
    then consider (start) "os_phase ?s = 0" | (program) "os_phase ?s = 1" | (verify) "os_phase ?s = 2"
      | (commit) "os_phase ?s = 3" by blast
    then show ?thesis
    proof cases
      case start
      obtain r1 w1 where st: "write_start D ?w = (r1, w1)" by fastforce
      note so = write_start_ok [OF ok _ _ st, unfolded f, OF start e0]
      show ?thesis
      proof (cases r1)
        case None
        then have pr: "write_program D (write_page_addr (w_stress w1)) w1 = (r, w')"
          using out start e0 st by (simp add: zy100_online_stress_write_step_def Let_def)
        show ?thesis using write_program_ok [OF _ _ _ pr] so None start by (simp add: pages_after_def)
      next
        case (Some b)
        then have "w' = w1" using out start e0 st by (simp add: zy100_online_stress_write_step_def Let_def)
        then show ?thesis using so start by (simp add: pages_after_def)
      qed
    next
      case program
      then have pr: "write_program D (write_page_addr (w_stress ?w)) ?w = (r, w')"
        using out e0 by (simp add: zy100_online_stress_write_step_def Let_def)
      show ?thesis
        using write_program_ok [OF ok _ _ pr, unfolded f, OF program e0] program
        by (simp add: pages_after_def)
    next
      case verify
      then have ve: "write_verify D (write_page_addr (w_stress ?w)) ?w = (r, w')"
        using out e0 by (simp add: zy100_online_stress_write_step_def Let_def)
      show ?thesis
        using write_verify_ok [OF ok _ _ ve, unfolded f, OF verify e0] verify
        by (auto simp: pages_after_def)
    next
      case commit
      then have co: "write_commit D ?w = (r, w')"
        using out e0 by (simp add: zy100_online_stress_write_step_def Let_def)
      show ?thesis
        using write_commit_ok [OF ok _ _ co, unfolded f, OF commit e0] commit by (simp add: pages_after_def)
    qed
  qed
qed

end
