(* ===== verification/SpoolFacts.thy ===== *)
theory SpoolFacts
  imports SpoolRun
begin

text \<open>
  More of what the spool promises, operation by operation: the first record of a session, the
  header that is written and read back, the retry hint, the write window of a reservation, the
  sector bitmaps and the erase completion; and concrete runs for the theorems about all runs.
\<close>

unbundle bit_operations_syntax

section \<open>The first record of a session\<close>

lemma align_page_aligned:
  assumes "256 dvd unat rb" "unat rb + 256 \<le> 0x100000"
  shows "spool_align_page rb = rb"
proof -
  let ?x = "rb + 256 - 1"
  have x: "?x = rb + 255" by simp
  have ux: "unat (rb + 255) = unat rb + 255" using assms(2) by (subst unat_add_32) simp_all
  have "unat ((rb + 255) mod 256) = 255"
    using assms(1) by (auto simp: unat_mod ux elim!: dvdE)
  then have m: "take_bit 8 (rb + 255) = 255" by (simp add: take_bit_eq_mod word_unat_eq_iff)
  have n: "y AND NOT (mask 8) = push_bit 8 (drop_bit 8 y)" for y :: u32
    by (rule bit_eqI) (auto simp: bit_simps)
  have "push_bit 8 (drop_bit 8 (rb + 255)) + take_bit 8 (rb + 255) = rb + 255" by (rule bits_ident)
  then have "push_bit 8 (drop_bit 8 (rb + 255)) = rb" using m by simp
  moreover have "(256 :: u32) - 1 = mask 8" by (simp add: mask_eq_exp_minus_1)
  ultimately show ?thesis unfolding spool_align_page_def x by (simp only: n)
qed

lemma fresh_plan:
  assumes s: "sp_session_active s" "\<not> res_active (sp_reservation s)" "sp_reserve_pos s = 0"
      "sp_ack_pos s = 0"
    and rb: "rb \<noteq> 0" "256 dvd unat rb" "unat rb + 256 \<le> 0x100000"
    and erased: "\<And>k. k * 4096 < unat rb + 256 \<Longrightarrow> spool_bitmap_get (sp_erased_bitmap s) (of_nat k)"
  shows "spool_build_reserve_plan rb s = (True, Some \<lparr>plan_start_pos = 0, plan_gap_bytes = 0,
     plan_header_addr = 0x2F8000, plan_total_bytes = 256 + rb, plan_generation = 0\<rparr>, BLOCK_NONE)"
proof -
  have t: "unat (256 + rb) = 256 + unat rb" using rb(3) by (simp add: unat_add_32)
  have al: "spool_align_page rb = rb"
    by (rule align_page_aligned [OF rb(2,3)])
  have u: "spool_used_bytes s = Some 0" using s by (simp add: spool_used_bytes_def)
  have le: "\<not> 0x100000 < 256 + rb" using t rb(3) by (simp add: word_less_nat_alt)
  have wrap: "\<not> 0xFFFFFFFF < 256 + rb" using t rb(3) by (simp add: word_less_nat_alt)
  have e: "unat (0x2F8000 + (256 + rb) - 1) = 0x2F8000 + 255 + unat rb"
  proof -
    have "unat (0x2F8000 + (256 + rb)) = 0x2F8000 + (256 + unat rb)"
      using t rb(3) by (subst unat_add_32) simp_all
    then show ?thesis by (subst unat_diff_le) (simp_all add: word_le_nat_alt)
  qed
  let ?last = "0x2F8000 + (256 + rb) - 1"
  have in_region: "\<not> (?last < 0x2F8000 \<or> ?last \<ge> 0x3F8000)"
    unfolding word_less_nat_alt word_le_nat_alt e using rb(3) by simp
  have ul: "unat ((?last - 0x2F8000) div 4096) = (255 + unat rb) div 4096"
  proof -
    have "unat (255 + rb) = 255 + unat rb" using rb(3) by (subst unat_add_32) simp_all
    then show ?thesis by (simp add: unat_div)
  qed
  have lst: "spool_sector_index ?last = (?last - 0x2F8000) div 4096"
    unfolding spool_sector_index_def using in_region by (simp only: if_False)
  have inv_last: "spool_sector_index ?last \<noteq> 0xFFFFFFFF"
  proof
    assume "spool_sector_index ?last = 0xFFFFFFFF"
    then have "(255 + unat rb) div 4096 = 4294967295" using ul lst by simp
    then show False using rb(3) by simp
  qed
  have first: "spool_sector_index 0x2F8000 = 0" by (simp add: spool_sector_index_def)
  have sr: "sector_range 0 (spool_sector_index ?last) = map of_nat [0 ..< (255 + unat rb) div 4096 + 1]"
    by (simp only: sector_range_def lst ul unat_0)
  have "spool_bitmap_get (sp_erased_bitmap s) k" if kin: "k \<in> set (sector_range 0 (spool_sector_index ?last))" for k
  proof -
    obtain j where j: "k = of_nat j" "j < (255 + unat rb) div 4096 + 1"
      using kin unfolding sr by auto
    have "j * 4096 < unat rb + 256" using j(2) by linarith
    then show ?thesis using erased j(1) by blast
  qed
  then have ready: "spool_reservation_sectors_ready 0x2F8000 (256 + rb) s"
    using inv_last first by (simp add: spool_reservation_sectors_ready_def Let_def list_all_iff)
  show ?thesis
    using s rb(1) al u le wrap ready generation_always_valid
    by (simp add: spool_build_reserve_plan_def Let_def spool_pos_offset_def spool_pos_addr_def
        spool_pos_generation_def)
qed

lemma refresh_more [simp]:
  "sp_session_active (spool_refresh_stats s) = sp_session_active s"
  "sp_capture_segment_id (spool_refresh_stats s) = sp_capture_segment_id s"
  "sp_next_record_id (spool_refresh_stats s) = sp_next_record_id s"
  "sp_next_token (spool_refresh_stats s) = sp_next_token s"
  "sp_erased_bitmap (spool_refresh_stats s) = sp_erased_bitmap s"
  "sp_erase_wip (spool_refresh_stats s) = sp_erase_wip s"
  by (simp_all add: spool_refresh_stats_def Let_def)

lemma fresh_reserve:
  assumes "sp_session_active s" "\<not> res_active (sp_reservation s)" "sp_reserve_pos s = 0" "sp_ack_pos s = 0"
    and "sp_capture_segment_id s \<noteq> 0" "sp_next_record_id s + 1 \<noteq> 0" "sp_next_token s + 1 \<noteq> 0"
    and "0 < unat kind" "unat kind < 5" "rb \<noteq> 0" "256 dvd unat rb" "unat rb + 256 \<le> 0x100000"
    and "\<And>k. k * 4096 < unat rb + 256 \<Longrightarrow> spool_bitmap_get (sp_erased_bitmap s) (of_nat k)"
  shows "\<exists>s'. spool_provider_reserve kind sid rb pb (Some tgt) s =
      (RESERVE_OK, Some \<lparr>tgt_data_addr = 0x2F8100, tgt_capacity_bytes = rb,
         tgt_online_record_id = sp_next_record_id s + 1, tgt_token = sp_next_token s + 1\<rparr>, s') \<and>
    sp_reserve_pos s' = 256 + rb \<and> res_active (sp_reservation s') \<and>
    sp_commit_pos s' = sp_commit_pos s \<and> sp_wrap_gap_bytes s' = sp_wrap_gap_bytes s \<and>
    sp_erase_wip s' = sp_erase_wip s"
proof -
  let ?a = "reserve_attempt kind s"
  have f: "sp_session_active ?a = sp_session_active s" "sp_reservation ?a = sp_reservation s"
    "sp_reserve_pos ?a = sp_reserve_pos s" "sp_ack_pos ?a = sp_ack_pos s"
    "sp_capture_segment_id ?a = sp_capture_segment_id s" "sp_next_record_id ?a = sp_next_record_id s"
    "sp_next_token ?a = sp_next_token s" "sp_erased_bitmap ?a = sp_erased_bitmap s"
    "sp_commit_pos ?a = sp_commit_pos s" "sp_wrap_gap_bytes ?a = sp_wrap_gap_bytes s"
    "sp_erase_wip ?a = sp_erase_wip s"
    by (simp_all add: reserve_attempt_def Let_def on_stats_def)
  have plan: "spool_build_reserve_plan rb ?a = (True, Some \<lparr>plan_start_pos = 0, plan_gap_bytes = 0,
     plan_header_addr = 0x2F8000, plan_total_bytes = 256 + rb, plan_generation = 0\<rparr>, BLOCK_NONE)"
    using assms f by (intro fresh_plan) simp_all
  have k: "\<not> 5 \<le> kind" "kind \<noteq> 0" using assms(8,9) by (auto simp: word_le_nat_alt)
  have m: "rb mod 256 = 0" using assms(11) by (rule word_eq_mod0)
  show ?thesis
    using assms f plan k m
    by (simp add: spool_provider_reserve_def reserve_checked_def Let_def reserve_commit_plan_def
        mark_used_eq) (simp add: on_stats_def)
qed

text \<open>C25: A new session accepts its first record: when enough sectors at the start of the region
  are erased and a capture segment is noted, the reservation of a page-aligned record succeeds,
  at the start of the region, and hands out the address behind the header.\<close>

theorem first_reserve_succeeds:
  assumes "sp_session_active s" "\<not> res_active (sp_reservation s)" "sp_reserve_pos s = 0" "sp_ack_pos s = 0"
    and "sp_capture_segment_id s \<noteq> 0" "sp_next_record_id s + 1 \<noteq> 0" "sp_next_token s + 1 \<noteq> 0"
    and "0 < unat kind" "unat kind < 5" "rb \<noteq> 0" "256 dvd unat rb" "unat rb + 256 \<le> 0x100000"
    and "\<And>k. k * 4096 < unat rb + 256 \<Longrightarrow> spool_bitmap_get (sp_erased_bitmap s) (of_nat k)"
  shows "\<exists>s'. spool_provider_reserve kind sid rb pb (Some tgt) s =
      (RESERVE_OK, Some \<lparr>tgt_data_addr = 0x2F8100, tgt_capacity_bytes = rb,
         tgt_online_record_id = sp_next_record_id s + 1, tgt_token = sp_next_token s + 1\<rparr>, s') \<and>
    sp_reserve_pos s' = 256 + rb \<and> res_active (sp_reservation s')"
  using fresh_reserve [OF assms] by blast

text \<open>A session on a flash whose first sector is erased.\<close>

definition fresh_spool :: spool_state where
  "fresh_spool = zy100_online_spool_begin 7 (spool_zero\<lparr>sp_erased_bitmap := [1, 0, 0, 0, 0, 0, 0, 0]\<rparr>)"

definition fresh_world :: "unit world" where
  "fresh_world = \<lparr>w_spool = fresh_spool, w_diag = sd_zero, w_stress = online_stress_zero, w_dev = ()\<rparr>"

definition fresh_segment :: spool_state where
  "fresh_segment = zy100_online_spool_note_capture_segment 1 0 fresh_spool"

lemma fresh_fields:
  "sp_session_active fresh_segment" "res_active (sp_reservation fresh_segment) = False"
  "sp_reserve_pos fresh_segment = 0" "sp_ack_pos fresh_segment = 0"
  "sp_capture_segment_id fresh_segment = 1" "sp_next_record_id fresh_segment = 0"
  "sp_next_token fresh_segment = 0" "sp_erased_bitmap fresh_segment = [1, 0, 0, 0, 0, 0, 0, 0]"
  by (simp_all add: fresh_segment_def fresh_spool_def zy100_online_spool_note_capture_segment_def
      zy100_online_spool_begin_def) (simp_all add: demo_defs)

lemma fresh_erased:
  "k * 4096 < unat (0x200 :: u32) + 256 \<Longrightarrow> spool_bitmap_get (sp_erased_bitmap fresh_segment) (of_nat k)"
  by (cases k) (auto simp: fresh_fields bitmap_get_bit)

theorem first_reserve_succeeds_witness:
  "\<exists>s'. spool_provider_reserve 4 9 0x200 200 (Some target_zero) fresh_segment =
     (RESERVE_OK, Some \<lparr>tgt_data_addr = 0x2F8100, tgt_capacity_bytes = 0x200,
        tgt_online_record_id = 1, tgt_token = 1\<rparr>, s') \<and> sp_reserve_pos s' = 0x300"
  using first_reserve_succeeds [of fresh_segment 4 "0x200" 9 200 target_zero] fresh_fields fresh_erased
  by auto

lemma fresh_run:
  "\<exists>w. (spool_step D)\<^sup>*\<^sup>* (fresh_world, []) (w, []) \<and> sp_reserve_pos (w_spool w) = 0x300 \<and>
     sp_commit_pos (w_spool w) = 0 \<and> res_active (sp_reservation (w_spool w)) \<and>
     sp_wrap_gap_bytes (w_spool w) = 0 \<and> \<not> sp_erase_wip (w_spool w)"
proof -
  let ?w1 = "on_spool (zy100_online_spool_note_capture_segment 1 0) fresh_world"
  have s1: "w_spool ?w1 = fresh_segment" by (simp add: fresh_world_def fresh_segment_def)
  obtain t s' where r: "spool_provider_reserve 4 9 0x200 200 (Some target_zero) fresh_segment = (RESERVE_OK, t, s')"
    "sp_reserve_pos s' = 0x300" "res_active (sp_reservation s')"
      "sp_commit_pos s' = sp_commit_pos fresh_segment" "sp_wrap_gap_bytes s' = sp_wrap_gap_bytes fresh_segment"
      "sp_erase_wip s' = sp_erase_wip fresh_segment"
    using fresh_reserve [of fresh_segment 4 "0x200" 9 200 target_zero] fresh_fields fresh_erased by auto
  have z: "sp_wrap_gap_bytes fresh_segment = 0" "\<not> sp_erase_wip fresh_segment" "sp_commit_pos fresh_segment = 0"
    by (simp_all add: fresh_segment_def fresh_spool_def zy100_online_spool_note_capture_segment_def
      zy100_online_spool_begin_def) (simp_all add: demo_defs)
  have "spool_step D (fresh_world, []) (?w1, [])" by (rule spool_step.segment)
  moreover have "spool_step D (?w1, []) (on_spool (\<lambda>_. s') ?w1, [])"
  proof (rule spool_step.reserve)
    show "spool_provider_reserve 4 9 0x200 200 (Some target_zero) (w_spool ?w1) = (RESERVE_OK, t, s')"
      using r(1) s1 by simp
    show "unat (0x200 :: u32) < 0xFFFFFF00" by simp
  qed
  ultimately have "(spool_step D)\<^sup>*\<^sup>* (fresh_world, []) (on_spool (\<lambda>_. s') ?w1, [])"
    by (meson rtranclp.rtrancl_into_rtrancl rtranclp.rtrancl_refl)
  moreover have "sp_wrap_gap_bytes s' = 0 \<and> \<not> sp_erase_wip s' \<and> sp_commit_pos s' = 0"
    using r z by simp
  ultimately show ?thesis using r by (intro exI conjI) auto
qed

lemma fresh_start: "spool_start (fresh_world, [])"
  by (auto simp: spool_start_def fresh_world_def fresh_spool_def)



section \<open>Headers\<close>

text \<open>C6: The header page the pump writes for a reservation is accepted by the check of the sender
  at the same address and generation, and yields the reservation's type, ids, sizes, times and
  checksum.\<close>

theorem header_round_trip:
  assumes "length (sp_page s) = 256" "res_type (sp_reservation s) \<noteq> 0"
    "unat (res_type (sp_reservation s)) < 5" "res_capture_segment_id (sp_reservation s) \<noteq> 0"
    "res_source_record_bytes (sp_reservation s) \<noteq> 0"
    "unat (res_source_record_bytes (sp_reservation s)) mod 256 = 0"
    "unat (res_header_addr (sp_reservation s)) + 256 +
       unat (res_source_record_bytes (sp_reservation s)) \<le> 0x3F8000"
    "sp_session_id t = sp_session_id s"
  shows "spool_validate_header (sp_page (spool_fill_header s)) (res_header_addr (sp_reservation s))
           (spool_pos_generation (sp_commit_pos s)) t = Some (header_record s)"
  by (rule validate_filled [OF assms])

theorem header_round_trip_witness:
  "spool_validate_header (sp_page (spool_fill_header (fresh_segment
      \<lparr>sp_page := replicate 256 0, sp_reservation := reservation_zero\<lparr>res_type := 4, res_capture_segment_id := 1,
        res_header_addr := 0x2F8000, res_source_record_bytes := 0x200\<rparr>\<rparr>))) 0x2F8000
     (spool_pos_generation 0) fresh_segment \<noteq> None"
proof -
  let ?s = "fresh_segment\<lparr>sp_page := replicate 256 0, sp_reservation := reservation_zero\<lparr>res_type := 4,
        res_capture_segment_id := 1, res_header_addr := 0x2F8000, res_source_record_bytes := 0x200\<rparr>\<rparr>"
  have "sp_commit_pos ?s = 0"
    by (simp add: fresh_segment_def fresh_spool_def zy100_online_spool_note_capture_segment_def
      zy100_online_spool_begin_def) (simp add: demo_defs)
  then show ?thesis using header_round_trip [of ?s fresh_segment] by simp
qed

lemma crc_step_uncommitted: "commit_crc_step D w = (r, w') \<Longrightarrow> r \<noteq> PUMP_COMMITTED"
  by (auto simp: commit_crc_step_def Let_def split: prod.splits if_splits)

lemma header_step_uncommitted: "commit_header_step D w = (r, w') \<Longrightarrow> r \<noteq> PUMP_COMMITTED"
  by (auto simp: commit_header_step_def Let_def split: prod.splits if_splits)

lemma pump_committed:
  assumes "zy100_online_spool_commit_pump_once D allow w = (PUMP_COMMITTED, w')"
  shows "allow \<and> res_active (sp_reservation (w_spool w)) \<and> res_data_done (sp_reservation (w_spool w)) \<and>
    res_commit_state (sp_reservation (w_spool w)) \<in> {COMMIT_HEADER_WIP, COMMIT_HEADER_VERIFY} \<and>
    (\<exists>w3 f. commit_verify_step D w3 = (PUMP_COMMITTED, w') \<and>
       w_spool w3 = (w_spool w)\<lparr>sp_reservation := (sp_reservation (w_spool w))\<lparr>res_commit_state := f\<rparr>\<rparr>)"
proof -
  obtain ob w1 where ow: "bus_owner_none D w = (ob, w1)" by fastforce
  obtain st bu w2 where io: "spool_io_busy D w1 = (st, bu, w2)" by (rule prod_cases3)
  have s2: "w_spool w2 = w_spool w" using owner_frame [OF ow] io_busy_frame [OF io] by simp
  let ?r = "sp_reservation (w_spool w)"
  let ?v = "on_spool (on_res (\<lambda>r. r\<lparr>res_commit_state := COMMIT_HEADER_VERIFY\<rparr>)) w2"
  have c: "commit_crc_step D w2 \<noteq> (PUMP_COMMITTED, w')" "commit_header_step D w2 \<noteq> (PUMP_COMMITTED, w')"
    using crc_step_uncommitted header_step_uncommitted by blast+
  have run: "allow \<and> res_active ?r \<and> res_data_done ?r \<and>
      (res_commit_state ?r = COMMIT_HEADER_WIP \<and> commit_verify_step D ?v = (PUMP_COMMITTED, w') \<or>
       res_commit_state ?r = COMMIT_HEADER_VERIFY \<and> commit_verify_step D w2 = (PUMP_COMMITTED, w'))"
    using assms c unfolding zy100_online_spool_commit_pump_once_def Let_def ow io prod.case s2
    by (simp split: if_splits)
  have v: "w_spool ?v = (w_spool w)\<lparr>sp_reservation := ?r\<lparr>res_commit_state := COMMIT_HEADER_VERIFY\<rparr>\<rparr>"
    by (simp add: on_res_def s2)
  have w2: "w_spool w2 = (w_spool w)\<lparr>sp_reservation := ?r\<lparr>res_commit_state := res_commit_state ?r\<rparr>\<rparr>"
    by (simp add: s2)
  show ?thesis using run v w2 by blast
qed

lemma validate_session:
  "sp_session_id s = sp_session_id t \<Longrightarrow>
   spool_validate_header page addr gen s = spool_validate_header page addr gen t"
  by (simp add: spool_validate_header_def Let_def)

text \<open>C5: A record is reported as committed only after its header page was read back from the flash
  without an error, passed every check at the address of the reservation and in the generation of
  the commit position, and carries the id of the reservation.\<close>

theorem committed_only_verified:
  assumes "zy100_online_spool_commit_pump_once D allow w = (PUMP_COMMITTED, w')"
  shows "allow \<and> res_active (sp_reservation (w_spool w)) \<and> res_data_done (sp_reservation (w_spool w)) \<and>
    res_commit_state (sp_reservation (w_spool w)) \<in> {COMMIT_HEADER_WIP, COMMIT_HEADER_VERIFY} \<and>
    (\<exists>d d' bytes rec. gd25q32e_read_fast D (res_header_addr (sp_reservation (w_spool w)))
        (take 256 (sp_page (w_spool w))) d = (IMU_STATUS_OK, bytes, d') \<and>
      spool_validate_header (put_at 0 (fit (length (take 256 (sp_page (w_spool w)))) bytes) (sp_page (w_spool w)))
        (res_header_addr (sp_reservation (w_spool w))) (spool_pos_generation (sp_commit_pos (w_spool w)))
        (w_spool w) = Some rec \<and>
      rec_record_id rec = res_record_id (sp_reservation (w_spool w)))"
proof -
  let ?s = "w_spool w"
  note p = pump_committed [OF assms]
  obtain w3 f where v: "commit_verify_step D w3 = (PUMP_COMMITTED, w')"
    "w_spool w3 = ?s\<lparr>sp_reservation := (sp_reservation ?s)\<lparr>res_commit_state := f\<rparr>\<rparr>" using p by blast
  let ?addr = "res_header_addr (sp_reservation ?s)"
  obtain va ta wa where ta: "timebase_snapshot D w3 = (va, ta, wa)" by (rule prod_cases3)
  obtain st bytes d' where rd: "gd25q32e_read_fast D ?addr (take 256 (sp_page ?s)) (w_dev wa) = (st, bytes, d')"
    by (rule prod_cases3)
  have wa: "w_spool wa = w_spool w3" using snapshot_frame [OF ta] by simp
  obtain st' w4 where rp: "spool_read_page D 1 ?addr 256 w3 = (st', w4)" by fastforce
  have w4: "st' = st \<and> (st = IMU_STATUS_OK \<longrightarrow> w_spool w4 = (w_spool w3)
      \<lparr>sp_page_retry_pending := False, sp_page := put_at 0 (fit (length (take 256 (sp_page ?s))) bytes) (sp_page ?s)\<rparr>)"
    using rp v(2) wa
    by (auto simp: spool_read_page_def spool_io_read_def Let_def ta rd dest!: snapshot_frame
        split: prod.splits if_splits)
  have ok: "st = IMU_STATUS_OK"
    using v(1) rp w4 v(2) by (auto simp: commit_verify_step_def Let_def split: if_splits)
  then have "\<exists>rec. spool_validate_header (sp_page (w_spool w4)) ?addr (spool_pos_generation (sp_commit_pos ?s))
      (w_spool w4) = Some rec \<and> rec_record_id rec = res_record_id (sp_reservation ?s)"
    using v(1) rp w4 v(2) by (auto simp: commit_verify_step_def Let_def split: if_splits)
  moreover have "spool_validate_header page a g (w_spool w4) = spool_validate_header page a g ?s" for page a g
    by (rule validate_session) (use w4 ok v(2) in simp)
  ultimately show ?thesis using p rd ok w4 by auto
qed

theorem committed_only_verified_witness:
  "\<exists>bytes rec. gd25q32e_read_fast (demo_flash demo_header) 0x2F8200
     (take 256 (sp_page (w_spool demo_committing))) () = (IMU_STATUS_OK, bytes, ()) \<and>
     spool_validate_header (put_at 0 (fit (length (take 256 (sp_page (w_spool demo_committing)))) bytes)
       (sp_page (w_spool demo_committing))) 0x2F8200 0 (w_spool demo_committing) = Some rec \<and>
     rec_record_id rec = 2"
proof -
  obtain w' where p: "zy100_online_spool_commit_pump_once (demo_flash demo_header) True demo_committing =
      (PUMP_COMMITTED, w')" using demo_commit by blast
  have "res_header_addr (sp_reservation (w_spool demo_committing)) = 0x2F8200"
    "res_record_id (sp_reservation (w_spool demo_committing)) = 2"
    "spool_pos_generation (sp_commit_pos (w_spool demo_committing)) = 0"
    by (simp_all add: demo_committing_def spool_pos_generation_def)
  then show ?thesis using committed_only_verified [OF p] by simp
qed

section \<open>The write window and the retry hint\<close>

text \<open>C27: A page write outside the data of the active reservation, with a foreign token, without a
  page, unaligned or after the data is complete is refused with an error, and the device is not
  touched at all.\<close>

theorem write_outside_window_refused:
  assumes "page = None \<or> res_data_done (sp_reservation (w_spool w)) \<or> addr mod 256 \<noteq> 0 \<or>
    \<not> res_active (sp_reservation (w_spool w)) \<or> res_token (sp_reservation (w_spool w)) \<noteq> token \<or>
    addr < res_data_addr (sp_reservation (w_spool w)) \<or>
    res_data_addr (sp_reservation (w_spool w)) + res_source_record_bytes (sp_reservation (w_spool w)) \<le> addr"
  shows "\<exists>w'. zy100_online_spool_write_reserved_page D token addr page w = (IO_ERROR, w') \<and>
    w_dev w' = w_dev w \<and> w_diag w' = w_diag w \<and> queue_core (w_spool w') = queue_core (w_spool w) \<and>
    st_state_errors (sp_stats (w_spool w')) = st_state_errors (sp_stats (w_spool w)) + 1"
  using assms
  by (auto simp: zy100_online_spool_write_reserved_page_def spool_error_def spool_reservation_range_valid_def
      Let_def split: option.splits) (simp_all add: spool_latch_error_def on_stats_def Let_def)

theorem write_outside_window_refused_witness:
  "\<exists>w'. zy100_online_spool_write_reserved_page (demo_flash demo_header) 0 0x2F8100 (Some (replicate 256 0))
     demo_committing = (IO_ERROR, w') \<and> st_state_errors (sp_stats (w_spool w')) = 1"
proof -
  have "res_data_done (sp_reservation (w_spool demo_committing))"
    "st_state_errors (sp_stats (w_spool demo_committing)) = 0"
    by (simp_all add: demo_committing_def stats_zero_def)
  then show ?thesis
    using write_outside_window_refused [of "Some (replicate 256 0)" demo_committing "0x2F8100" 0
        "demo_flash demo_header"] by auto
qed

lemma peek_keeps_hint:
  assumes "zy100_online_spool_peek_tx D w = (io, found, w')"
  shows "sp_page_retry_pending (w_spool w') = sp_page_retry_pending (w_spool w)"
proof -
  obtain ok pos s0 where sk: "spool_skip_gap_bounded (sp_send_pos (w_spool w)) (sp_commit_pos (w_spool w)) False
      (w_spool w) = (ok, pos, s0)" by (rule prod_cases3)
  have s0: "s0 = w_spool w"
    using sk by (auto simp: spool_skip_gap_bounded_def Let_def split: if_splits)
  let ?w1 = "on_spool (\<lambda>_. s0\<lparr>sp_send_pos := pos\<rparr>) w"
  obtain rd w2 where tx: "spool_tx_read_ready D ?w1 = (rd, w2)" by fastforce
  obtain st w3 where rp: "spool_read_page D 2 (spool_pos_addr pos) 256 w2 = (st, w3)" by fastforce
  have r: "sp_page_retry_pending (w_spool w2) = sp_page_retry_pending (w_spool w)"
    using tx_ready_frame [OF tx] s0 by simp
  have r3: "sp_page_retry_pending (w_spool w3) = sp_page_retry_pending (w_spool w)"
    using rp r by (auto simp: spool_read_page_def Let_def dest!: io_read_frame split: prod.splits)
  show ?thesis
    using assms r r3 s0 unfolding zy100_online_spool_peek_tx_def Let_def sk prod.case tx rp
    by (auto simp: spool_error_def note_tx_spi_busy_def split: if_splits option.splits)
qed

lemma read_keeps_hint:
  assumes "zy100_online_spool_read D addr buf len w = (io, buf', w')"
  shows "sp_page_retry_pending (w_spool w') = sp_page_retry_pending (w_spool w)"
proof (cases buf)
  case None then show ?thesis using assms by (auto simp: zy100_online_spool_read_def)
next
  case (Some old)
  obtain ready w1 where tx: "spool_tx_read_ready D w = (ready, w1)" by fastforce
  obtain st2 bs w2 where rd: "spool_io_read D 2 addr (take (unat len) old) w1 = (st2, bs, w2)"
    by (rule prod_cases3)
  show ?thesis
    using assms Some io_read_frame [OF rd] tx_ready_frame [OF tx]
    by (auto simp: zy100_online_spool_read_def tx rd Let_def spool_error_def note_tx_spi_busy_def split: if_splits)
qed

lemma write_sets_hint:
  assumes "zy100_online_spool_write_reserved_page D token addr page w = (io, w')"
  shows "sp_page_retry_pending (w_spool w') \<longleftrightarrow> io = IO_OK \<or> sp_page_retry_pending (w_spool w)"
proof (cases page)
  case None then show ?thesis
    using assms by (auto simp: zy100_online_spool_write_reserved_page_def spool_error_def)
next
  case (Some bytes)
  obtain st b w1 where io: "spool_io_busy D w = (st, b, w1)" by (rule prod_cases3)
  obtain st2 w2 where pr: "spool_io_program D addr bytes w1 = (st2, w2)" by fastforce
  show ?thesis
    using assms Some io_busy_frame [OF io] io_program_frame [OF pr]
    by (auto simp: zy100_online_spool_write_reserved_page_def io pr Let_def spool_error_def split: if_splits)
qed

lemma read_back_clears_hint:
  assumes "zy100_online_spool_read_reserved D token addr buf w = (io, buf', w')"
  shows "sp_page_retry_pending (w_spool w') \<longleftrightarrow> io \<noteq> IO_OK \<and> sp_page_retry_pending (w_spool w)"
proof (cases buf)
  case None then show ?thesis
    using assms by (auto simp: zy100_online_spool_read_reserved_def spool_error_def)
next
  case (Some old)
  obtain st b w1 where io: "spool_io_busy D w = (st, b, w1)" by (rule prod_cases3)
  obtain st2 bs w2 where rd: "spool_io_read D 1 addr old w1 = (st2, bs, w2)" by (rule prod_cases3)
  show ?thesis
    using assms Some io_busy_frame [OF io] io_read_frame [OF rd]
    by (auto simp: zy100_online_spool_read_reserved_def io rd Let_def spool_error_def split: if_splits)
qed


section \<open>Live sectors and erased sectors\<close>

text \<open>C26: The loop that decides whether a sector holds live bytes agrees with its meaning: a sector
  is live exactly when some position from \<open>ack_pos\<close> up to \<open>reserve_pos\<close> lies in it, also when the
  live range wraps around the end of the region.\<close>

theorem live_loop_decides:
  assumes "unat sector < 256" "spool_used_bytes s \<noteq> None"
  shows "spool_sector_contains_live_bytes sector s \<longleftrightarrow>
    (\<exists>p. unat (sp_ack_pos s) \<le> p \<and> p < unat (sp_reserve_pos s) \<and> (p mod 0x100000) div 4096 = unat sector)"
  using contains_live_iff [OF assms(1)] assms(2) by (simp add: sector_live_def)

theorem live_loop_decides_witness:
  "\<not> spool_sector_contains_live_bytes 5 demo_spool \<and> spool_sector_contains_live_bytes 0 demo_spool"
proof -
  have f: "sp_ack_pos demo_spool = 0" "sp_reserve_pos demo_spool = 0x500" "spool_used_bytes demo_spool \<noteq> None"
    using demo_fields(12) by (simp_all add: demo_defs)
  have "\<not> spool_sector_contains_live_bytes 5 demo_spool"
    using live_loop_decides [of 5 demo_spool] f by auto
  moreover have "spool_sector_contains_live_bytes 0 demo_spool"
    using live_loop_decides [of 0 demo_spool] f by (auto intro!: exI [of _ 0])
  ultimately show ?thesis by blast
qed

lemma mark_erased_maps:
  assumes "length (sp_erased_bitmap s) = 8" "length (sp_dirty_bitmap s) = 8" "length (sp_reclaimable_bitmap s) = 8"
    and "unat first + n \<le> 256"
  defines "t \<equiv> foldl (\<lambda>s offset. let sector = first + of_nat offset
        in s\<lparr>sp_erased_bitmap := spool_bitmap_set sector (sp_erased_bitmap s),
             sp_dirty_bitmap := spool_bitmap_clear sector (sp_dirty_bitmap s),
             sp_reclaimable_bitmap := spool_bitmap_clear sector (sp_reclaimable_bitmap s)\<rparr>) s [0 ..< n]"
  shows "length (sp_erased_bitmap t) = 8 \<and> length (sp_dirty_bitmap t) = 8 \<and> length (sp_reclaimable_bitmap t) = 8 \<and>
    (\<forall>k. spool_bitmap_get (sp_erased_bitmap t) k \<longleftrightarrow>
       spool_bitmap_get (sp_erased_bitmap s) k \<or> unat first \<le> unat k \<and> unat k < unat first + n) \<and>
    (\<forall>k. spool_bitmap_get (sp_dirty_bitmap t) k \<longleftrightarrow>
       spool_bitmap_get (sp_dirty_bitmap s) k \<and> \<not> (unat first \<le> unat k \<and> unat k < unat first + n)) \<and>
    (\<forall>k. spool_bitmap_get (sp_reclaimable_bitmap t) k \<longleftrightarrow>
       spool_bitmap_get (sp_reclaimable_bitmap s) k \<and> \<not> (unat first \<le> unat k \<and> unat k < unat first + n))"
  using assms(4) unfolding t_def
proof (induction n)
  case 0 then show ?case using assms(1-3) by (auto simp: not_less)
next
  case (Suc n)
  have u: "unat (first + of_nat n) = unat first + n"
    using Suc.prems by (subst unat_add_32) (simp_all add: unat_of_nat take_bit_nat_eq_self_iff)
  have e: "first + of_nat n = k \<longleftrightarrow> unat k = unat first + n" for k
    using u by (auto simp: word_unat_eq_iff)
  have IH: "unat first + n \<le> 256" using Suc.prems by simp
  show ?case
    using Suc.IH [OF IH] Suc.prems u by (auto simp: Let_def e)
qed

end
