(* ===== verification/StressRun.thy ===== *)
theory StressRun
  imports StressWriter SpoolFacts
begin

text \<open>
  Runs of the stress writer: its step relation beside the sender and what holds in every state it
  reaches.
\<close>

unbundle bit_operations_syntax

section \<open>Runs of the writer\<close>

text \<open>The ghost are the verified pages of the current record.  \<open>beside\<close> is everything else that
  may run between two operations of the writer: the sender, the erase scheduler and the status
  functions leave the reservation alone and change no field the writer works with
  (\<open>same_writer\<close>).\<close>

definition writer_core :: "online_stress \<Rightarrow> online_stress" where
  "writer_core s = s\<lparr>os_acked := 0, os_send_wait := 0, os_ack_wait := 0, os_publish_ms := 0,
     os_skipped := 0, os_snapshot := [], os_status_pending := False, os_terminal_frozen := False,
     os_first_failure := 0\<rparr>"

definition same_writer :: "online_stress \<Rightarrow> online_stress \<Rightarrow> bool" where
  "same_writer s s' \<longleftrightarrow> writer_core s' = writer_core s \<and>
     (os_first_failure s \<noteq> 0 \<longrightarrow> os_first_failure s' = os_first_failure s)"

inductive writer_step :: "'d device \<Rightarrow> 'd world \<times> u8 list \<Rightarrow> 'd world \<times> u8 list \<Rightarrow> bool" for D where
  ticked: "zy100_online_stress_tick D now w = (ok, w') \<Longrightarrow> writer_step D (w, bs) (w', bs)"
| frozen: "zy100_online_stress_freeze D now w = (ok, w') \<Longrightarrow> writer_step D (w, bs) (w', bs)"
| written: "zy100_online_stress_write_step D w = (ok, w') \<Longrightarrow> writer_step D (w, bs) (w', pages_after w w' bs)"
| beside: "sp_reservation (w_spool w') = sp_reservation (w_spool w) \<Longrightarrow>
    same_writer (w_stress w) (w_stress w') \<Longrightarrow> writer_step D (w, bs) (w', bs)"

inductive_cases writer_stepE: "writer_step D x y"

text \<open>A run starts with a session and a successful \<open>begin\<close> on the 40960 bytes of the workspace.\<close>

definition writer_start :: "'d device \<Rightarrow> 'd world \<times> u8 list \<Rightarrow> bool" where
  "writer_start D x \<longleftrightarrow> (\<exists>w sid s0 ws now. w_stress w = zy100_online_stress_session sid s0 \<and>
     length ws = 40960 \<and> zy100_online_stress_begin D (Some ws) now w = (True, fst x)) \<and> snd x = []"

definition writer_inv :: "'d world \<times> u8 list \<Rightarrow> bool" where
  "writer_inv x \<longleftrightarrow> writer_ok (w_stress (fst x)) (sp_reservation (w_spool (fst x))) (snd x)"

lemma writer_ok_first [simp]: "writer_ok (os_first_failure_update f s) r bs = writer_ok s r bs"
  by (simp add: writer_ok_def writer_defs)

lemma same_writer_ok:
  assumes "same_writer s s'" "writer_ok s r bs"
  shows "writer_ok s' r bs"
proof -
  have "writer_ok (writer_core s') r bs" using assms by (simp add: same_writer_def) (simp add: writer_core_def)
  then show ?thesis by (simp add: writer_core_def)
qed

text \<open>What the other side of the spool and the status do is \<open>beside\<close>.\<close>

lemma status_beside:
  "same_writer s (zy100_online_stress_publish now raw force s)"
  "same_writer s (zy100_online_stress_status_sent elapsed s)"
  "same_writer s (zy100_online_stress_note_wait sw aw s)"
  "same_writer s (zy100_online_stress_note_stacks a b c s)"
  "same_writer s (zy100_online_stress_terminal_freeze s)"
  "same_writer s (zy100_online_stress_failure stop s)"
  "same_writer s (zy100_online_stress_ack n s)"
  by (simp_all add: same_writer_def writer_core_def zy100_online_stress_publish_def
      zy100_online_stress_status_sent_def zy100_online_stress_note_wait_def
      zy100_online_stress_note_stacks_def zy100_online_stress_terminal_freeze_def
      zy100_online_stress_failure_def zy100_online_stress_ack_def Let_def)

lemma freeze_writer:
  assumes w: "writer_ok (w_stress w) res bs" and out: "zy100_online_stress_freeze D now w = (r, w')"
  shows "writer_ok (w_stress w') res bs \<and> w_spool w' = w_spool w"
proof -
  let ?src = "os_source (w_stress w)"
  obtain ok t where t: "zy100_stress_source_tick ?src now = (ok, t)" by fastforce
  have so: "source_ok ?src" and ne: "src_error ?src \<noteq> 7" using ok_stable [OF w] by (simp_all add: writer_stable_def)
  note sp = tick_spec [OF so t]
  let ?t = "t\<lparr>src_frozen := True\<rparr>" and ?w1 = "on_stress (os_source_update (\<lambda>_. t\<lparr>src_frozen := True\<rparr>)) w"
  have fr: "zy100_stress_source_freeze ?src now = (ok, ?t)" by (simp add: zy100_stress_source_freeze_def t)
  have err0: "src_error ?src = 0" if "src_error t = 0"
  proof (rule ccontr)
    assume "src_error ?src \<noteq> 0"
    moreover have "src_ring ?src \<noteq> None" using so by (auto simp: source_ok_def)
    ultimately have "t = ?src" using t by (auto simp: zy100_stress_source_tick_def)
    with that \<open>src_error ?src \<noteq> 0\<close> show False by simp
  qed
  have ne7: "src_error t \<noteq> 7" using tick_error [OF so t] ne by auto
  have "writer_ok ((w_stress w)\<lparr>os_source := ?t\<rparr>) res bs"
    by (rule writer_ok_source [OF w]) (use sp(1) err0 ne7 in simp_all)
  then have w1: "writer_ok (w_stress ?w1) res bs" by simp
  have eq: "zy100_online_stress_freeze D now w = (if \<not> ok then stress_fail D (src_error ?t) ?w1 else (True, ?w1))"
    by (simp add: zy100_online_stress_freeze_def fr)
  show ?thesis
  proof (cases ok)
    case True then show ?thesis using out eq w1 by auto
  next
    case False
    then have f: "stress_fail D (src_error ?t) ?w1 = (r, w')" using out eq by simp
    have "src_error ?t \<noteq> 0" using sp(3) False by simp
    then show ?thesis
      using fail_ok [OF f ok_stable [OF w1]] ne7 stress_fail_frame [OF f] by simp
  qed
qed

lemma begin_writer:
  assumes s: "w_stress w = zy100_online_stress_session sid s0" and len: "length ws = 40960"
    and out: "zy100_online_stress_begin D (Some ws) now w = (True, w')"
  shows "writer_ok (w_stress w') r []"
proof -
  have cf: "os_configured (w_stress w)"
  proof (rule ccontr)
    assume "\<not> ?thesis"
    then show False using out by (auto simp: zy100_online_stress_begin_def stress_fail_def Let_def)
  qed
  let ?rate = "os_configured_rate s0"
  obtain src where src: "zy100_stress_source_begin (os_source (w_stress w)) (Some (get_at 36864 4096 ws))
      ?rate sid now = (True, src)" and st: "w_stress w' = (w_stress w)\<lparr>os_page := Some (get_at 34400 256 ws),
        os_verify := Some (get_at 34656 256 ws), os_publish_ms := now, os_source := src\<rparr>"
    using out cf s by (auto simp: zy100_online_stress_begin_def Let_def zy100_online_stress_session_def
        split: prod.splits)
  have so: "source_ok src" using source_begin_ok [OF src] len by simp
  have f: "zy100_stress_rate_valid ?rate" "src = stress_source_zero\<lparr>src_ring := Some (get_at 36864 4096 ws),
      src_rate := ?rate, src_seed := sid, src_start_ms := now\<rparr>"
    using src by (auto simp: zy100_stress_source_begin_def split: if_splits)
  have z: "os_phase (w_stress w) = 0" "os_committed (w_stress w) = 0"
    by (simp_all add: s zy100_online_stress_session_def online_stress_zero_def Let_def)
  have v: "src_rate src = ?rate" "src_consumed src = 0" "src_used src = 0" "src_generated src = 0" "src_error src = 0"
    by (simp_all add: f(2) stress_source_zero_def)
  have "writer_stable (w_stress w')"
    unfolding writer_stable_def st using so f(1) v z len by simp
  then show ?thesis unfolding writer_ok_def st using z v by simp
qed

lemma writer_step_inv: "writer_step D x y \<Longrightarrow> writer_inv x \<Longrightarrow> writer_inv y"
proof (erule writer_stepE, goal_cases)
  case (1 now w ok w' bs) then show ?case using tick_writer [of w _ bs D now ok w'] by (simp add: writer_inv_def)
next
  case (2 now w ok w' bs) then show ?case using freeze_writer [of w _ bs D now ok w'] by (simp add: writer_inv_def)
next
  case (3 w ok w' bs) then show ?case using write_step_ok [of w bs D ok w'] by (simp add: writer_inv_def)
next
  case (4 w' w bs) then show ?case using same_writer_ok by (auto simp: writer_inv_def)
qed

interpretation writer: invariant_run "writer_start D" "writer_step D" writer_inv for D
proof
  show "writer_start D x \<Longrightarrow> writer_inv x" for x :: "'a world \<times> u8 list"
    using begin_writer by (fastforce simp: writer_start_def writer_inv_def)
  show "writer_inv x \<Longrightarrow> writer_step D x y \<Longrightarrow> writer_inv y" for x y :: "'a world \<times> u8 list"
    using writer_step_inv by blast
qed

lemma writer_reach:
  assumes "writer_start D x" "(writer_step D)\<^sup>*\<^sup>* x (w, bs)"
  shows "writer_ok (w_stress w) (sp_reservation (w_spool w)) bs"
  using writer.inv_reachable [OF assms] by (simp add: writer_inv_def)

end
