(* ===== verification/StressRecord.thy ===== *)
theory StressRecord
  imports StressRun
begin

text \<open>
  One record on a flash that works: every page takes two write steps, program and read-back, the
  last page hands the record to the commit pump, and two more steps commit it.  The pages verified so far
  lie in the flash (\<open>on_track\<close>), and the header page stays erased until the pump writes it.
\<close>

unbundle bit_operations_syntax

section \<open>Progress on a flash that works\<close>

lemma error_page [simp]:
  "sp_page (spool_latch_error code detail s) = sp_page s" "sp_page (on_stats f s) = sp_page s"
  by (simp_all add: spool_latch_error_def on_stats_def Let_def)

text \<open>What the spool sees of a page: nothing but the retry hint and the progress counter, until the
  last page hands the record over.\<close>

lemma write_page_buffer:
  assumes "zy100_online_spool_write_reserved_page D token addr page w = (r, w')"
  shows "sp_page (w_spool w') = sp_page (w_spool w)"
proof (cases page)
  case None then show ?thesis
    using assms by (auto simp: zy100_online_spool_write_reserved_page_def spool_error_def)
next
  case (Some bytes)
  obtain st b w1 where io: "spool_io_busy D w = (st, b, w1)" by (rule prod_cases3)
  obtain st2 w2 where pr: "spool_io_program D addr bytes w1 = (st2, w2)" by fastforce
  show ?thesis
    using assms Some io_busy_frame [OF io] io_program_frame [OF pr]
    by (auto simp: zy100_online_spool_write_reserved_page_def io pr Let_def spool_error_def
        split: if_splits)
qed

lemma read_reserved_buffer:
  assumes "zy100_online_spool_read_reserved D token addr buf w = (r, buf', w')"
  shows "sp_page (w_spool w') = sp_page (w_spool w)"
proof (cases buf)
  case None then show ?thesis
    using assms by (auto simp: zy100_online_spool_read_reserved_def spool_error_def)
next
  case (Some old)
  obtain st b w1 where io: "spool_io_busy D w = (st, b, w1)" by (rule prod_cases3)
  obtain st2 bs w2 where rd: "spool_io_read D 1 addr old w1 = (st2, bs, w2)" by (rule prod_cases3)
  show ?thesis
    using assms Some io_busy_frame [OF io] io_read_frame [OF rd]
    by (auto simp: zy100_online_spool_read_reserved_def io rd Let_def spool_error_def split: if_splits)
qed

definition spool_follows :: "bool \<Rightarrow> spool_state \<Rightarrow> spool_state \<Rightarrow> bool" where
  "spool_follows full s s' \<longleftrightarrow> (\<exists>s1 token crc. queue_core s1 = queue_core s \<and> sp_page s1 = sp_page s \<and>
     (if full then zy100_online_spool_commit_with_crc token crc s1 = (True, s') else s' = s1))"

lemma commit_with_crc_result:
  "zy100_online_spool_commit_with_crc token crc s = (True, s') \<Longrightarrow>
   res_active (sp_reservation s) \<and> sp_page s' = sp_page s \<and>
   sp_reservation s' = (sp_reservation s)\<lparr>res_data_done := True, res_crc_final_valid := True,
     res_crc32_final := crc, res_commit_state := COMMIT_HEADER_READY\<rparr>"
  by (auto simp: zy100_online_spool_commit_with_crc_def Let_def split: if_splits)

lemma spool_follows_spec:
  assumes "spool_follows full s s'"
  shows "queue_inv s recs \<Longrightarrow> queue_inv s' recs" "sp_page s' = sp_page s"
    "res_header_addr (sp_reservation s') = res_header_addr (sp_reservation s)"
    "res_capture_segment_id (sp_reservation s') = res_capture_segment_id (sp_reservation s)"
    "full \<Longrightarrow> res_active (sp_reservation s') \<and> res_data_done (sp_reservation s') \<and>
       res_commit_state (sp_reservation s') = COMMIT_HEADER_READY"
proof -
  obtain s1 token crc where k: "queue_core s1 = queue_core s" "sp_page s1 = sp_page s"
    "if full then zy100_online_spool_commit_with_crc token crc s1 = (True, s') else s' = s1"
    using assms unfolding spool_follows_def by blast
  have r: "sp_reservation s1 = sp_reservation s" by (rule queue_fields(11) [OF k(1)])
  show "queue_inv s recs \<Longrightarrow> queue_inv s' recs"
  proof (cases full)
    case True
    moreover assume "queue_inv s recs"
    then have "queue_inv s1 recs" using queue_inv_cong [OF k(1)] by blast
    ultimately show ?thesis using commit_with_crc_inv k(3) by auto
  next
    case False
    moreover assume "queue_inv s recs"
    ultimately show ?thesis using queue_inv_cong [OF k(1)] k(3) by auto
  qed
  show "sp_page s' = sp_page s" "res_header_addr (sp_reservation s') = res_header_addr (sp_reservation s)"
    "res_capture_segment_id (sp_reservation s') = res_capture_segment_id (sp_reservation s)"
    "full \<Longrightarrow> res_active (sp_reservation s') \<and> res_data_done (sp_reservation s') \<and>
       res_commit_state (sp_reservation s') = COMMIT_HEADER_READY"
    using k(2,3) r commit_with_crc_result [of token crc s1 s'] by (cases full; simp)+
qed

lemma release_spool:
  assumes w: "writer_ok (w_stress w) (sp_reservation (w_spool w)) bs" and ph: "os_phase (w_stress w) = 2"
    and e0: "src_error (os_source (w_stress w)) = 0" and page: "os_page (w_stress w) = Some page"
    and out: "write_release D w = (r, w')"
  shows "spool_follows (os_page_offset (w_stress w) + 256 = os_record_bytes (w_stress w)) (w_spool w) (w_spool w')"
proof -
  let ?s = "w_stress w"
  obtain src w7 sp where s7: "w_spool w7 = w_spool w"
    and cc: "zy100_online_spool_commit_with_crc (tgt_token (os_target ?s))
       (zy100_crc32_ieee_finish (os_crc (page_released src page ?s))) (w_spool w) = (True, sp)"
    and eq: "write_release D w = (if os_page_offset ?s + 256 = os_record_bytes ?s
      then (True, on_stress (os_phase_update (\<lambda>_. 3)) (on_spool (\<lambda>_. sp) w7)) else (True, w7))"
    by (rule release_shape [OF w ph e0 page, where D = D]) blast
  show ?thesis
    unfolding spool_follows_def
    by (intro exI [of _ "w_spool w"] exI [of _ "tgt_token (os_target ?s)"]
        exI [of _ "zy100_crc32_ieee_finish (os_crc (page_released src page ?s))"])
      (use out cc s7 eq in \<open>auto split: if_splits\<close>)
qed

text \<open>The writer is about to write a page of a record whose remaining pages are erased.\<close>

definition record_room :: "'d world \<Rightarrow> bool" where
  "record_room w \<longleftrightarrow> (let t = tgt_data_addr (os_target (w_stress w)); n = os_record_bytes (w_stress w)
     in 256 dvd unat t \<and> unat t + unat n < 4294967296 \<and> \<not> sp_erase_wip (w_spool w))"

text \<open>The verified bytes lie in the flash from address \<open>a\<close> on.\<close>

definition holds_at :: "(u32 \<Rightarrow> u8) \<Rightarrow> u32 \<Rightarrow> u8 list \<Rightarrow> bool" where
  "holds_at m a bs \<longleftrightarrow> (\<forall>i < length bs. m (a + of_nat i) = bs ! i)"

lemma page_range:
  assumes rm: "record_room w" and rs: "writer_reserved (w_stress w) (sp_reservation (w_spool w))"
    and off: "256 dvd unat (os_page_offset (w_stress w))" "256 dvd unat (os_record_bytes (w_stress w))"
      "os_page_offset (w_stress w) < os_record_bytes (w_stress w)"
  shows "unat (write_page_addr (w_stress w)) =
      unat (tgt_data_addr (os_target (w_stress w))) + unat (os_page_offset (w_stress w))"
    "write_page_addr (w_stress w) mod 256 = 0"
    "spool_reservation_range_valid (tgt_token (os_target (w_stress w))) (write_page_addr (w_stress w)) 256 (w_spool w)"
    "unat (os_page_offset (w_stress w)) + 256 \<le> unat (os_record_bytes (w_stress w))"
proof -
  let ?t = "tgt_data_addr (os_target (w_stress w))" and ?n = "os_record_bytes (w_stress w)"
  let ?o = "os_page_offset (w_stress w)" and ?a = "write_page_addr (w_stress w)"
  have t: "256 dvd unat ?t" "unat ?t + unat ?n < 4294967296" using rm by (simp_all add: record_room_def Let_def)
  have lt: "unat ?o < unat ?n" using off(3) by (simp add: word_less_nat_alt)
  show a: "unat ?a = unat ?t + unat ?o"
    unfolding write_page_addr_def using t lt by (subst unat_add_32) simp_all
  have "256 dvd unat ?a" unfolding a using t(1) off(1) by (rule dvd_add)
  then show "?a mod 256 = 0" by (rule word_eq_mod0)
  show o: "unat ?o + 256 \<le> unat ?n" using off(1,2) lt by (auto elim!: dvdE)
  have e: "unat (?t + ?n) = unat ?t + unat ?n" using t by (subst unat_add_32) simp_all
  have "?a < ?t + ?n" "\<not> ?a < ?t" using a e lt by (simp_all add: word_less_nat_alt)
  moreover have "256 \<le> ?t + ?n - ?a"
  proof -
    have "unat (?t + ?n - ?a) = unat (?t + ?n) - unat ?a"
      using a e lt by (intro unat_sub) (simp add: word_le_nat_alt)
    then show ?thesis using a e o by (simp add: word_le_nat_alt)
  qed
  ultimately show "spool_reservation_range_valid (tgt_token (os_target (w_stress w))) ?a 256 (w_spool w)"
    using rs by (simp add: spool_reservation_range_valid_def writer_reserved_def Let_def)
qed

lemma record_dvd:
  assumes "writer_record s bs"
  shows "256 dvd unat (os_page_offset s)" "256 dvd unat (os_record_bytes s)"
  using assms by (simp_all add: writer_record_def)

text \<open>Programming a page.\<close>

lemma program_progress:
  assumes R: "reliable_flash D mem"
    and w: "writer_ok (w_stress w) (sp_reservation (w_spool w)) bs" and ph: "os_phase (w_stress w) = 1"
    and e0: "src_error (os_source (w_stress w)) = 0" and rm: "record_room w"
  shows "\<exists>w' page. write_program D (write_page_addr (w_stress w)) w = (True, w') \<and>
    os_phase (w_stress w') = 2 \<and> src_error (os_source (w_stress w')) = 0 \<and> os_page (w_stress w') = Some page \<and>
    length page = 256 \<and> record_room w' \<and>
    os_page_offset (w_stress w') = os_page_offset (w_stress w) \<and>
    os_record_bytes (w_stress w') = os_record_bytes (w_stress w) \<and>
    os_target (w_stress w') = os_target (w_stress w) \<and>
    mem (w_dev w') = programmed (write_page_addr (w_stress w)) page (mem (w_dev w)) \<and>
    spool_follows False (w_spool w) (w_spool w')"
proof -
  let ?addr = "write_page_addr (w_stress w)"
  obtain w2 where w2: "write_program D ?addr w = program_page D ?addr w2"
    "writer_ok (w_stress w2) (sp_reservation (w_spool w)) bs" "os_phase (w_stress w2) = 1"
    "src_error (os_source (w_stress w2)) = 0" "w_spool w2 = w_spool w"
    "os_page_offset (w_stress w2) = os_page_offset (w_stress w)"
    "os_record_bytes (w_stress w2) = os_record_bytes (w_stress w)"
    "os_target (w_stress w2) = os_target (w_stress w)"
    "mem (w_dev w2) = mem (w_dev w)"
    using program_prepared [OF w ph e0, where D = D and addr = ?addr] R by metis
  have rec: "writer_record (w_stress w) bs" and rs: "writer_reserved (w_stress w) (sp_reservation (w_spool w))"
    and lt: "os_page_offset (w_stress w) < os_record_bytes (w_stress w)"
    using w ph e0 by (simp_all add: writer_ok_def)
  note pr = page_range [OF rm rs record_dvd [OF rec] lt]
  obtain timed stamp w3 where ts: "timebase_snapshot D w2 = (timed, stamp, w3)" by (rule prod_cases3)
  have w3: "w_stress w3 = w_stress w2" "w_spool w3 = w_spool w2" using snapshot_frame [OF ts] by simp_all
  obtain page where page: "os_page (w_stress w2) = Some page" "length page = 256"
    using ok_stable [OF w2(2)] by (auto simp: writer_stable_def)
  have "\<not> sp_erase_wip (w_spool w3)" "\<not> res_data_done (sp_reservation (w_spool w3))"
    using rm rs w3 w2(5) by (simp_all add: record_room_def writer_reserved_def Let_def)
  then obtain w4 where wr: "zy100_online_spool_write_reserved_page D (tgt_token (os_target (w_stress w3))) ?addr
      (os_page (w_stress w3)) w3 = (IO_OK, w4)" "mem (w_dev w4) = programmed ?addr page (mem (w_dev w3))"
      "\<not> sp_erase_wip (w_spool w4)"
    using reliable_write_page [OF R _ pr(2), of w3 "tgt_token (os_target (w_stress w3))" page] pr(3) w3 w2(5,8) page(1)
    by auto
  have s4: "w_stress w4 = w_stress w2" using write_page_same [OF wr(1)] w3 by simp
  have f4: "spool_follows False (w_spool w) (w_spool w4)"
    using write_page_same [OF wr(1)] write_page_buffer [OF wr(1)] w3 w2(5) by (simp add: spool_follows_def)
  let ?w5 = "profile D os_program_max_us_update stamp timed w4"
  obtain v where v: "w_stress ?w5 = (w_stress w4)\<lparr>os_program_max_us := v\<rparr>" using profile_peaks(2) by blast
  have out: "write_program D ?addr w = (True, on_stress (os_phase_update (\<lambda>_. 2)) ?w5)"
    unfolding w2(1) program_page_def by (simp add: Let_def ts wr(1))
  have m: "mem (w_dev ?w5) = programmed ?addr page (mem (w_dev w))"
    using R wr(2) mem_clocks(1) [OF R ts] w2(9) by simp
  have "record_room (on_stress (os_phase_update (\<lambda>_. 2)) ?w5)"
    using rm v s4 w2 wr(3) by (simp add: record_room_def Let_def)
  then show ?thesis
    using out m v s4 w2 page f4
    by (intro exI [of _ "on_stress (os_phase_update (\<lambda>_. 2)) ?w5"] exI [of _ page]) simp
qed

text \<open>Reading it back.\<close>

lemma verify_progress:
  assumes R: "reliable_flash D mem"
    and w: "writer_ok (w_stress w) (sp_reservation (w_spool w)) bs" and ph: "os_phase (w_stress w) = 2"
    and e0: "src_error (os_source (w_stress w)) = 0" and rm: "record_room w"
    and page: "os_page (w_stress w) = Some page"
    and held: "holds_at (mem (w_dev w)) (write_page_addr (w_stress w)) page"
  shows "\<exists>w'. write_verify D (write_page_addr (w_stress w)) w = (True, w') \<and>
    src_error (os_source (w_stress w')) = 0 \<and>
    os_phase (w_stress w') =
      (if os_page_offset (w_stress w) + 256 = os_record_bytes (w_stress w) then 3 else 1) \<and>
    os_page_offset (w_stress w') = os_page_offset (w_stress w) + 256 \<and> os_page (w_stress w') = Some page \<and>
    os_record_bytes (w_stress w') = os_record_bytes (w_stress w) \<and>
    os_target (w_stress w') = os_target (w_stress w) \<and> \<not> sp_erase_wip (w_spool w') \<and>
    mem (w_dev w') = mem (w_dev w) \<and>
    spool_follows (os_page_offset (w_stress w) + 256 = os_record_bytes (w_stress w)) (w_spool w) (w_spool w')"
proof -
  let ?addr = "write_page_addr (w_stress w)"
  have rec: "writer_record (w_stress w) bs" and rs: "writer_reserved (w_stress w) (sp_reservation (w_spool w))"
    and lt: "os_page_offset (w_stress w) < os_record_bytes (w_stress w)"
    using w ph e0 by (simp_all add: writer_ok_def)
  note pr = page_range [OF rm rs record_dvd [OF rec] lt]
  have len: "length page = 256" using ok_stable [OF w] page by (auto simp: writer_stable_def)
  let ?w1 = "zy100_online_stress_diag_stage D ZY100_SD_VERIFY w"
  obtain timed stamp w2 where ts: "timebase_snapshot D ?w1 = (timed, stamp, w2)" by (rule prod_cases3)
  have w2: "w_stress w2 = w_stress w" "w_spool w2 = w_spool w" using snapshot_frame [OF ts] by simp_all
  have m2: "mem (w_dev w2) = mem (w_dev w)" using mem_clocks(1) [OF R ts] R by simp
  obtain old where old: "os_verify (w_stress w) = Some old" "length old = 256"
    using ok_stable [OF w] by (auto simp: writer_stable_def)
  have same_page: "map (\<lambda>i. mem (w_dev w2) (?addr + of_nat i)) [0 ..< 256] = page"
    using held len m2 by (intro nth_equalityI) (simp_all add: holds_at_def)
  obtain w3 where rd: "zy100_online_spool_read_reserved D (tgt_token (os_target (w_stress w2))) ?addr
      (os_verify (w_stress w2)) w2 = (IO_OK, Some page, w3)" "mem (w_dev w3) = mem (w_dev w2)"
      "\<not> sp_erase_wip (w_spool w3)"
    using reliable_read_reserved [OF R, of "tgt_token (os_target (w_stress w2))" ?addr w2 old] pr(3) rm w2 old same_page
    by (auto simp: record_room_def Let_def)
  have w3: "w_stress w3 = w_stress w" "sp_reservation (w_spool w3) = sp_reservation (w_spool w)"
    using read_reserved_same [OF rd(1)] w2 queue_fields(11) [of "w_spool w3" "w_spool w2"] by simp_all
  let ?w4 = "on_stress (os_verify_update (\<lambda>_. Some page)) w3"
  let ?w5 = "profile D os_verify_max_us_update stamp timed ?w4"
  obtain p where p: "w_stress ?w5 = (w_stress ?w4)\<lparr>os_verify_max_us := p\<rparr>" using profile_peaks(3) by blast
  have eq: "write_verify D ?addr w = write_release D ?w5"
    unfolding write_verify_def by (simp add: Let_def ts rd(1) w3 page)
  obtain r w' where rl: "write_release D ?w5 = (r, w')" by fastforce
  have ok5: "writer_ok (w_stress ?w5) (sp_reservation (w_spool ?w5)) bs"
    using p w3 verify_upd_ok [OF w len] by simp
  have f5: "os_phase (w_stress ?w5) = 2" "src_error (os_source (w_stress ?w5)) = 0"
    "os_page (w_stress ?w5) = Some page" "os_page_offset (w_stress ?w5) = os_page_offset (w_stress w)"
    "os_record_bytes (w_stress ?w5) = os_record_bytes (w_stress w)" "os_target (w_stress ?w5) = os_target (w_stress w)"
    using p w3 ph e0 page by simp_all
  note ro = write_release_ok [OF ok5 f5(1-3) rl]
  note rf = release_frame [OF ok5 f5(1-3) rl]
  have "spool_follows (os_page_offset (w_stress w) + 256 = os_record_bytes (w_stress w)) (w_spool w) (w_spool w')"
  proof -
    have "queue_core (w_spool ?w5) = queue_core (w_spool w)" "sp_page (w_spool ?w5) = sp_page (w_spool w)"
      using read_reserved_same [OF rd(1)] read_reserved_buffer [OF rd(1)] w2 by simp_all
    then show ?thesis
      using release_spool [OF ok5 f5(1-3) rl] f5(4,5) unfolding spool_follows_def by simp
  qed
  moreover have "mem (w_dev ?w5) = mem (w_dev w)" using R rd(2) m2 by simp
  moreover have "\<not> sp_erase_wip (w_spool ?w5)" using rd(3) by simp
  ultimately show ?thesis
    using eq rl ro rf f5 R by auto
qed

text \<open>Pages verified so far in the flash, the page just programmed too, the rest erased.\<close>

definition on_track :: "(u32 \<Rightarrow> u8) \<Rightarrow> online_stress \<Rightarrow> u8 list \<Rightarrow> bool" where
  "on_track m s bs \<longleftrightarrow> (let t = tgt_data_addr (os_target s); stop = unat t + unat (os_record_bytes s)
     in holds_at m t bs \<and>
        (os_phase s = 1 \<longrightarrow> (\<forall>x. unat t + unat (os_page_offset s) \<le> unat x \<and> unat x < stop \<longrightarrow> m x = 0xFF)) \<and>
        (os_phase s = 2 \<longrightarrow> holds_at m (write_page_addr s) (the (os_page s)) \<and>
           (\<forall>x. unat t + unat (os_page_offset s) + 256 \<le> unat x \<and> unat x < stop \<longrightarrow> m x = 0xFF)))"

lemma byte_255: "(0xFF :: u8) AND b = b"
proof -
  have "(0xFF :: u8) = - 1" by simp
  then show ?thesis by (simp only: and.left_neutral)
qed

lemma programmed_out: "unat x < unat a \<or> unat a + length bs \<le> unat x \<Longrightarrow> programmed a bs m x = m x"
  by (auto simp: programmed_def)

lemma programmed_in:
  assumes "unat a + length bs < 4294967296" "i < length bs" "m (a + of_nat i) = 0xFF"
  shows "programmed a bs m (a + of_nat i) = bs ! i"
proof -
  have "unat (a + of_nat i) = unat a + i"
    using assms(1,2) by (subst unat_add_32) (simp_all add: unat_of_nat take_bit_nat_eq_self_iff)
  then show ?thesis using assms by (simp add: programmed_def byte_255)
qed

lemma holds_upto:
  assumes "unat a + length bs < 4294967296" "length bs \<le> k" "holds_at m a bs"
    and "\<And>x. unat x < unat a + k \<Longrightarrow> m' x = m x"
  shows "holds_at m' a bs"
  unfolding holds_at_def
proof (intro allI impI)
  fix i assume i: "i < length bs"
  have "unat (a + of_nat i) = unat a + i"
    using assms(1) i by (subst unat_add_32) (simp_all add: unat_of_nat take_bit_nat_eq_self_iff)
  then show "m' (a + of_nat i) = bs ! i" using assms(2-4) i by (simp add: holds_at_def)
qed

lemma holds_append:
  assumes "holds_at m a bs" "holds_at m (a + of_nat (length bs)) page"
  shows "holds_at m a (bs @ page)"
  unfolding holds_at_def
proof (intro allI impI)
  fix i assume i: "i < length (bs @ page)"
  show "m (a + of_nat i) = (bs @ page) ! i"
  proof (cases "i < length bs")
    case True then show ?thesis using assms(1) by (simp add: holds_at_def nth_append)
  next
    case False
    then obtain j where j: "i = length bs + j" using nat_le_iff_add [of "length bs" i] by auto
    then show ?thesis using assms(2) i by (simp add: holds_at_def nth_append add.assoc)
  qed
qed

lemma write_step_phase:
  assumes "src_error (os_source (w_stress w)) = 0"
  shows "os_phase (w_stress w) = 1 \<Longrightarrow> zy100_online_stress_write_step D w =
      write_program D (write_page_addr (w_stress w)) (on_stress (os_io_waiting_update (\<lambda>_. False)) w)"
    "os_phase (w_stress w) = 2 \<Longrightarrow> zy100_online_stress_write_step D w =
      write_verify D (write_page_addr (w_stress w)) (on_stress (os_io_waiting_update (\<lambda>_. False)) w)"
    "os_phase (w_stress w) = 3 \<Longrightarrow> zy100_online_stress_write_step D w =
      write_commit D (on_stress (os_io_waiting_update (\<lambda>_. False)) w)"
  using assms by (simp_all add: zy100_online_stress_write_step_def Let_def write_page_addr_def)

text \<open>Both steps of a page, from any world: the first in terms of \<open>write_program\<close>, because a
  record starts with it inside the step that reserves.\<close>

lemma program_on_track:
  assumes R: "reliable_flash D mem"
    and w: "writer_ok (w_stress w) (sp_reservation (w_spool w)) bs" and ph: "os_phase (w_stress w) = 1"
    and e0: "src_error (os_source (w_stress w)) = 0" and rm: "record_room w"
    and tr: "on_track (mem (w_dev w)) (w_stress w) bs"
  shows "\<exists>w' page. write_program D (write_page_addr (w_stress w)) w = (True, w') \<and> length page = 256 \<and>
    mem (w_dev w') = programmed (write_page_addr (w_stress w)) page (mem (w_dev w)) \<and>
    spool_follows False (w_spool w) (w_spool w') \<and>
    writer_ok (w_stress w') (sp_reservation (w_spool w')) bs \<and>
    os_phase (w_stress w') = 2 \<and> src_error (os_source (w_stress w')) = 0 \<and> record_room w' \<and>
    on_track (mem (w_dev w')) (w_stress w') bs \<and>
    os_page_offset (w_stress w') = os_page_offset (w_stress w) \<and>
    os_record_bytes (w_stress w') = os_record_bytes (w_stress w) \<and>
    os_target (w_stress w') = os_target (w_stress w)"
proof -
  let ?s = "w_stress w" let ?a = "write_page_addr ?s" let ?t = "tgt_data_addr (os_target ?s)"
  let ?m = "mem (w_dev w)"
  obtain w' page where p: "write_program D ?a w = (True, w')" "os_phase (w_stress w') = 2"
      "src_error (os_source (w_stress w')) = 0" "os_page (w_stress w') = Some page" "length page = 256"
      "record_room w'" "os_page_offset (w_stress w') = os_page_offset ?s"
      "os_record_bytes (w_stress w') = os_record_bytes ?s" "os_target (w_stress w') = os_target ?s"
      "mem (w_dev w') = programmed ?a page ?m" "spool_follows False (w_spool w) (w_spool w')"
    using program_progress [OF R w ph e0 rm] by metis
  have rec: "writer_record ?s bs" and rs: "writer_reserved ?s (sp_reservation (w_spool w))"
    and lt: "os_page_offset ?s < os_record_bytes ?s"
    using w ph e0 by (simp_all add: writer_ok_def)
  note pr = page_range [OF rm rs record_dvd [OF rec] lt]
  have top: "unat ?t + unat (os_record_bytes ?s) < 4294967296" using rm by (simp add: record_room_def Let_def)
  have lbs: "length bs = unat (os_page_offset ?s)" using rec by (simp add: writer_record_def)
  have held: "holds_at ?m ?t bs" and erased: "\<And>x. unat ?t + unat (os_page_offset ?s) \<le> unat x \<Longrightarrow>
      unat x < unat ?t + unat (os_record_bytes ?s) \<Longrightarrow> ?m x = 0xFF"
    using tr ph by (simp_all add: on_track_def Let_def)
  have "write_page_addr (w_stress w') = ?a" using p by (simp add: write_page_addr_def)
  moreover have "holds_at (programmed ?a page ?m) ?a page"
    unfolding holds_at_def
  proof (intro allI impI)
    fix i assume i: "i < length page"
    have "unat (?a + of_nat i) = unat ?a + i"
      using top pr(1,4) i p(5) by (subst unat_add_32) (simp_all add: unat_of_nat take_bit_nat_eq_self_iff)
    then have "?m (?a + of_nat i) = 0xFF" using pr(1,4) i p(5) by (intro erased) simp_all
    then show "programmed ?a page ?m (?a + of_nat i) = page ! i"
      using top pr(1,4) i p(5) by (intro programmed_in) simp_all
  qed
  moreover have "holds_at (programmed ?a page ?m) ?t bs"
    by (rule holds_upto [OF _ _ held, of "unat (os_page_offset ?s)"])
      (use top pr(1,4) lbs in \<open>simp_all add: programmed_out\<close>)
  moreover have "programmed ?a page ?m x = 0xFF"
    if "unat ?t + unat (os_page_offset ?s) + 256 \<le> unat x" "unat x < unat ?t + unat (os_record_bytes ?s)" for x
    using that pr(1) p(5) erased [of x] by (simp add: programmed_out)
  ultimately have "on_track (mem (w_dev w')) (w_stress w') bs"
    using p by (simp add: on_track_def Let_def)
  then show ?thesis using p write_program_ok [OF w ph e0 p(1)] by blast
qed

lemma verify_on_track:
  assumes R: "reliable_flash D mem"
    and w: "writer_ok (w_stress w) (sp_reservation (w_spool w)) bs" and ph: "os_phase (w_stress w) = 2"
    and e0: "src_error (os_source (w_stress w)) = 0" and rm: "record_room w"
    and tr: "on_track (mem (w_dev w)) (w_stress w) bs"
  shows "\<exists>w' page. write_verify D (write_page_addr (w_stress w)) w = (True, w') \<and> length page = 256 \<and>
    os_page (w_stress w') = Some page \<and> mem (w_dev w') = mem (w_dev w) \<and>
    spool_follows (os_page_offset (w_stress w) + 256 = os_record_bytes (w_stress w)) (w_spool w) (w_spool w') \<and>
    writer_ok (w_stress w') (sp_reservation (w_spool w')) (bs @ page) \<and>
    os_phase (w_stress w') =
      (if os_page_offset (w_stress w) + 256 = os_record_bytes (w_stress w) then 3 else 1) \<and>
    src_error (os_source (w_stress w')) = 0 \<and> record_room w' \<and>
    on_track (mem (w_dev w')) (w_stress w') (bs @ page) \<and>
    os_page_offset (w_stress w') = os_page_offset (w_stress w) + 256 \<and>
    os_record_bytes (w_stress w') = os_record_bytes (w_stress w) \<and>
    os_target (w_stress w') = os_target (w_stress w)"
proof -
  let ?s = "w_stress w" let ?a = "write_page_addr ?s" let ?t = "tgt_data_addr (os_target ?s)"
  let ?m = "mem (w_dev w)"
  obtain page where page: "os_page ?s = Some page" "length page = 256"
    using ok_stable [OF w] by (auto simp: writer_stable_def)
  have rec: "writer_record ?s bs" and rs: "writer_reserved ?s (sp_reservation (w_spool w))"
    and lt: "os_page_offset ?s < os_record_bytes ?s"
    using w ph e0 by (simp_all add: writer_ok_def)
  note pr = page_range [OF rm rs record_dvd [OF rec] lt]
  have lbs: "length bs = unat (os_page_offset ?s)" using rec by (simp add: writer_record_def)
  have held: "holds_at ?m ?t bs" "holds_at ?m ?a page"
    and erased: "\<And>x. unat ?t + unat (os_page_offset ?s) + 256 \<le> unat x \<Longrightarrow>
      unat x < unat ?t + unat (os_record_bytes ?s) \<Longrightarrow> ?m x = 0xFF"
    using tr ph page by (simp_all add: on_track_def Let_def)
  obtain w' where v: "write_verify D ?a w = (True, w')" "src_error (os_source (w_stress w')) = 0"
      "os_phase (w_stress w') = (if os_page_offset ?s + 256 = os_record_bytes ?s then 3 else 1)"
      "os_page_offset (w_stress w') = os_page_offset ?s + 256" "os_page (w_stress w') = Some page"
      "os_record_bytes (w_stress w') = os_record_bytes ?s" "os_target (w_stress w') = os_target ?s"
      "\<not> sp_erase_wip (w_spool w')" "mem (w_dev w') = ?m"
      "spool_follows (os_page_offset ?s + 256 = os_record_bytes ?s) (w_spool w) (w_spool w')"
    using verify_progress [OF R w ph e0 rm page(1) held(2)] by blast
  have ne: "os_page_offset (w_stress w') \<noteq> os_page_offset ?s" by (simp add: v(4))
  have ok': "writer_ok (w_stress w') (sp_reservation (w_spool w')) (bs @ page)"
    using write_verify_ok [OF w ph e0 v(1)] ne page(1) by auto
  have o': "unat (os_page_offset ?s + 256) = unat (os_page_offset ?s) + 256"
    using pr(4) unat_lt_32 [of "os_record_bytes ?s"] by (subst unat_add_32) simp_all
  have "?a = ?t + of_nat (length bs)" by (simp add: lbs write_page_addr_def)
  then have "holds_at ?m ?t (bs @ page)" using holds_append held by simp
  then have "on_track (mem (w_dev w')) (w_stress w') (bs @ page)"
    using v o' erased by (simp add: on_track_def Let_def)
  moreover have "record_room w'" using rm v by (simp add: record_room_def Let_def)
  ultimately show ?thesis using v page(2) ok' by (intro exI [of _ w'] exI [of _ page]) simp
qed
section \<open>The commit of a finished record\<close>

lemma reliable_owner:
  assumes "reliable_flash D mem"
  shows "\<exists>w'. bus_owner_none D w = (True, w') \<and> mem (w_dev w') = mem (w_dev w)"
proof -
  obtain d where "spi_bus_owner_none D (w_dev w) = (True, d)" "mem d = mem (w_dev w)"
    using assms unfolding reliable_flash_def by blast
  then show ?thesis by (simp add: bus_owner_none_def)
qed

text \<open>The pump behind its bus and busy tests.\<close>

lemma reliable_pump:
  assumes R: "reliable_flash D mem" and r: "res_active (sp_reservation (w_spool w))" "res_data_done (sp_reservation (w_spool w))"
  obtains w2 where "w_spool w2 = w_spool w" "w_stress w2 = w_stress w" "mem (w_dev w2) = mem (w_dev w)"
    "res_commit_state (sp_reservation (w_spool w)) = COMMIT_HEADER_READY \<Longrightarrow>
       zy100_online_spool_commit_pump_once D True w = commit_header_step D w2"
    "res_commit_state (sp_reservation (w_spool w)) = COMMIT_HEADER_WIP \<Longrightarrow>
       zy100_online_spool_commit_pump_once D True w = commit_verify_step D
         (on_spool (on_res (\<lambda>r. r\<lparr>res_commit_state := COMMIT_HEADER_VERIFY\<rparr>)) w2)"
proof -
  obtain w1 where o: "bus_owner_none D w = (True, w1)" "mem (w_dev w1) = mem (w_dev w)"
    using reliable_owner [OF R] by blast
  obtain w2 where b: "spool_io_busy D w1 = (IMU_STATUS_OK, False, w2)" "mem (w_dev w2) = mem (w_dev w1)"
    using reliable_busy [OF R] by blast
  have s: "w_spool w2 = w_spool w" "w_stress w2 = w_stress w"
    using owner_frame [OF o(1)] io_busy_frame [OF b(1)] by simp_all
  show ?thesis
    by (rule that [OF s]) (use o b r s in \<open>simp_all add: zy100_online_spool_commit_pump_once_def Let_def\<close>)
qed

lemma spool_addr_unat: "unat (spool_pos_addr p) = 0x2F8000 + unat p mod 0x100000"
proof -
  have "unat (0x2F8000 + spool_pos_offset p) = unat (0x2F8000 :: u32) + unat (spool_pos_offset p)"
    by (rule unat_add_32) (simp add: unat_pos_offset)
  then show ?thesis by (simp add: spool_pos_addr_def unat_pos_offset)
qed

definition header_erased :: "(u32 \<Rightarrow> u8) \<Rightarrow> spool_state \<Rightarrow> bool" where
  "header_erased m s \<longleftrightarrow> holds_at m (res_header_addr (sp_reservation s)) (replicate 256 0xFF)"

text \<open>What the reservation of a consistent queue satisfies when its header is written.\<close>

lemma reservation_header:
  assumes inv: "queue_inv s recs" and act: "res_active (sp_reservation s)"
  shows "res_type (sp_reservation s) \<noteq> 0" "unat (res_type (sp_reservation s)) < 5"
    "res_source_record_bytes (sp_reservation s) \<noteq> 0"
    "unat (res_source_record_bytes (sp_reservation s)) mod 256 = 0"
    "unat (res_header_addr (sp_reservation s)) + 256 + unat (res_source_record_bytes (sp_reservation s)) \<le> 0x3F8000"
    "spool_pos_addr (of_nat (commit_target s)) = res_header_addr (sp_reservation s)"
    "(of_nat (commit_target s) :: u32) + res_total_bytes (sp_reservation s) = sp_reserve_pos s"
proof -
  let ?r = "sp_reservation s"
  have i: "commit_target s + unat (res_total_bytes ?r) = unat (sp_reserve_pos s)"
      "res_header_addr ?r = spool_pos_addr (of_nat (commit_target s))"
      "commit_target s mod 0x100000 + unat (res_total_bytes ?r) \<le> 0x100000"
      "256 < unat (res_total_bytes ?r)" "256 dvd unat (res_total_bytes ?r)"
      "unat (res_source_record_bytes ?r) + 256 = unat (res_total_bytes ?r)"
      "res_type ?r \<noteq> 0" "unat (res_type ?r) < 5"
    using inv act by (simp_all add: queue_inv_def inv_res_def Let_def)
  show "res_type ?r \<noteq> 0" "unat (res_type ?r) < 5" "spool_pos_addr (of_nat (commit_target s)) = res_header_addr ?r"
    using i by simp_all
  show "res_source_record_bytes ?r \<noteq> 0" using i(4,6) by auto
  show "unat (res_source_record_bytes ?r) mod 256 = 0" using i(5,6) by presburger
  have t: "commit_target s < 4294967296" using i(1) unat_lt_32 [of "sp_reserve_pos s"] by linarith
  then have "unat (of_nat (commit_target s) :: u32) = commit_target s" by (simp add: unat_of_nat take_bit_nat_eq_self_iff)
  then show "unat (res_header_addr ?r) + 256 + unat (res_source_record_bytes ?r) \<le> 0x3F8000"
    using i(2,3,6) by (simp add: spool_addr_unat)
  show "(of_nat (commit_target s) :: u32) + res_total_bytes ?r = sp_reserve_pos s"
    using arg_cong [OF i(1), of "of_nat :: nat \<Rightarrow> u32"] by simp
qed

lemma header_step_commits:
  assumes R: "reliable_flash D mem" and inv: "queue_inv (w_spool w) recs"
    and act: "res_active (sp_reservation (w_spool w))"
    and len: "length (sp_page (w_spool w)) = 256" and er: "header_erased (mem (w_dev w)) (w_spool w)"
  obtains w' where "commit_header_step D w = (PUMP_PROGRESS, w')" "w_stress w' = w_stress w"
    "sp_reservation (w_spool w') = (sp_reservation (w_spool w))\<lparr>res_commit_state := COMMIT_HEADER_WIP\<rparr>"
    "sp_commit_pos (w_spool w') = of_nat (commit_target (w_spool w))"
    "sp_reserve_pos (w_spool w') = sp_reserve_pos (w_spool w)"
    "sp_session_id (w_spool w') = sp_session_id (w_spool w)" "length (sp_page (w_spool w')) = 256"
    "holds_at (mem (w_dev w')) (res_header_addr (sp_reservation (w_spool w)))
       (sp_page (spool_fill_header ((w_spool w)\<lparr>sp_commit_pos := of_nat (commit_target (w_spool w))\<rparr>)))"
proof -
  let ?s = "w_spool w" let ?a = "res_header_addr (sp_reservation ?s)"
  let ?u = "?s\<lparr>sp_commit_pos := of_nat (commit_target ?s)\<rparr>"
  let ?w2 = "on_spool spool_fill_header (on_spool (\<lambda>_. ?u) w)"
  let ?p = "sp_page (spool_fill_header ?u)"
  have lp: "length ?p = 256" using len by (intro fill_header_page(1)) simp
  obtain w3 where io: "spool_io_program D ?a ?p ?w2 = (IMU_STATUS_OK, w3)"
      "mem (w_dev w3) = programmed ?a ?p (mem (w_dev w))"
    using reliable_program [OF R, of ?a ?p ?w2] by auto
  have s3: "w_spool w3 = (spool_fill_header ?u)\<lparr>sp_page_retry_pending := True\<rparr>" "w_stress w3 = w_stress w"
    using io_program_frame [OF io(1)] by simp_all
  let ?w4 = "on_spool (\<lambda>s. inc sp_progress_seq_update (on_stats (inc st_header_programs_update)
    (on_res (\<lambda>r. r\<lparr>res_commit_state := COMMIT_HEADER_WIP\<rparr>) s))) w3"
  have eq: "commit_header_step D w = (PUMP_PROGRESS, ?w4)"
    unfolding commit_header_step_def Let_def skip_commit [OF inv] prod.case
    using io(1) reservation_header(6) [OF inv act] generation_always_valid by simp
  have ua: "unat ?a + length ?p < 4294967296" using reservation_header(5) [OF inv act] lp by simp
  have "holds_at (programmed ?a ?p (mem (w_dev w))) ?a ?p"
    unfolding holds_at_def
  proof (intro allI impI)
    fix i assume i: "i < length ?p"
    have "mem (w_dev w) (?a + of_nat i) = 0xFF"
      using er i lp by (simp add: header_erased_def holds_at_def)
    then show "programmed ?a ?p (mem (w_dev w)) (?a + of_nat i) = ?p ! i" by (rule programmed_in [OF ua i])
  qed
  then have "holds_at (mem (w_dev ?w4)) ?a ?p" using io(2) by simp
  moreover have f: "sp_reservation (spool_fill_header ?u) = sp_reservation ?s"
    "sp_commit_pos (spool_fill_header ?u) = of_nat (commit_target ?s)"
    "sp_reserve_pos (spool_fill_header ?u) = sp_reserve_pos ?s"
    "sp_session_id (spool_fill_header ?u) = sp_session_id ?s"
    by (simp_all add: spool_fill_header_def Let_def)
  ultimately show ?thesis using that [OF eq] s3 lp by (simp add: on_res_def on_stats_def)
qed

lemma verify_step_commits:
  assumes R: "reliable_flash D mem" and len: "length (sp_page (w_spool w)) = 256"
    and held: "holds_at (mem (w_dev w)) (res_header_addr (sp_reservation (w_spool w))) page" "length page = 256"
    and valid: "spool_validate_header page (res_header_addr (sp_reservation (w_spool w)))
      (spool_pos_generation (sp_commit_pos (w_spool w))) (w_spool w) = Some rc"
      "rec_record_id rc = res_record_id (sp_reservation (w_spool w))"
    and pos: "sp_commit_pos (w_spool w) + res_total_bytes (sp_reservation (w_spool w)) = sp_reserve_pos (w_spool w)"
  obtains w' where "commit_verify_step D w = (PUMP_COMMITTED, w')" "w_stress w' = w_stress w"
    "sp_commit_pos (w_spool w') = sp_reserve_pos (w_spool w)" "sp_reserve_pos (w_spool w') = sp_reserve_pos (w_spool w)"
    "\<not> res_active (sp_reservation (w_spool w'))" "mem (w_dev w') = mem (w_dev w)"
proof -
  let ?s = "w_spool w" let ?r = "sp_reservation ?s" let ?a = "res_header_addr ?r"
  have mp: "map (\<lambda>i. mem (w_dev w) (?a + of_nat i)) [0 ..< 256] = page"
    using held by (intro nth_equalityI) (simp_all add: holds_at_def)
  obtain w1 where rd: "spool_io_read D 1 ?a (take 256 (sp_page ?s)) w = (IMU_STATUS_OK, page, w1)"
      "mem (w_dev w1) = mem (w_dev w)"
    using reliable_read [OF R, of 1 ?a "take 256 (sp_page ?s)" w] len mp by auto
  let ?w1 = "on_spool (sp_page_update (put_at 0 page)) w1"
  have rp: "spool_read_page D 1 ?a 256 w = (IMU_STATUS_OK, ?w1)" by (simp add: spool_read_page_def rd(1))
  have s1: "w_spool w1 = ?s\<lparr>sp_page_retry_pending := False\<rparr>" "w_stress w1 = w_stress w"
    using io_read_frame [OF rd(1)] by simp_all
  have pg: "sp_page (w_spool ?w1) = page" using s1 len held(2) by (simp add: put_at_def)
  have v: "spool_validate_header (sp_page (w_spool ?w1)) ?a (spool_pos_generation (sp_commit_pos (w_spool ?w1)))
      (w_spool ?w1) = Some rc"
    unfolding pg using valid(1) s1 by (simp add: spool_validate_header_def)
  have cp: "sp_commit_pos (w_spool ?w1) + res_total_bytes ?r = sp_reserve_pos ?s"
    "sp_reserve_pos (w_spool ?w1) = sp_reserve_pos ?s" using pos s1 by simp_all
  let ?w2 = "on_spool commit_done (on_spool (sp_commit_pos_update (\<lambda>_. sp_reserve_pos ?s)) ?w1)"
  have eq: "commit_verify_step D w = (PUMP_COMMITTED, ?w2)"
    unfolding commit_verify_step_def Let_def rp prod.case v
    using valid(2) cp by simp
  show ?thesis
    by (rule that [OF eq]) (use s1 rd(2) in \<open>simp_all add: commit_done_def Let_def on_stats_def spool_refresh_stats_def reservation_zero_def\<close>)
qed

lemma header_commits:
  assumes R: "reliable_flash D mem" and inv: "queue_inv (w_spool w) recs"
    and r: "res_active (sp_reservation (w_spool w))" "res_data_done (sp_reservation (w_spool w))"
      "res_commit_state (sp_reservation (w_spool w)) = COMMIT_HEADER_READY"
      "res_capture_segment_id (sp_reservation (w_spool w)) \<noteq> 0"
    and len: "length (sp_page (w_spool w)) = 256" and er: "header_erased (mem (w_dev w)) (w_spool w)"
  shows "\<exists>w1. zy100_online_spool_commit_pump_once D True w = (PUMP_PROGRESS, w1) \<and>
    w_stress w1 = w_stress w \<and>
    (\<forall>v. w_spool v = w_spool w1 \<and> mem (w_dev v) = mem (w_dev w1) \<longrightarrow>
       (\<exists>v'. zy100_online_spool_commit_pump_once D True v = (PUMP_COMMITTED, v') \<and> w_stress v' = w_stress v \<and>
          sp_commit_pos (w_spool v') = sp_reserve_pos (w_spool w)))"
proof -
  let ?s = "w_spool w" let ?r = "sp_reservation ?s" let ?a = "res_header_addr ?r"
  let ?u = "?s\<lparr>sp_commit_pos := of_nat (commit_target ?s)\<rparr>"
  let ?p = "sp_page (spool_fill_header ?u)"
  obtain w2 where w2: "w_spool w2 = ?s" "w_stress w2 = w_stress w" "mem (w_dev w2) = mem (w_dev w)"
    "zy100_online_spool_commit_pump_once D True w = commit_header_step D w2"
    by (rule reliable_pump [OF R r(1,2)]) (use r(3) in blast)
  obtain w1 where h: "commit_header_step D w2 = (PUMP_PROGRESS, w1)" "w_stress w1 = w_stress w2"
    "sp_reservation (w_spool w1) = (sp_reservation (w_spool w2))\<lparr>res_commit_state := COMMIT_HEADER_WIP\<rparr>"
    "sp_commit_pos (w_spool w1) = of_nat (commit_target (w_spool w2))"
    "sp_reserve_pos (w_spool w1) = sp_reserve_pos (w_spool w2)"
    "sp_session_id (w_spool w1) = sp_session_id (w_spool w2)" "length (sp_page (w_spool w1)) = 256"
    "holds_at (mem (w_dev w1)) (res_header_addr (sp_reservation (w_spool w2)))
       (sp_page (spool_fill_header ((w_spool w2)\<lparr>sp_commit_pos := of_nat (commit_target (w_spool w2))\<rparr>)))"
    by (rule header_step_commits [OF R, of w2 recs]) (use w2 inv r len er in simp_all)
  note rh = reservation_header [OF inv r(1)]
  have pump2: "\<exists>v'. zy100_online_spool_commit_pump_once D True v = (PUMP_COMMITTED, v') \<and> w_stress v' = w_stress v \<and>
      sp_commit_pos (w_spool v') = sp_reserve_pos ?s"
    if v: "w_spool v = w_spool w1" "mem (w_dev v) = mem (w_dev w1)" for v
  proof -
    have vr: "sp_reservation (w_spool v) = ?r\<lparr>res_commit_state := COMMIT_HEADER_WIP\<rparr>" using v h(3) w2 by simp
    have vs: "res_active (sp_reservation (w_spool v))" "res_data_done (sp_reservation (w_spool v))"
      "res_commit_state (sp_reservation (w_spool v)) = COMMIT_HEADER_WIP" using vr r(1,2) by simp_all
    obtain v2 where v2: "w_spool v2 = w_spool v" "w_stress v2 = w_stress v" "mem (w_dev v2) = mem (w_dev v)"
      "zy100_online_spool_commit_pump_once D True v = commit_verify_step D
         (on_spool (on_res (\<lambda>r. r\<lparr>res_commit_state := COMMIT_HEADER_VERIFY\<rparr>)) v2)"
      by (rule reliable_pump [OF R vs(1,2)]) (use vs(3) in blast)
    let ?x = "on_spool (on_res (\<lambda>r. r\<lparr>res_commit_state := COMMIT_HEADER_VERIFY\<rparr>)) v2"
    have x: "sp_reservation (w_spool ?x) = ?r\<lparr>res_commit_state := COMMIT_HEADER_VERIFY\<rparr>"
      "sp_commit_pos (w_spool ?x) = of_nat (commit_target ?s)" "sp_reserve_pos (w_spool ?x) = sp_reserve_pos ?s"
      "sp_session_id (w_spool ?x) = sp_session_id ?s" "length (sp_page (w_spool ?x)) = 256"
      "mem (w_dev ?x) = mem (w_dev w1)"
      using v v2 vr h w2 by (simp_all add: on_res_def)
    have va: "spool_validate_header ?p ?a (spool_pos_generation (sp_commit_pos ?u)) (w_spool ?x) = Some (header_record ?u)"
      using validate_filled [of ?u "w_spool ?x"] len rh r(4) x(4) by simp
    obtain v' where "commit_verify_step D ?x = (PUMP_COMMITTED, v')" "w_stress v' = w_stress ?x"
      "sp_commit_pos (w_spool v') = sp_reserve_pos (w_spool ?x)"
    proof (rule verify_step_commits [OF R x(5), of ?p "header_record ?u"])
      show "holds_at (mem (w_dev ?x)) (res_header_addr (sp_reservation (w_spool ?x))) ?p"
        using h(8) w2(1) x(1,6) by simp
      show "length ?p = 256" using len by (intro fill_header_page(1)) simp
      show "spool_validate_header ?p (res_header_addr (sp_reservation (w_spool ?x)))
          (spool_pos_generation (sp_commit_pos (w_spool ?x))) (w_spool ?x) = Some (header_record ?u)"
        using va x(1,2) by simp
      show "rec_record_id (header_record ?u) = res_record_id (sp_reservation (w_spool ?x))"
        using x(1) by (simp add: header_record_def Let_def)
      show "sp_commit_pos (w_spool ?x) + res_total_bytes (sp_reservation (w_spool ?x)) = sp_reserve_pos (w_spool ?x)"
        using rh(7) x(1,2,3) by simp
    qed blast
    then show ?thesis using v2(2,4) x(3) by simp
  qed
  show ?thesis
    by (rule exI [of _ w1]) (use w2 h pump2 in simp)
qed
section \<open>A record in write steps\<close>

text \<open>The worker: \<open>n\<close> write steps, up to the first one that fails.\<close>

fun write_steps :: "'d device \<Rightarrow> nat \<Rightarrow> 'd world \<Rightarrow> bool \<times> 'd world" where
  "write_steps D 0 w = (True, w)"
| "write_steps D (Suc n) w =
     (case zy100_online_stress_write_step D w of
        (True, w') \<Rightarrow> write_steps D n w'
      | (False, w') \<Rightarrow> (False, w'))"

lemma write_steps_add:
  "write_steps D m w = (True, w1) \<Longrightarrow> write_steps D (m + n) w = write_steps D n w1"
  by (induction m arbitrary: w) (auto split: prod.splits bool.splits)

text \<open>The spool is ready for the commit of the record being written.\<close>

definition commit_ready :: "(u32 \<Rightarrow> u8) \<Rightarrow> spool_state \<Rightarrow> ghost \<Rightarrow> bool" where
  "commit_ready m s recs \<longleftrightarrow> queue_inv s recs \<and> length (sp_page s) = 256 \<and>
     res_capture_segment_id (sp_reservation s) \<noteq> 0 \<and> header_erased m s"

lemma commit_ready_follows:
  assumes "commit_ready m s recs" "spool_follows full s s'"
    and "\<And>i. i < 256 \<Longrightarrow> m' (res_header_addr (sp_reservation s) + of_nat i) = m (res_header_addr (sp_reservation s) + of_nat i)"
  shows "commit_ready m' s' recs"
  using assms(1,3) spool_follows_spec [OF assms(2)]
  by (simp add: commit_ready_def header_erased_def holds_at_def)

text \<open>A page of the record does not touch the header page before it.\<close>

lemma page_spares_header:
  assumes inv: "queue_inv (w_spool w) recs" and rm: "record_room w"
    and rs: "writer_reserved (w_stress w) (sp_reservation (w_spool w))" and i: "i < 256"
    and o: "unat (write_page_addr (w_stress w)) =
      unat (tgt_data_addr (os_target (w_stress w))) + unat (os_page_offset (w_stress w))"
  shows "programmed (write_page_addr (w_stress w)) page m (res_header_addr (sp_reservation (w_spool w)) + of_nat i) =
    m (res_header_addr (sp_reservation (w_spool w)) + of_nat i)"
proof (rule programmed_out, rule disjI1)
  let ?r = "sp_reservation (w_spool w)"
  have act: "res_active ?r" using rs by (simp add: writer_reserved_def)
  note rh = reservation_header [OF inv act]
  have d: "tgt_data_addr (os_target (w_stress w)) = res_header_addr ?r + 256"
    using rs inv act by (simp add: writer_reserved_def queue_inv_def inv_res_def Let_def)
  have "unat (res_header_addr ?r + 256) = unat (res_header_addr ?r) + 256"
    using rh(5) by (subst unat_add_32) simp_all
  moreover have "unat (res_header_addr ?r + of_nat i) = unat (res_header_addr ?r) + i"
    using rh(5) i by (subst unat_add_32) (simp_all add: unat_of_nat take_bit_nat_eq_self_iff)
  ultimately show "unat (res_header_addr ?r + of_nat i) < unat (write_page_addr (w_stress w))"
    unfolding o d using i by simp
qed

text \<open>The state between two pages.\<close>

definition between_pages :: "('d \<Rightarrow> u32 \<Rightarrow> u8) \<Rightarrow> ghost \<Rightarrow> 'd world \<Rightarrow> u8 list \<Rightarrow> bool" where
  "between_pages mem recs w bs \<longleftrightarrow> writer_ok (w_stress w) (sp_reservation (w_spool w)) bs \<and>
     src_error (os_source (w_stress w)) = 0 \<and> record_room w \<and> on_track (mem (w_dev w)) (w_stress w) bs \<and>
     commit_ready (mem (w_dev w)) (w_spool w) recs"

lemma on_track_waiting [simp]:
  "on_track m (os_io_waiting_update f s) bs = on_track m s bs"
  "write_page_addr (os_io_waiting_update f s) = write_page_addr s"
  by (simp_all add: on_track_def write_page_addr_def)

lemma record_room_waiting [simp]: "record_room (on_stress (os_io_waiting_update f) w) = record_room w"
  by (simp add: record_room_def)

lemma between_waiting [simp]:
  "between_pages mem recs (on_stress (os_io_waiting_update f) w) bs = between_pages mem recs w bs"
  by (simp add: between_pages_def)

text \<open>Two steps per page; the first is given by what it does after a possible reservation.\<close>

lemma page_pair:
  assumes R: "reliable_flash D mem" and b: "between_pages mem recs v bs" and ph: "os_phase (w_stress v) = 1"
    and first: "zy100_online_stress_write_step D w = write_program D (write_page_addr (w_stress v)) v"
  shows "\<exists>w' page. write_steps D 2 w = (True, w') \<and> length page = 256 \<and> between_pages mem recs w' (bs @ page) \<and>
    spool_follows (os_page_offset (w_stress v) + 256 = os_record_bytes (w_stress v)) (w_spool v) (w_spool w') \<and>
    os_phase (w_stress w') =
      (if os_page_offset (w_stress v) + 256 = os_record_bytes (w_stress v) then 3 else 1) \<and>
    os_page_offset (w_stress w') = os_page_offset (w_stress v) + 256 \<and>
    os_record_bytes (w_stress w') = os_record_bytes (w_stress v) \<and>
    os_target (w_stress w') = os_target (w_stress v)"
proof -
  have v: "writer_ok (w_stress v) (sp_reservation (w_spool v)) bs"
    "src_error (os_source (w_stress v)) = 0" "record_room v" "on_track (mem (w_dev v)) (w_stress v) bs"
    and c: "commit_ready (mem (w_dev v)) (w_spool v) recs"
    using b by (simp_all add: between_pages_def)
  obtain w1 page1 where p: "write_program D (write_page_addr (w_stress v)) v = (True, w1)" "length page1 = 256"
    "mem (w_dev w1) = programmed (write_page_addr (w_stress v)) page1 (mem (w_dev v))"
    "spool_follows False (w_spool v) (w_spool w1)"
    "writer_ok (w_stress w1) (sp_reservation (w_spool w1)) bs"
    "os_phase (w_stress w1) = 2" "src_error (os_source (w_stress w1)) = 0" "record_room w1"
    "on_track (mem (w_dev w1)) (w_stress w1) bs"
    "os_page_offset (w_stress w1) = os_page_offset (w_stress v)"
    "os_record_bytes (w_stress w1) = os_record_bytes (w_stress v)"
    "os_target (w_stress w1) = os_target (w_stress v)"
    using program_on_track [OF R v(1) ph v(2-4)] by blast
  have rec: "writer_record (w_stress v) bs" and rs: "writer_reserved (w_stress v) (sp_reservation (w_spool v))"
    and lt: "os_page_offset (w_stress v) < os_record_bytes (w_stress v)"
    using v ph by (simp_all add: writer_ok_def)
  note pr = page_range [OF v(3) rs record_dvd [OF rec] lt]
  have qi: "queue_inv (w_spool v) recs" using c by (simp add: commit_ready_def)
  have c1: "commit_ready (mem (w_dev w1)) (w_spool w1) recs"
    by (rule commit_ready_follows [OF c p(4)])
      (simp add: p(3) page_spares_header [OF qi v(3) rs _ pr(1)])
  let ?w1 = "on_stress (os_io_waiting_update (\<lambda>_. False)) w1"
  have w1: "writer_ok (w_stress ?w1) (sp_reservation (w_spool ?w1)) bs" "os_phase (w_stress ?w1) = 2"
    "src_error (os_source (w_stress ?w1)) = 0" "record_room ?w1" "on_track (mem (w_dev ?w1)) (w_stress ?w1) bs"
    using p by simp_all
  obtain w2 page where q: "write_verify D (write_page_addr (w_stress ?w1)) ?w1 = (True, w2)" "length page = 256"
    "mem (w_dev w2) = mem (w_dev ?w1)"
    "spool_follows (os_page_offset (w_stress ?w1) + 256 = os_record_bytes (w_stress ?w1)) (w_spool ?w1) (w_spool w2)"
    "writer_ok (w_stress w2) (sp_reservation (w_spool w2)) (bs @ page)"
    "os_phase (w_stress w2) =
      (if os_page_offset (w_stress ?w1) + 256 = os_record_bytes (w_stress ?w1) then 3 else 1)"
    "src_error (os_source (w_stress w2)) = 0" "record_room w2"
    "on_track (mem (w_dev w2)) (w_stress w2) (bs @ page)"
    "os_page_offset (w_stress w2) = os_page_offset (w_stress ?w1) + 256"
    "os_record_bytes (w_stress w2) = os_record_bytes (w_stress ?w1)"
    "os_target (w_stress w2) = os_target (w_stress ?w1)"
    using verify_on_track [OF R w1] by blast
  have c2: "commit_ready (mem (w_dev w2)) (w_spool w2) recs"
    by (rule commit_ready_follows [OF c1, of "os_page_offset (w_stress ?w1) + 256 = os_record_bytes (w_stress ?w1)"])
      (use q(3,4) in simp_all)
  have s2: "zy100_online_stress_write_step D w1 = (True, w2)"
    using write_step_phase(2) [OF p(7,6)] q(1) by simp
  have steps: "write_steps D 2 w = (True, w2)" by (simp add: numeral_2_eq_2 first p(1) s2)
  have sf: "spool_follows (os_page_offset (w_stress v) + 256 = os_record_bytes (w_stress v)) (w_spool v) (w_spool w2)"
    using p(4,10,11) q(4) by (auto simp: spool_follows_def)
  have "between_pages mem recs w2 (bs @ page)"
    unfolding between_pages_def using q c2 by blast
  then show ?thesis
    using steps sf q p by (intro exI [of _ w2] exI [of _ page]) simp
qed

text \<open>The pages left of a record, two steps each.\<close>

lemma pages_steps:
  assumes R: "reliable_flash D mem"
  shows "between_pages mem recs v bs \<Longrightarrow> os_phase (w_stress v) = 1 \<Longrightarrow>
    zy100_online_stress_write_step D w = write_program D (write_page_addr (w_stress v)) v \<Longrightarrow>
    unat (os_record_bytes (w_stress v)) = unat (os_page_offset (w_stress v)) + 256 * Suc k \<Longrightarrow>
    \<exists>w' bs'. write_steps D (2 * Suc k) w = (True, w') \<and> between_pages mem recs w' bs' \<and>
      os_phase (w_stress w') = 3 \<and> os_target (w_stress w') = os_target (w_stress v) \<and>
      os_record_bytes (w_stress w') = os_record_bytes (w_stress v) \<and>
      res_active (sp_reservation (w_spool w')) \<and> res_data_done (sp_reservation (w_spool w')) \<and>
      res_commit_state (sp_reservation (w_spool w')) = COMMIT_HEADER_READY"
proof (induction k arbitrary: v w bs)
  case 0
  obtain w' page where s: "write_steps D 2 w = (True, w')" "between_pages mem recs w' (bs @ page)"
    "spool_follows (os_page_offset (w_stress v) + 256 = os_record_bytes (w_stress v)) (w_spool v) (w_spool w')"
    "os_phase (w_stress w') = (if os_page_offset (w_stress v) + 256 = os_record_bytes (w_stress v) then 3 else 1)"
    "os_target (w_stress w') = os_target (w_stress v)" "os_record_bytes (w_stress w') = os_record_bytes (w_stress v)"
    using page_pair [OF R 0(1-3)] by blast
  have "unat (os_page_offset (w_stress v) + 256) = unat (os_page_offset (w_stress v)) + 256"
    using 0(4) unat_lt_32 [of "os_record_bytes (w_stress v)"] by (subst unat_add_32) simp_all
  then have full: "os_page_offset (w_stress v) + 256 = os_record_bytes (w_stress v)"
    using 0(4) by (metis mult.right_neutral One_nat_def word_unat_eq_iff)
  then show ?case using s spool_follows_spec(5) [OF s(3) full] by auto
next
  case (Suc k)
  obtain w' page where s: "write_steps D 2 w = (True, w')" "between_pages mem recs w' (bs @ page)"
    "os_phase (w_stress w') = (if os_page_offset (w_stress v) + 256 = os_record_bytes (w_stress v) then 3 else 1)"
    "os_page_offset (w_stress w') = os_page_offset (w_stress v) + 256"
    "os_record_bytes (w_stress w') = os_record_bytes (w_stress v)" "os_target (w_stress w') = os_target (w_stress v)"
    using page_pair [OF R Suc.prems(1-3)] by blast
  have o: "unat (os_page_offset (w_stress v) + 256) = unat (os_page_offset (w_stress v)) + 256"
    using Suc.prems(4) unat_lt_32 [of "os_record_bytes (w_stress v)"] by (subst unat_add_32) simp_all
  then have "os_page_offset (w_stress v) + 256 \<noteq> os_record_bytes (w_stress v)" using Suc.prems(4) by auto
  then have ph: "os_phase (w_stress w') = 1" using s(3) by simp
  let ?v = "on_stress (os_io_waiting_update (\<lambda>_. False)) w'"
  have v: "between_pages mem recs ?v (bs @ page)" "os_phase (w_stress ?v) = 1" using s(2) ph by simp_all
  have "src_error (os_source (w_stress w')) = 0" using s(2) by (simp add: between_pages_def)
  then have st: "zy100_online_stress_write_step D w' = write_program D (write_page_addr (w_stress ?v)) ?v"
    using write_step_phase(1) [OF _ ph] by simp
  have "unat (os_record_bytes (w_stress ?v)) = unat (os_page_offset (w_stress ?v)) + 256 * Suc k"
    using Suc.prems(4) s(4,5) o by simp
  from Suc.IH [OF v st this] obtain w2 bs' where
    t: "write_steps D (2 * Suc k) w' = (True, w2)" "between_pages mem recs w2 bs'" "os_phase (w_stress w2) = 3"
    "os_target (w_stress w2) = os_target (w_stress ?v)" "os_record_bytes (w_stress w2) = os_record_bytes (w_stress ?v)"
    "res_active (sp_reservation (w_spool w2)) \<and> res_data_done (sp_reservation (w_spool w2)) \<and>
      res_commit_state (sp_reservation (w_spool w2)) = COMMIT_HEADER_READY"
    by blast
  have "write_steps D (2 * Suc (Suc k)) w = (True, w2)"
    using write_steps_add [OF s(1), of "2 * Suc k"] t(1) by (simp only: mult_Suc_right)
  then show ?case using t s by auto
qed

text \<open>Two more steps commit the record.\<close>

lemma commit_step_pending:
  assumes "src_error (os_source (w_stress w)) = 0" "os_phase (w_stress w) = 3"
    and p: "zy100_online_spool_commit_pump_once D True (zy100_online_stress_diag_stage D ZY100_SD_COMMIT
       (on_stress (os_io_waiting_update (\<lambda>_. False)) w)) = (PUMP_PROGRESS, w2)"
  shows "zy100_online_stress_write_step D w = (True, on_stress (inc os_flash_wait_update) w2)"
  using write_step_phase(3) [OF assms(1,2), of D] by (simp add: write_commit_def p)

lemma commit_step_final:
  assumes R: "reliable_flash D mem" and "src_error (os_source (w_stress w)) = 0" "os_phase (w_stress w) = 3"
    and p: "zy100_online_spool_commit_pump_once D True (zy100_online_stress_diag_stage D ZY100_SD_COMMIT
       (on_stress (os_io_waiting_update (\<lambda>_. False)) w)) = (PUMP_COMMITTED, w2)"
  shows "\<exists>w'. zy100_online_stress_write_step D w = (True, w') \<and> w_spool w' = w_spool w2 \<and>
    os_phase (w_stress w') = 0 \<and> os_source (w_stress w') = os_source (w_stress w2) \<and>
    os_committed (w_stress w') = os_committed (w_stress w2) + os_record_data (w_stress w2) \<and>
    mem (w_dev w') = mem (w_dev w2)"
proof -
  obtain t1 w3 where t1: "os_time_ms D w2 = (t1, w3)" by fastforce
  let ?w4 = "on_stress (\<lambda>s. s\<lparr>os_committed := os_committed s + os_record_data s\<rparr>)
                    (on_diag (zy100_stress_diag_record_end t1) w3)"
  obtain t2 w5 where t2: "os_time_ms D ?w4 = (t2, w5)" by fastforce
  have s: "w_spool w3 = w_spool w2" "w_stress w3 = w_stress w2" "mem (w_dev w3) = mem (w_dev w2)"
    "w_spool w5 = w_spool ?w4" "w_stress w5 = w_stress ?w4" "mem (w_dev w5) = mem (w_dev ?w4)"
    using os_time_frame [OF t1] os_time_frame [OF t2] mem_clocks(2) [OF R t1] mem_clocks(2) [OF R t2] by simp_all
  have "zy100_online_stress_write_step D w = (True, on_stress (\<lambda>s. s\<lparr>
         os_record_max_ms := maximum (os_record_max_ms s) (t2 - os_record_start_ms s),
         os_phase := 0, os_target := (os_target s)\<lparr>tgt_token := 0\<rparr>\<rparr>) w5)"
    using write_step_phase(3) [OF assms(2,3), of D] by (simp add: write_commit_def p t1 t2)
  then show ?thesis using s by simp
qed

lemma commit_steps:
  assumes R: "reliable_flash D mem" and ph: "os_phase (w_stress w) = 3"
    and e0: "src_error (os_source (w_stress w)) = 0" and c: "commit_ready (mem (w_dev w)) (w_spool w) recs"
    and r: "res_active (sp_reservation (w_spool w))" "res_data_done (sp_reservation (w_spool w))"
      "res_commit_state (sp_reservation (w_spool w)) = COMMIT_HEADER_READY"
  shows "\<exists>w'. write_steps D 2 w = (True, w') \<and> os_phase (w_stress w') = 0 \<and>
    src_error (os_source (w_stress w')) = 0 \<and>
    os_committed (w_stress w') = os_committed (w_stress w) + os_record_data (w_stress w) \<and>
    sp_commit_pos (w_spool w') = sp_reserve_pos (w_spool w)"
proof -
  let ?v = "\<lambda>w. zy100_online_stress_diag_stage D ZY100_SD_COMMIT (on_stress (os_io_waiting_update (\<lambda>_. False)) w)"
  have v: "w_spool (?v x) = w_spool x" "mem (w_dev (?v x)) = mem (w_dev x)"
    "w_stress (?v x) = (w_stress x)\<lparr>os_io_waiting := False\<rparr>" for x using R by simp_all
  have hyp: "queue_inv (w_spool (?v w)) recs" "length (sp_page (w_spool (?v w))) = 256"
    "header_erased (mem (w_dev (?v w))) (w_spool (?v w))"
    "res_active (sp_reservation (w_spool (?v w)))" "res_data_done (sp_reservation (w_spool (?v w)))"
    "res_commit_state (sp_reservation (w_spool (?v w))) = COMMIT_HEADER_READY"
    "res_capture_segment_id (sp_reservation (w_spool (?v w))) \<noteq> 0"
    unfolding v(1,2) using c r by (simp_all add: commit_ready_def)
  obtain w1 where w1: "zy100_online_spool_commit_pump_once D True (?v w) = (PUMP_PROGRESS, w1)"
    "w_stress w1 = w_stress (?v w)"
    "\<forall>x. w_spool x = w_spool w1 \<and> mem (w_dev x) = mem (w_dev w1) \<longrightarrow>
      (\<exists>x'. zy100_online_spool_commit_pump_once D True x = (PUMP_COMMITTED, x') \<and> w_stress x' = w_stress x \<and>
        sp_commit_pos (w_spool x') = sp_reserve_pos (w_spool (?v w)))"
    using header_commits [OF R hyp(1,4-7,2,3)] by (elim exE conjE) (rule that, assumption+)
  let ?u = "on_stress (inc os_flash_wait_update) w1"
  have s1: "zy100_online_stress_write_step D w = (True, ?u)" by (rule commit_step_pending [OF e0 ph w1(1)])
  have u: "w_stress ?u = (w_stress w)\<lparr>os_io_waiting := False, os_flash_wait := os_flash_wait (w_stress w) + 1\<rparr>"
    using w1(2) v(3) by simp
  have "w_spool (?v ?u) = w_spool w1" "mem (w_dev (?v ?u)) = mem (w_dev w1)"
    using v(1,2) [of ?u] by simp_all
  then have "\<exists>x'. zy100_online_spool_commit_pump_once D True (?v ?u) = (PUMP_COMMITTED, x') \<and>
      w_stress x' = w_stress (?v ?u) \<and> sp_commit_pos (w_spool x') = sp_reserve_pos (w_spool w)"
    using w1(3) [rule_format, of "?v ?u"] v(1) [of w] by simp
  then obtain x' where x: "zy100_online_spool_commit_pump_once D True (?v ?u) = (PUMP_COMMITTED, x')"
    "w_stress x' = w_stress (?v ?u)" "sp_commit_pos (w_spool x') = sp_reserve_pos (w_spool w)"
    by (elim exE conjE) (rule that, assumption+)
  have sx: "os_source (w_stress x') = os_source (w_stress w)" "os_committed (w_stress x') = os_committed (w_stress w)"
    "os_record_data (w_stress x') = os_record_data (w_stress w)" using x(2) v(3) u by simp_all
  have "src_error (os_source (w_stress ?u)) = 0" "os_phase (w_stress ?u) = 3" using u e0 ph by simp_all
  then obtain w' where w': "zy100_online_stress_write_step D ?u = (True, w')" "w_spool w' = w_spool x'"
    "os_phase (w_stress w') = 0" "os_source (w_stress w') = os_source (w_stress x')"
    "os_committed (w_stress w') = os_committed (w_stress x') + os_record_data (w_stress x')"
    using commit_step_final [OF R _ _ x(1)] by blast
  have "write_steps D 2 w = (True, w')" by (simp add: numeral_2_eq_2 s1 w'(1))
  then show ?thesis using w' x(3) sx e0 by auto
qed

section \<open>From the reservation to the commit\<close>

lemma reserve_stress_more:
  assumes "zy100_online_spool_reserve_stress sid rb pb (Some t0) s = (RESERVE_OK, tgt, s')"
  shows "res_capture_segment_id (sp_reservation s') = sp_capture_segment_id s \<and> sp_capture_segment_id s \<noteq> 0"
    "sp_page s' = sp_page s" "sp_erase_wip s' = sp_erase_wip s"
proof -
  let ?s = "reserve_attempt 4 s"
  have "reserve_checked 4 sid rb pb (Some t0) ?s = (RESERVE_OK, tgt, s')"
    using assms by (simp add: zy100_online_spool_reserve_stress_def spool_provider_reserve_def)
  then obtain pl t where
    rc: "reserve_commit_plan 4 sid rb pb pl (?s\<lparr>sp_reservation := reservation_zero,
          sp_next_record_id := sp_next_record_id ?s + 1, sp_next_token := sp_next_token ?s + 1\<rparr>) = (t, s')"
    and c: "sp_capture_segment_id ?s \<noteq> 0"
    using reserve_checked_cases [of 4 sid rb pb "Some t0" ?s RESERVE_OK tgt s'] by auto
  let ?z = "?s\<lparr>sp_reservation := reservation_zero, sp_next_record_id := sp_next_record_id ?s + 1,
      sp_next_token := sp_next_token ?s + 1\<rparr>"
  have s': "s' = snd (reserve_commit_plan 4 sid rb pb pl ?z)" using rc by simp
  have z: "sp_capture_segment_id ?z = sp_capture_segment_id s" "sp_page ?z = sp_page s" "sp_erase_wip ?z = sp_erase_wip s"
    by (simp_all add: reserve_attempt_def Let_def on_stats_def)
  have "res_capture_segment_id (sp_reservation s') = sp_capture_segment_id ?z"
    unfolding s' reserve_commit_plan_def Let_def mark_used_eq prod.case fst_conv snd_conv
    by (simp add: on_stats_def spool_refresh_stats_def Let_def reservation_zero_def)
  then show "res_capture_segment_id (sp_reservation s') = sp_capture_segment_id s \<and> sp_capture_segment_id s \<noteq> 0"
    using z(1) c by (simp add: reserve_attempt_def Let_def on_stats_def)
  show "sp_page s' = sp_page s" "sp_erase_wip s' = sp_erase_wip s"
    unfolding s' z [symmetric] reserve_commit_plan_def Let_def mark_used_eq prod.case fst_conv snd_conv
    by (simp_all add: on_stats_def spool_refresh_stats_def Let_def reservation_zero_def)
qed

text \<open>A write step that begins a record.\<close>

lemma write_start_none:
  assumes w: "writer_ok (w_stress w) (sp_reservation (w_spool w)) bs" and p0: "os_phase (w_stress w) = 0"
    and e0: "src_error (os_source (w_stress w)) = 0" and out: "write_start D w = (None, w1)"
  obtains sid pb t sp where
    "zy100_online_spool_reserve_stress sid (os_record_bytes (w_stress w1)) pb (Some (os_target (w_stress w)))
       (w_spool w) = (RESERVE_OK, Some t, sp)" "w_spool w1 = sp" "os_target (w_stress w1) = t"
    "os_page_offset (w_stress w1) = 0"
    "\<And>mem. reliable_flash D mem \<Longrightarrow> mem (w_dev w1) = mem (w_dev w)"
proof -
  let ?s = "w_stress w" and ?src = "os_source (w_stress w)"
  let ?b = "src_rate ?src div 50"
  let ?n = "ucast (src_used ?src) div ?b"
  have f: "?b \<noteq> 0" "\<not> (?n < 2 \<and> \<not> src_frozen ?src)" "?n \<noteq> 0"
    using out unfolding write_start_def Let_def by (auto split: if_splits)
  define data where "data = (if ?n > 2 then 2 else ?n) * ?b"
  define bytes where "bytes = (64 + data + 255) AND NOT 255"
  let ?w1 = "on_stress (\<lambda>s. s\<lparr>os_record_data := data, os_record_bytes := bytes\<rparr>) w"
  let ?w2 = "zy100_online_stress_diag_stage D ZY100_SD_RESERVE ?w1"
  obtain k t sp where rs: "zy100_online_spool_reserve_stress (src_consumed ?src div ?b + 1) bytes data
      (Some (os_target (w_stress ?w2))) (w_spool ?w2) = (k, t, sp)" by (rule prod_cases3)
  let ?w3 = "on_stress (os_target_update (\<lambda>_. the t)) (on_spool (\<lambda>_. sp) ?w2)"
  have eq: "write_start D w = (if k = RESERVE_ERROR
      then let (r, w4) = stress_fail D ZY100_STRESS_RESERVE ?w3 in (Some r, w4)
      else if k \<noteq> RESERVE_OK then let (r, w4) = write_reserve_wait D k ?w3 in (Some r, w4)
      else (None, write_record_begin D ?w3))"
    unfolding write_start_def Let_def if_not_P [OF f(1)] if_not_P [OF f(2)] if_not_P [OF f(3)]
      data_def [symmetric] bytes_def [symmetric] rs prod.case ..
  have k: "k = RESERVE_OK" and w1: "w1 = write_record_begin D ?w3"
    using out unfolding eq by (auto split: if_splits prod.splits)
  obtain now where st: "w_stress w1 = record_begun data bytes (the t) now (w_stress ?w3)"
    using record_begin_fields(1) [of D ?w3] w1 by auto
  obtain t' where t': "t = Some t'" using reserve_stress_fields [OF rs [unfolded k]] by blast
  obtain nw w4 where nw: "os_time_ms D (on_stress (\<lambda>s. s\<lparr>os_data_left := os_record_data s\<rparr>) ?w3) = (nw, w4)"
    by fastforce
  have m: "mem (w_dev w1) = mem (w_dev w)" if R: "reliable_flash D mem" for mem :: "_ \<Rightarrow> u32 \<Rightarrow> u8"
    using mem_clocks(2) [OF R nw] R by (simp add: w1 write_record_begin_def Let_def nw)
  show ?thesis
    by (rule that [of _ _ t' sp]) (use rs k t' st record_begin_fields(2) [of D ?w3] w1 m in
      \<open>simp_all add: record_begun_def\<close>)
qed

definition erased_between :: "(u32 \<Rightarrow> u8) \<Rightarrow> nat \<Rightarrow> nat \<Rightarrow> bool" where
  "erased_between m a b \<longleftrightarrow> (\<forall>x. a \<le> unat x \<and> unat x < b \<longrightarrow> m x = 0xFF)"

lemma record_begins:
  assumes R: "reliable_flash D mem" and w: "writer_ok (w_stress w) (sp_reservation (w_spool w)) bs"
    and p0: "os_phase (w_stress w) = 0" and e0: "src_error (os_source (w_stress w)) = 0"
    and out: "write_start D w = (None, w1)" and inv: "queue_inv (w_spool w) recs"
    and sp: "length (sp_page (w_spool w)) = 256" "\<not> sp_erase_wip (w_spool w)"
    and er: "erased_between (mem (w_dev w)) (unat (tgt_data_addr (os_target (w_stress w1))) - 256)
      (unat (tgt_data_addr (os_target (w_stress w1))) + unat (os_record_bytes (w_stress w1)))"
  shows "between_pages mem recs w1 [] \<and> os_phase (w_stress w1) = 1 \<and> os_page_offset (w_stress w1) = 0 \<and>
    (\<exists>k. unat (os_record_bytes (w_stress w1)) = 256 * Suc k)"
proof -
  let ?s = "w_stress w1" let ?t = "tgt_data_addr (os_target ?s)"
  obtain sid pb t s' where rs: "zy100_online_spool_reserve_stress sid (os_record_bytes ?s) pb
       (Some (os_target (w_stress w))) (w_spool w) = (RESERVE_OK, Some t, s')" "w_spool w1 = s'"
    "os_target ?s = t" "os_page_offset ?s = 0" "mem (w_dev w1) = mem (w_dev w)"
    using write_start_none [OF w p0 e0 out] R by metis
  have ok: "writer_ok ?s (sp_reservation (w_spool w1)) []" "os_phase ?s = 1" "src_error (os_source ?s) = 0"
    using write_start_ok [OF w p0 e0 out] by simp_all
  have rec: "writer_record ?s []" and rsv: "writer_reserved ?s (sp_reservation (w_spool w1))"
    using ok by (simp_all add: writer_ok_def)
  have v: "zy100_stress_rate_valid (src_rate (os_source ?s))" using ok_stable [OF ok(1)] by (simp add: writer_stable_def)
  have "stress_block ?s \<le> 1920" using rate_block(2) [OF v] by (simp add: stress_block_def)
  then have d: "unat (os_record_data ?s) \<le> 3840" using rec unfolding writer_record_def by linarith
  have rb: "unat (os_record_bytes ?s) = 256 * ((64 + unat (os_record_data ?s) + 255) div 256)"
    using rec by (simp add: writer_record_def)
  have k: "\<exists>k. unat (os_record_bytes ?s) = 256 * Suc k"
    unfolding rb by (rule exI [of _ "(64 + unat (os_record_data ?s) + 255) div 256 - 1"]) simp
  have small: "unat (os_record_bytes ?s) < 0xFFFFFF00" using rb d by linarith
  have inv1: "queue_inv (w_spool w1) recs"
    using reserve_inv [OF inv small] rs(1,2) by (simp add: zy100_online_spool_reserve_stress_def)
  have act: "res_active (sp_reservation (w_spool w1))" using rsv by (simp add: writer_reserved_def)
  note rh = reservation_header [OF inv1 act]
  let ?h = "res_header_addr (sp_reservation (w_spool w1))"
  have th: "?t = ?h + 256" "res_source_record_bytes (sp_reservation (w_spool w1)) = os_record_bytes ?s"
    using rsv inv1 act by (simp_all add: writer_reserved_def queue_inv_def inv_res_def Let_def)
  have ut: "unat ?t = unat ?h + 256" unfolding th(1) using rh(5) by (subst unat_add_32) simp_all
  have "256 dvd unat ?h"
  proof -
    have "256 dvd commit_target (w_spool w1)"
    proof -
      have "commit_target (w_spool w1) + unat (res_total_bytes (sp_reservation (w_spool w1))) =
          unat (sp_reserve_pos (w_spool w1))" "256 dvd unat (res_total_bytes (sp_reservation (w_spool w1)))"
        using inv1 act by (simp_all add: queue_inv_def inv_res_def Let_def)
      then show ?thesis using inv_positions(8) [OF inv1] by (metis dvd_add_left_iff)
    qed
    then have "256 dvd commit_target (w_spool w1) mod 0x100000" by (simp add: dvd_mod_iff)
    moreover have "unat ?h = 0x2F8000 + commit_target (w_spool w1) mod 0x100000"
    proof -
      have "commit_target (w_spool w1) < 4294967296"
        using inv1 act unat_lt_32 [of "sp_reserve_pos (w_spool w1)"] by (simp add: queue_inv_def inv_res_def Let_def)
      then have "unat (of_nat (commit_target (w_spool w1)) :: u32) = commit_target (w_spool w1)"
        by (simp add: unat_of_nat take_bit_nat_eq_self_iff)
      then show ?thesis using spool_addr_unat [of "of_nat (commit_target (w_spool w1))"] rh(6) by simp
    qed
    ultimately show ?thesis by (simp add: dvd_add_right_iff)
  qed
  then have al: "256 dvd unat ?t" using ut by simp
  have top: "unat ?t + unat (os_record_bytes ?s) < 4294967296" using rh(5) th(2) ut by simp
  note more = reserve_stress_more [OF rs(1)]
  have room: "record_room w1" using al top more(3) rs(2) sp(2) by (simp add: record_room_def)
  have er1: "mem (w_dev w1) x = 0xFF" if "unat ?h \<le> unat x" "unat x < unat ?t + unat (os_record_bytes ?s)" for x
    using er that ut rs(5) by (simp add: erased_between_def)
  have tr: "on_track (mem (w_dev w1)) ?s []"
    using ok(2) rs(4) ut by (simp add: on_track_def holds_at_def er1)
  have "mem (w_dev w1) (?h + of_nat i) = 0xFF" if i: "i < 256" for i
  proof -
    have "unat (?h + of_nat i) = unat ?h + i"
      using rh(5) i by (subst unat_add_32) (simp_all add: unat_of_nat take_bit_nat_eq_self_iff)
    then show ?thesis using i ut by (intro er1) simp_all
  qed
  then have "commit_ready (mem (w_dev w1)) (w_spool w1) recs"
    using inv1 more(1,2) sp rs(2) by (simp add: commit_ready_def header_erased_def holds_at_def)
  then show ?thesis using ok room tr k rs(4) by (simp add: between_pages_def)
qed

text \<open>All pages of a record, from the step that begins it.\<close>

lemma record_pages:
  assumes R: "reliable_flash D mem" and w: "writer_ok (w_stress w) (sp_reservation (w_spool w)) bs"
    and "queue_inv (w_spool w) recs" "length (sp_page (w_spool w)) = 256" "\<not> sp_erase_wip (w_spool w)"
    and "os_phase (w_stress w) = 0" "src_error (os_source (w_stress w)) = 0"
    and "write_start D (on_stress (os_io_waiting_update (\<lambda>_. False)) w) = (None, w1)"
    and "erased_between (mem (w_dev w)) (unat (tgt_data_addr (os_target (w_stress w1))) - 256)
      (unat (tgt_data_addr (os_target (w_stress w1))) + unat (os_record_bytes (w_stress w1)))"
  shows "\<exists>v bs'. write_steps D (2 * (unat (os_record_bytes (w_stress w1)) div 256)) w = (True, v) \<and>
    between_pages mem recs v bs' \<and> os_phase (w_stress v) = 3 \<and> os_target (w_stress v) = os_target (w_stress w1) \<and>
    res_active (sp_reservation (w_spool v)) \<and> res_data_done (sp_reservation (w_spool v)) \<and>
    res_commit_state (sp_reservation (w_spool v)) = COMMIT_HEADER_READY"
proof -
  let ?w = "on_stress (os_io_waiting_update (\<lambda>_. False)) w"
  have ok: "writer_ok (w_stress ?w) (sp_reservation (w_spool ?w)) bs" using w by simp
  obtain k where b: "between_pages mem recs w1 []" "os_phase (w_stress w1) = 1" "os_page_offset (w_stress w1) = 0"
    "unat (os_record_bytes (w_stress w1)) = 256 * Suc k"
    using record_begins [OF R ok _ _ assms(8), of recs] assms(3-7,9) by auto
  have st: "zy100_online_stress_write_step D w = write_program D (write_page_addr (w_stress w1)) w1"
    using assms(6-8) by (simp add: zy100_online_stress_write_step_def)
  have "2 * (unat (os_record_bytes (w_stress w1)) div 256) = 2 * Suc k" using b(4) by simp
  then show ?thesis using pages_steps [OF R b(1,2) st, of k] b(3,4) by auto
qed

text \<open>Write steps are steps of a run.\<close>

lemma write_steps_run:
  "write_steps D n w = (r, w') \<Longrightarrow> \<exists>bs'. (writer_step D)\<^sup>*\<^sup>* (w, bs) (w', bs')"
proof (induction n arbitrary: w bs)
  case 0 then show ?case by auto
next
  case (Suc n)
  obtain r1 w1 where s: "zy100_online_stress_write_step D w = (r1, w1)" by fastforce
  have one: "writer_step D (w, bs) (w1, pages_after w w1 bs)" by (rule writer_step.written [OF s])
  show ?case
  proof (cases r1)
    case True
    then have "write_steps D n w1 = (r, w')" using Suc.prems s by simp
    from Suc.IH [OF this, of "pages_after w w1 bs"] show ?thesis
      using converse_rtranclp_into_rtranclp [where r = "writer_step D", OF one] by blast
  next
    case False
    then show ?thesis using Suc.prems s one by auto
  qed
qed

text \<open>The image of a finished record.\<close>

lemma record_image:
  assumes w: "writer_ok s r bs" and ph: "os_phase s = 3" and e0: "src_error (os_source s) = 0"
  shows "length bs = unat (os_record_bytes s)" "64 + unat (os_record_data s) \<le> length bs" "take 4 bs = STRS"
    "\<And>i. i < unat (os_record_data s) \<Longrightarrow>
      bs ! (64 + i) = zy100_stress_pattern (src_seed (os_source s)) (os_committed s + of_nat i)"
    "\<And>i. 64 + unat (os_record_data s) \<le> i \<Longrightarrow> i < length bs \<Longrightarrow> bs ! i = 0xFF"
    "zy100_get_u32_le bs 8 = src_seed (os_source s)" "zy100_get_u32_le bs 28 = os_committed s"
    "zy100_get_u32_le bs 32 = os_record_data s"
    "zy100_get_u32_le bs 20 = os_committed s div (src_rate (os_source s) div 50)"
    "src_consumed (os_source s) = os_committed s + os_record_data s"
    "res_crc_final_valid r" "res_crc32_final r = zy100_crc32_ieee bs"
proof -
  have st: "writer_stable s" and rec: "writer_record s bs" and c: "writer_commit s r bs"
    using w ph e0 by (simp_all add: writer_ok_def)
  show "res_crc_final_valid r" "res_crc32_final r = zy100_crc32_ieee bs"
    using c by (simp_all add: writer_commit_def)
  have off: "os_page_offset s = os_record_bytes s" using c by (simp add: writer_commit_def)
  show len: "length bs = unat (os_record_bytes s)" using rec off by (simp add: writer_record_def)
  have n: "unat (os_record_bytes s) = 256 * ((64 + unat (os_record_data s) + 255) div 256)"
    using rec by (simp add: writer_record_def)
  then show fits: "64 + unat (os_record_data s) \<le> length bs" unfolding len by linarith
  have "unat (os_data_left s) = unat (os_record_data s) - rec_written (unat (os_page_offset s)) (unat (os_record_data s))"
    using rec by (simp add: writer_record_def)
  moreover have "rec_written (unat (os_page_offset s)) (unat (os_record_data s)) = unat (os_record_data s)"
    using fits len off by (simp add: rec_written_def)
  ultimately have left: "os_data_left s = 0" by (simp add: unat_eq_zero)
  show cons: "src_consumed (os_source s) = os_committed s + os_record_data s"
    using st ph left by (simp add: writer_stable_def)
  then have base: "rec_base s = os_committed s" by (simp add: rec_base_def left)
  have img: "image_part s 0 bs" using rec by (simp add: writer_record_def)
  have "bs \<noteq> []" using fits by auto
  then have h: "image_header (os_source s) (os_committed s) (os_record_data s) bs"
    using img base by (simp add: image_part_def)
  then show "take 4 bs = STRS" "zy100_get_u32_le bs 8 = src_seed (os_source s)"
    "zy100_get_u32_le bs 28 = os_committed s" "zy100_get_u32_le bs 32 = os_record_data s"
    "zy100_get_u32_le bs 20 = os_committed s div (src_rate (os_source s) div 50)"
    by (simp_all add: image_header_def)
  have byte: "image_byte (src_seed (os_source s)) (os_committed s) (unat (os_record_data s)) i (bs ! i)"
    if "i < length bs" for i using img that base by (simp add: image_part_def)
  show "bs ! (64 + i) = zy100_stress_pattern (src_seed (os_source s)) (os_committed s + of_nat i)"
    if "i < unat (os_record_data s)" for i
    using byte [of "64 + i"] that fits by (simp add: image_byte_def)
  show "bs ! i = 0xFF" if "64 + unat (os_record_data s) \<le> i" "i < length bs" for i
    using byte [of i] that by (simp add: image_byte_def)
qed

end
