(* ===== verification/StressFacts.thy ===== *)
theory StressFacts
  imports StressRecord
begin

text \<open>
  What the stress writer promises, with a concrete first record on a memory as the flash as the
  input of the witnesses: conservation of the bytes, the image handed over for commit, which step releases
  bytes, failures, discarding, progress of a record, arming, the status report and the bounds of
  every buffer.
\<close>

unbundle bit_operations_syntax

section \<open>A first record, concretely\<close>

text \<open>A memory as the flash: every access succeeds, the clocks stand still.\<close>

definition ram_flash :: "(u32 \<Rightarrow> u8) device" where
  "ram_flash = \<lparr>gd25q32e_init = (\<lambda>d. (IMU_STATUS_OK, d)),
     gd25q32e_is_busy = (\<lambda>d. (IMU_STATUS_OK, False, d)),
     gd25q32e_wait_while_busy = (\<lambda>_ d. (IMU_STATUS_OK, d)),
     gd25q32e_page_program = (\<lambda>a bs d. (IMU_STATUS_OK, programmed a bs d)),
     gd25q32e_read_fast = (\<lambda>a buf d. (IMU_STATUS_OK, map (\<lambda>i. d (a + of_nat i)) [0 ..< length buf], d)),
     gd25q32e_sector_erase_4k = (\<lambda>a d. (IMU_STATUS_OK, \<lambda>x. if unat x div 4096 = unat a div 4096 then 0xFF else d x)),
     gd25q32e_block_erase_32k = (\<lambda>a d. (IMU_STATUS_OK, \<lambda>x. if unat x div 32768 = unat a div 32768 then 0xFF else d x)),
     spi_bus_owner_none = (\<lambda>d. (True, d)),
     bsp_capture_timebase_snapshot = (\<lambda>d. (True, 0, d)),
     imu_bsp_local_timestamp_us = (\<lambda>d. (0, d)),
     zy100_os_time_ms = (\<lambda>d. (40, d)),
     svc_app_watchdog_poll = (\<lambda>_ d. d)\<rparr>"

lemma ram_reliable: "reliable_flash ram_flash (\<lambda>d. d)"
  by (simp add: reliable_flash_def ram_flash_def)

text \<open>A session armed at 16000 bytes per second over a spool whose first sector is erased.\<close>

definition armed_stress :: online_stress where
  "armed_stress = online_stress_zero\<lparr>os_configured_rate := 16000, os_armed := True, os_queried := True,
     os_negotiated := True\<rparr>"

definition armed_world :: "(u32 \<Rightarrow> u8) world" where
  "armed_world = \<lparr>w_spool = fresh_segment, w_diag = sd_zero,
     w_stress = zy100_online_stress_session 9 armed_stress, w_dev = (\<lambda>_. 0xFF)\<rparr>"

definition begun_world :: "(u32 \<Rightarrow> u8) world" where
  "begun_world = snd (zy100_online_stress_begin ram_flash (Some (replicate 40960 0)) 0 armed_world)"

definition filled_world :: "(u32 \<Rightarrow> u8) world" where
  "filled_world = snd (zy100_online_stress_tick ram_flash 40 begun_world)"

lemma armed_configured: "os_configured (zy100_online_stress_session 9 armed_stress)"
  "os_configured_rate (zy100_online_stress_session 9 armed_stress) = 16000"
  "os_session (zy100_online_stress_session 9 armed_stress) = 9"
  "os_source (zy100_online_stress_session 9 armed_stress) = stress_source_zero"
  "os_phase (zy100_online_stress_session 9 armed_stress) = 0"
  by (simp_all add: zy100_online_stress_session_def armed_stress_def online_stress_zero_def Let_def)

lemma begun: "\<exists>w'. zy100_online_stress_begin ram_flash (Some (replicate 40960 0)) 0 armed_world = (True, w') \<and>
    w_spool w' = spool_refresh_stats fresh_segment \<and> w_dev w' = (\<lambda>_. 0xFF) \<and> os_phase (w_stress w') = 0 \<and>
    os_source (w_stress w') = stress_source_zero\<lparr>src_ring := Some (get_at 36864 4096 (replicate 40960 0)),
      src_rate := 16000, src_seed := 9\<rparr>"
  by (simp add: zy100_online_stress_begin_def Let_def armed_world_def armed_configured
      zy100_online_spool_get_stats_def zy100_stress_source_begin_def zy100_stress_rate_valid_def stress_source_zero_def)

lemma begun_start: "writer_start ram_flash (begun_world, [])"
  unfolding writer_start_def
  by (intro conjI exI [of _ armed_world] exI [of _ 9] exI [of _ armed_stress] exI [of _ "replicate 40960 0"]
      exI [of _ 0]) (use begun in \<open>auto simp: begun_world_def armed_world_def\<close>)

text \<open>After 40 ms the ring holds two blocks.\<close>

lemma first_fill:
  fixes src :: stress_source
  defines "src \<equiv> stress_source_zero\<lparr>src_ring := Some (get_at 36864 4096 (replicate 40960 0)), src_rate := 16000, src_seed := 9\<rparr>"
  shows "\<exists>t. zy100_stress_source_tick src 40 = (True, t) \<and> unat (src_used t) = 640 \<and> src_error t = 0 \<and>
    \<not> src_frozen t \<and> src_rate t = 16000 \<and> src_consumed t = 0 \<and> src_seed t = 9"
proof -
  let ?s = "src\<lparr>src_elapsed_ms := 40, src_expected := 640\<rparr>"
  have f: "src_used ?s = 0" "src_generated ?s = 0" "src_rate ?s = 16000" "src_error ?s = 0" "\<not> src_frozen ?s"
    "src_consumed ?s = 0" "src_seed ?s = 9" "src_expected ?s = 640" "src_start_ms src = 0" "src_error src = 0"
    "\<not> src_frozen src" "src_rate src = 16000"
    by (simp_all add: src_def stress_source_zero_def)
  have "zy100_stress_source_begin stress_source_zero (Some (get_at 36864 4096 (replicate 40960 0))) 16000 9 0 = (True, src)"
    by (simp add: zy100_stress_source_begin_def zy100_stress_rate_valid_def src_def stress_source_zero_def)
  then have ok: "source_ok ?s" using source_begin_ok by simp
  let ?s1 = "stress_put_block 320 ?s"
  have "\<not> ucast (src_used ?s) + 320 > (4096 :: u32)" using f(1) by simp
  then have s1: "source_ok ?s1" "unat (src_used ?s1) = 320"
    using put_block_ok [OF ok, of 320] f(1-3) by simp_all
  then have u1: "src_used ?s1 = 320" by (simp add: word_unat_eq_iff)
  let ?s2 = "stress_put_block 320 ?s1"
  have "\<not> ucast (src_used ?s1) + 320 > (4096 :: u32)" unfolding u1 by simp
  then have s2: "unat (src_used ?s2) = 640"
    using put_block_ok [OF s1(1), of 320] f(2,3) s1(2) by simp
  have "stress_fill ?s2 = (True, ?s2)" by (subst stress_fill.simps) (simp add: f del: stress_source.simps)
  moreover have "stress_fill ?s1 = stress_fill ?s2" by (subst stress_fill.simps) (simp add: f u1 del: stress_source.simps)
  moreover have "stress_fill ?s = stress_fill ?s1" by (subst stress_fill.simps) (simp add: f del: stress_source.simps)
  ultimately have "stress_fill ?s = (True, ?s2)" by simp
  moreover have "zy100_stress_source_tick src 40 = stress_fill ?s"
    by (simp add: zy100_stress_source_tick_def Let_def f) (simp add: src_def)
  ultimately show ?thesis using s2 f by (intro exI [of _ ?s2]) simp
qed

lemma filled:
  obtains t where "zy100_online_stress_tick ram_flash 40 begun_world = (True, filled_world)"
    "w_spool filled_world = spool_refresh_stats fresh_segment" "w_dev filled_world = (\<lambda>_. 0xFF)"
    "os_phase (w_stress filled_world) = 0" "os_source (w_stress filled_world) = t"
    "unat (src_used t) = 640" "src_error t = 0" "\<not> src_frozen t" "src_rate t = 16000" "src_consumed t = 0"
    "src_seed t = 9"
proof -
  have b: "w_spool begun_world = spool_refresh_stats fresh_segment" "w_dev begun_world = (\<lambda>_. 0xFF)"
    "os_phase (w_stress begun_world) = 0"
    "os_source (w_stress begun_world) = stress_source_zero\<lparr>src_ring := Some (get_at 36864 4096 (replicate 40960 0)),
      src_rate := 16000, src_seed := 9\<rparr>"
    using begun by (auto simp: begun_world_def)
  obtain t where t: "zy100_stress_source_tick (os_source (w_stress begun_world)) 40 = (True, t)"
    "unat (src_used t) = 640" "src_error t = 0" "\<not> src_frozen t" "src_rate t = 16000" "src_consumed t = 0" "src_seed t = 9"
    unfolding b(4) using first_fill by blast
  have "src_used (os_source (w_stress begun_world)) = 0" unfolding b(4) by (simp add: stress_source_zero_def)
  then have "\<exists>w'. zy100_online_stress_tick ram_flash 40 begun_world = (True, w') \<and> w_spool w' = w_spool begun_world \<and>
      w_dev w' = w_dev begun_world \<and> os_phase (w_stress w') = 0 \<and> os_source (w_stress w') = t"
    using t(1) b(3) by (simp add: zy100_online_stress_tick_def Let_def)
  then obtain w' where "zy100_online_stress_tick ram_flash 40 begun_world = (True, w')" "w_spool w' = w_spool begun_world"
      "w_dev w' = w_dev begun_world" "os_phase (w_stress w') = 0" "os_source (w_stress w') = t" by blast
  then show ?thesis using that [of t] b t by (simp add: filled_world_def)
qed

lemma refreshed_segment:
  "\<exists>s'. spool_provider_reserve 4 sid 0x300 pb (Some tgt) (spool_refresh_stats fresh_segment) =
      (RESERVE_OK, Some \<lparr>tgt_data_addr = 0x2F8100, tgt_capacity_bytes = 0x300,
         tgt_online_record_id = 1, tgt_token = 1\<rparr>, s')"
proof -
  have "spool_bitmap_get (sp_erased_bitmap (spool_refresh_stats fresh_segment)) (of_nat k)"
    if "k * 4096 < unat (0x300 :: u32) + 256" for k
    using that by (cases k) (auto simp: fresh_fields bitmap_get_bit)
  moreover have "sp_reservation (spool_refresh_stats fresh_segment) = sp_reservation fresh_segment"
    "sp_reserve_pos (spool_refresh_stats fresh_segment) = sp_reserve_pos fresh_segment"
    "sp_ack_pos (spool_refresh_stats fresh_segment) = sp_ack_pos fresh_segment"
    by (simp_all add: spool_refresh_stats_def Let_def)
  ultimately show ?thesis
    using fresh_reserve [of "spool_refresh_stats fresh_segment" 4 "0x300" sid pb tgt] fresh_fields by auto
qed

lemma filled_start:
  obtains w1 where "write_start ram_flash (on_stress (os_io_waiting_update (\<lambda>_. False)) filled_world) = (None, w1)"
    "os_record_bytes (w_stress w1) = 0x300" "tgt_data_addr (os_target (w_stress w1)) = 0x2F8100"
    "tgt_token (os_target (w_stress w1)) = 1"
proof -
  let ?w = "on_stress (os_io_waiting_update (\<lambda>_. False)) filled_world"
  obtain t where f: "w_spool filled_world = spool_refresh_stats fresh_segment" "os_source (w_stress filled_world) = t"
    "unat (src_used t) = 640" "src_error t = 0" "\<not> src_frozen t" "src_rate t = 16000" "src_consumed t = 0"
    by (rule filled)
  have u: "src_used t = 640" using f(3) by (simp add: word_unat_eq_iff)
  let ?w1 = "on_stress (\<lambda>s. s\<lparr>os_record_data := 640, os_record_bytes := 0x300\<rparr>) ?w"
  let ?w2 = "zy100_online_stress_diag_stage ram_flash ZY100_SD_RESERVE ?w1"
  obtain s' where rs: "spool_provider_reserve 4 1 0x300 640 (Some (os_target (w_stress ?w2))) (w_spool ?w2) =
      (RESERVE_OK, Some \<lparr>tgt_data_addr = 0x2F8100, tgt_capacity_bytes = 0x300, tgt_online_record_id = 1, tgt_token = 1\<rparr>, s')"
    using refreshed_segment [of 1 640 "os_target (w_stress filled_world)"] f(1) by auto
  let ?w3 = "on_stress (os_target_update (\<lambda>_. \<lparr>tgt_data_addr = 0x2F8100, tgt_capacity_bytes = 0x300,
      tgt_online_record_id = 1, tgt_token = 1\<rparr>)) (on_spool (\<lambda>_. s') ?w2)"
  have "write_start ram_flash ?w = (None, write_record_begin ram_flash ?w3)"
    unfolding write_start_def Let_def zy100_online_spool_reserve_stress_def
    using rs by (simp add: f(2,5,6,7) u)
  moreover obtain now where "w_stress (write_record_begin ram_flash ?w3) = record_begun (os_record_data (w_stress ?w3))
     (os_record_bytes (w_stress ?w3)) (os_target (w_stress ?w3)) now (w_stress ?w3)"
    using record_begin_fields(1) by blast
  ultimately show ?thesis using that by (simp add: record_begun_def)
qed

lemma fresh_ready:
  "queue_inv (spool_refresh_stats fresh_segment) []" "length (sp_page (spool_refresh_stats fresh_segment)) = 256"
  "\<not> sp_erase_wip (spool_refresh_stats fresh_segment)"
proof -
  have "queue_inv fresh_segment []"
    by (simp add: fresh_segment_def fresh_spool_def zy100_online_spool_note_capture_segment_def
      zy100_online_spool_begin_def) (simp add: queue_inv_def queue_inv_defs demo_defs ends_def sent_record_def)
  then show "queue_inv (spool_refresh_stats fresh_segment) []"
    using queue_inv_cong [OF queue_core_simps(2)] by blast
  show "length (sp_page (spool_refresh_stats fresh_segment)) = 256" "\<not> sp_erase_wip (spool_refresh_stats fresh_segment)"
    by (simp_all add: spool_refresh_stats_def Let_def fresh_segment_def fresh_spool_def
        zy100_online_spool_note_capture_segment_def zy100_online_spool_begin_def) (simp_all add: demo_defs)
qed

lemma filled_run: "(writer_step ram_flash)\<^sup>*\<^sup>* (begun_world, []) (filled_world, [])"
proof -
  have "zy100_online_stress_tick ram_flash 40 begun_world = (True, filled_world)" by (rule filled)
  then show ?thesis by (intro r_into_rtranclp writer_step.ticked)
qed

lemma filled_ready:
  "queue_inv (w_spool filled_world) []" "length (sp_page (w_spool filled_world)) = 256"
  "\<not> sp_erase_wip (w_spool filled_world)" "os_phase (w_stress filled_world) = 0"
  "src_error (os_source (w_stress filled_world)) = 0"
proof -
  obtain t where f: "w_spool filled_world = spool_refresh_stats fresh_segment"
    "os_phase (w_stress filled_world) = 0" "os_source (w_stress filled_world) = t" "src_error t = 0"
    by (rule filled)
  show "queue_inv (w_spool filled_world) []" "length (sp_page (w_spool filled_world)) = 256"
    "\<not> sp_erase_wip (w_spool filled_world)" unfolding f(1) by (rule fresh_ready)+
  show "os_phase (w_stress filled_world) = 0" "src_error (os_source (w_stress filled_world)) = 0"
    using f by simp_all
qed

lemma filled_erased: "erased_between (w_dev filled_world) a b"
proof -
  have "w_dev filled_world = (\<lambda>_. 0xFF)" by (rule filled)
  then show ?thesis by (simp add: erased_between_def)
qed

text \<open>The state when all pages of the first record are written.\<close>

definition written_world :: "(u32 \<Rightarrow> u8) world" where
  "written_world = snd (write_steps ram_flash 6 filled_world)"

lemma written:
  "\<exists>bs. (writer_step ram_flash)\<^sup>*\<^sup>* (begun_world, []) (written_world, bs)"
  "os_phase (w_stress written_world) = 3" "src_error (os_source (w_stress written_world)) = 0"
proof -
  obtain w1 where s: "write_start ram_flash (on_stress (os_io_waiting_update (\<lambda>_. False)) filled_world) = (None, w1)"
    "os_record_bytes (w_stress w1) = 0x300"
    by (rule filled_start)
  have n: "2 * (unat (os_record_bytes (w_stress w1)) div 256) = 6" unfolding s(2) by simp
  have ok: "writer_ok (w_stress filled_world) (sp_reservation (w_spool filled_world)) []"
    by (rule writer_reach [OF begun_start filled_run])
  obtain v bs' where v: "write_steps ram_flash 6 filled_world = (True, v)" "between_pages (\<lambda>d. d) [] v bs'"
    "os_phase (w_stress v) = 3"
    using record_pages [where mem = "\<lambda>d. d", OF ram_reliable ok filled_ready s(1) filled_erased] unfolding n by blast
  have w: "written_world = v" by (simp add: written_world_def v(1))
  obtain bs where "(writer_step ram_flash)\<^sup>*\<^sup>* (filled_world, []) (v, bs)" using write_steps_run [OF v(1)] by blast
  then show "\<exists>bs. (writer_step ram_flash)\<^sup>*\<^sup>* (begun_world, []) (written_world, bs)"
    unfolding w using rtranclp_trans [OF filled_run] by blast
  show "os_phase (w_stress written_world) = 3" "src_error (os_source (w_stress written_world)) = 0"
    unfolding w using v by (simp_all add: between_pages_def)
qed

text \<open>The first record while its first page waits for the read-back.\<close>

definition page_world :: "(u32 \<Rightarrow> u8) world" where
  "page_world = snd (zy100_online_stress_write_step ram_flash filled_world)"

lemma paged:
  "\<exists>bs. (writer_step ram_flash)\<^sup>*\<^sup>* (begun_world, []) (page_world, bs)"
  "os_phase (w_stress page_world) = 2" "src_error (os_source (w_stress page_world)) = 0"
  "tgt_token (os_target (w_stress page_world)) = 1" "queue_inv (w_spool page_world) []"
proof -
  let ?w = "on_stress (os_io_waiting_update (\<lambda>_. False)) filled_world"
  obtain w1 where s: "write_start ram_flash ?w = (None, w1)" "tgt_token (os_target (w_stress w1)) = 1"
    by (rule filled_start)
  have ok: "writer_ok (w_stress ?w) (sp_reservation (w_spool ?w)) []"
    using writer_reach [OF begun_start filled_run] by simp
  have b: "between_pages (\<lambda>d. d) [] w1 []" "os_phase (w_stress w1) = 1"
    using record_begins [where mem = "\<lambda>d. d", OF ram_reliable ok _ _ s(1), of "[]"] filled_ready filled_erased by simp_all
  obtain w2 where p: "write_program ram_flash (write_page_addr (w_stress w1)) w1 = (True, w2)"
    "spool_follows False (w_spool w1) (w_spool w2)"
    "os_phase (w_stress w2) = 2" "src_error (os_source (w_stress w2)) = 0"
    "os_target (w_stress w2) = os_target (w_stress w1)"
    using program_on_track [where mem = "\<lambda>d. d", OF ram_reliable _ b(2)] b(1) unfolding between_pages_def by blast
  have st: "zy100_online_stress_write_step ram_flash filled_world = (True, w2)"
    using s(1) p(1) filled_ready(4,5) by (simp add: zy100_online_stress_write_step_def)
  then have w: "page_world = w2" by (simp add: page_world_def)
  show "\<exists>bs. (writer_step ram_flash)\<^sup>*\<^sup>* (begun_world, []) (page_world, bs)"
    unfolding w using rtranclp.rtrancl_into_rtrancl [OF filled_run writer_step.written [OF st]] by blast
  show "os_phase (w_stress page_world) = 2" "src_error (os_source (w_stress page_world)) = 0"
    "tgt_token (os_target (w_stress page_world)) = 1" unfolding w using p s(2) by simp_all
  have "queue_inv (w_spool w1) []" using b(1) by (simp add: between_pages_def commit_ready_def)
  then show "queue_inv (w_spool page_world) []" unfolding w using spool_follows_spec(1) [OF p(2)] by blast
qed

section \<open>Properties of the writer\<close>



text \<open>C11: No byte is lost or counted twice.  In every state a session of the writer reaches the bytes
  generated are the bytes consumed plus the bytes in the ring, and the bytes consumed are the
  bytes of the committed records plus the verified bytes of the record being written; the writer
  never reports an ownership error.\<close>

theorem writer_conserves_bytes:
  assumes "writer_start D x" "(writer_step D)\<^sup>*\<^sup>* x (w, bs)"
  shows "unat (src_consumed (os_source (w_stress w))) + unat (src_used (os_source (w_stress w))) =
      unat (src_generated (os_source (w_stress w))) \<and>
    os_committed (w_stress w) +
      (if os_phase (w_stress w) = 0 then 0 else os_record_data (w_stress w) - os_data_left (w_stress w)) =
      src_consumed (os_source (w_stress w)) \<and>
    src_error (os_source (w_stress w)) \<noteq> ZY100_STRESS_OWNER"
  using ok_stable [OF writer_reach [OF assms]] by (simp add: writer_stable_def)

theorem writer_conserves_bytes_witness:
  "os_committed (w_stress written_world) +
     (os_record_data (w_stress written_world) - os_data_left (w_stress written_world)) =
     src_consumed (os_source (w_stress written_world)) \<and>
   unat (src_consumed (os_source (w_stress filled_world))) + unat (src_used (os_source (w_stress filled_world))) =
     unat (src_generated (os_source (w_stress filled_world)))"
proof -
  obtain bs where "(writer_step ram_flash)\<^sup>*\<^sup>* (begun_world, []) (written_world, bs)" using written(1) by blast
  then show ?thesis
    using writer_conserves_bytes [OF begun_start, of written_world bs]
      writer_conserves_bytes [OF begun_start filled_run] written(2) by simp
qed

text \<open>C12: What is handed over for commit is the record: when all pages are written without an
  error, the verified bytes are a whole record, its header carries the tag, the session, the offset, the
  sequence number and the length of the data, the data is the pattern of the session from the committed
  offset on, the rest of the last page is erased, and the checksum in the reservation is the
  CRC-32 of exactly these bytes.\<close>

theorem handed_over_record_is_pattern:
  assumes "writer_start D x" "(writer_step D)\<^sup>*\<^sup>* x (w, bs)" "os_phase (w_stress w) = 3"
    "src_error (os_source (w_stress w)) = 0"
  shows "length bs = unat (os_record_bytes (w_stress w)) \<and> take 4 bs = STRS \<and>
    zy100_get_u32_le bs 8 = src_seed (os_source (w_stress w)) \<and>
    zy100_get_u32_le bs 20 =
      os_committed (w_stress w) div (src_rate (os_source (w_stress w)) div 50) \<and>
    zy100_get_u32_le bs 28 = os_committed (w_stress w) \<and> zy100_get_u32_le bs 32 = os_record_data (w_stress w) \<and>
    (\<forall>i < unat (os_record_data (w_stress w)).
       bs ! (64 + i) = zy100_stress_pattern (src_seed (os_source (w_stress w))) (os_committed (w_stress w) + of_nat i)) \<and>
    (\<forall>i. 64 + unat (os_record_data (w_stress w)) \<le> i \<and> i < length bs \<longrightarrow> bs ! i = 0xFF) \<and>
    res_crc_final_valid (sp_reservation (w_spool w)) \<and>
    res_crc32_final (sp_reservation (w_spool w)) = zy100_crc32_ieee bs"
  using record_image [OF writer_reach [OF assms(1,2)] assms(3,4)] by auto

theorem handed_over_record_is_pattern_witness:
  "\<exists>bs. take 4 bs = STRS \<and> zy100_get_u32_le bs 32 = os_record_data (w_stress written_world) \<and>
     res_crc32_final (sp_reservation (w_spool written_world)) = zy100_crc32_ieee bs"
proof -
  obtain bs where "(writer_step ram_flash)\<^sup>*\<^sup>* (begun_world, []) (written_world, bs)" using written(1) by blast
  then show ?thesis using handed_over_record_is_pattern [OF begun_start _ written(2,3)] by blast
qed

section \<open>Where bytes are released\<close>

lemma latch_consumed [simp]: "src_consumed (os_source (latch_failure e s)) = src_consumed (os_source s)"
  by (simp add: latch_failure_def Let_def)

lemma fail_consumed:
  "stress_fail D e w = (r, w') \<Longrightarrow> src_consumed (os_source (w_stress w')) = src_consumed (os_source (w_stress w))"
  using stress_fail_frame [of D e w r w'] by simp

lemma commit_consumed:
  assumes "write_commit D w = (r, w')"
  shows "src_consumed (os_source (w_stress w')) = src_consumed (os_source (w_stress w))"
proof -
  let ?w1 = "zy100_online_stress_diag_stage D ZY100_SD_COMMIT w"
  obtain c w2 where pu: "zy100_online_spool_commit_pump_once D True ?w1 = (c, w2)" by fastforce
  have s2: "w_stress w2 = w_stress w" using pump_final [OF pu] by simp
  show ?thesis
  proof (cases "c = PUMP_ERROR")
    case True
    then show ?thesis using assms s2 fail_consumed by (fastforce simp: write_commit_def pu)
  next
    case False
    then show ?thesis
      using assms s2 by (auto simp: write_commit_def pu Let_def dest!: os_time_frame split: prod.splits if_splits)
  qed
qed

lemma profile_source_any:
  "(\<And>f s. os_source (peak f s) = os_source s) \<Longrightarrow>
   os_source (w_stress (profile D peak t v w)) = os_source (w_stress w)"
  by (auto simp: profile_def Let_def dest!: snapshot_frame split: prod.split)

lemma profile_source [simp]:
  "os_source (w_stress (profile D os_build_max_us_update t v w)) = os_source (w_stress w)"
  "os_source (w_stress (profile D os_program_max_us_update t v w)) = os_source (w_stress w)"
  "os_source (w_stress (profile D os_verify_max_us_update t v w)) = os_source (w_stress w)"
  by (rule profile_source_any; simp)+

lemma prepare_source: "write_prepare s = (ok, s') \<Longrightarrow> os_source s' = os_source s"
  by (auto simp: write_prepare_def Let_def split: prod.splits if_splits)

lemma program_consumed:
  assumes "write_program D addr w = (r, w')"
  shows "src_consumed (os_source (w_stress w')) = src_consumed (os_source (w_stress w))"
proof -
  let ?w1 = "zy100_online_stress_diag_stage D ZY100_SD_PROGRAM w"
  obtain timed stamp w1a where ts: "timebase_snapshot D ?w1 = (timed, stamp, w1a)" by (rule prod_cases3)
  obtain ok s where pp: "write_prepare (w_stress w1a) = (ok, s)" by fastforce
  obtain ready w2 where w2: "(if os_prepared (w_stress ?w1) then (True, ?w1)
      else if ok then (True, profile D os_build_max_us_update stamp timed (on_stress (\<lambda>_. s) w1a))
      else (False, on_stress (\<lambda>_. s) w1a)) = (ready, w2)" by fastforce
  have s2: "os_source (w_stress w2) = os_source (w_stress w)"
    using w2 prepare_source [OF pp] snapshot_frame [OF ts] by (auto split: if_splits)
  obtain timed2 stamp2 w3 where ts2: "timebase_snapshot D w2 = (timed2, stamp2, w3)" by (rule prod_cases3)
  obtain io w4 where wr: "zy100_online_spool_write_reserved_page D (tgt_token (os_target (w_stress w3))) addr
      (os_page (w_stress w3)) w3 = (io, w4)" by fastforce
  have s4: "os_source (w_stress w4) = os_source (w_stress w)"
    using write_page_same [OF wr] snapshot_frame [OF ts2] s2 by simp
  have out: "(if \<not> ready then stress_fail D ZY100_STRESS_OWNER w2
      else if io = IO_BUSY then (True, io_wait w4)
      else if io \<noteq> IO_OK then stress_fail D ZY100_STRESS_PROGRAM w4
      else (True, on_stress (os_phase_update (\<lambda>_. 2)) (profile D os_program_max_us_update stamp2 timed2 w4))) = (r, w')"
    using assms w2 unfolding write_program_def Let_def ts pp prod.case
    by (simp only: ts2 wr prod.case split: prod.splits)
  show ?thesis
    using out s2 s4 fail_consumed [of D _ w2 r w'] fail_consumed [of D _ w4 r w']
    by (auto simp: io_wait_def split: if_splits)
qed

lemma io_wait_source: "os_source (w_stress (io_wait w)) = os_source (w_stress w)"
  by (simp add: io_wait_def)

lemma reserve_wait_consumed:
  assumes "write_reserve_wait D k w = (r, w')"
  shows "src_consumed (os_source (w_stress w')) = src_consumed (os_source (w_stress w))"
proof -
  let ?w1 = "io_wait w"
  obtain er w2 where fe: "zy100_online_spool_erase_forward_block32_step D ?w1 = (er, w2)" by fastforce
  have s2: "os_source (w_stress w2) = os_source (w_stress w)"
    using forward_step_same fe unfolding zy100_online_spool_erase_forward_block32_step_def same_queue_def
    by (metis (no_types, lifting) io_wait_source)
  show ?thesis
    using assms s2 fail_consumed
    by (fastforce simp: write_reserve_wait_def fe Let_def io_wait_source split: if_splits)
qed

lemma start_consumed:
  assumes "write_start D w = (r, w')"
  shows "src_consumed (os_source (w_stress w')) = src_consumed (os_source (w_stress w))"
proof -
  let ?src = "os_source (w_stress w)" let ?b = "src_rate ?src div 50" let ?n = "ucast (src_used ?src) div ?b"
  show ?thesis
  proof (cases "?b = 0 \<or> (?n < 2 \<and> \<not> src_frozen ?src) \<or> ?n = 0")
    case True
    then have "\<exists>k. w' = zy100_online_stress_diag_stage D k w"
      using assms unfolding write_start_def Let_def by (auto split: if_splits)
    then show ?thesis by auto
  next
    case False
    then have f: "?b \<noteq> 0" "\<not> (?n < 2 \<and> \<not> src_frozen ?src)" "?n \<noteq> 0" by blast+
    define data where "data = (if ?n > 2 then 2 else ?n) * ?b"
    define bytes where "bytes = (64 + data + 255) AND NOT 255"
    let ?w1 = "on_stress (\<lambda>s. s\<lparr>os_record_data := data, os_record_bytes := bytes\<rparr>) w"
    let ?w2 = "zy100_online_stress_diag_stage D ZY100_SD_RESERVE ?w1"
    obtain k t sp where rs: "zy100_online_spool_reserve_stress (src_consumed ?src div ?b + 1) bytes data
        (Some (os_target (w_stress ?w2))) (w_spool ?w2) = (k, t, sp)" by (rule prod_cases3)
    let ?w3 = "on_stress (os_target_update (\<lambda>_. the t)) (on_spool (\<lambda>_. sp) ?w2)"
    have eq: "write_start D w = (if k = RESERVE_ERROR
        then let (r, w4) = stress_fail D ZY100_STRESS_RESERVE ?w3 in (Some r, w4)
        else if k \<noteq> RESERVE_OK then let (r, w4) = write_reserve_wait D k ?w3 in (Some r, w4)
        else (None, write_record_begin D ?w3))"
      unfolding write_start_def Let_def if_not_P [OF f(1)] if_not_P [OF f(2)] if_not_P [OF f(3)]
        data_def [symmetric] bytes_def [symmetric] rs prod.case ..
    have c3: "src_consumed (os_source (w_stress ?w3)) = src_consumed ?src" by simp
    obtain now where st: "w_stress (write_record_begin D ?w3) = record_begun (os_record_data (w_stress ?w3))
       (os_record_bytes (w_stress ?w3)) (os_target (w_stress ?w3)) now (w_stress ?w3)"
      using record_begin_fields(1) [of D ?w3] by blast
    then have "src_consumed (os_source (w_stress (write_record_begin D ?w3))) = src_consumed ?src"
      by (simp add: record_begun_def)
    then show ?thesis
      using assms c3 fail_consumed [of D _ ?w3 _ w'] reserve_wait_consumed [of D _ ?w3 _ w'] unfolding eq
      by (auto split: if_splits prod.splits)
  qed
qed

lemma verify_consumed:
  assumes w: "writer_ok (w_stress w) (sp_reservation (w_spool w)) bs" and ph: "os_phase (w_stress w) = 2"
    and e0: "src_error (os_source (w_stress w)) = 0" and out: "write_verify D addr w = (r, w')"
  shows "src_consumed (os_source (w_stress w')) = src_consumed (os_source (w_stress w)) \<or>
    (r \<and> src_consumed (os_source (w_stress w')) = src_consumed (os_source (w_stress w)) + os_page_data (w_stress w) \<and>
      (\<exists>page w1 w2. os_page (w_stress w) = Some page \<and>
        zy100_online_spool_read_reserved D (tgt_token (os_target (w_stress w))) addr (os_verify (w_stress w)) w1 =
          (IO_OK, Some page, w2)))"
proof -
  let ?w1 = "zy100_online_stress_diag_stage D ZY100_SD_VERIFY w"
  obtain timed stamp w2 where ts: "timebase_snapshot D ?w1 = (timed, stamp, w2)" by (rule prod_cases3)
  have w2: "w_stress w2 = w_stress w" "w_spool w2 = w_spool w" using snapshot_frame [OF ts] by simp_all
  obtain io buf w3 where rd: "zy100_online_spool_read_reserved D (tgt_token (os_target (w_stress w2))) addr
      (os_verify (w_stress w2)) w2 = (io, buf, w3)" by (rule prod_cases3)
  obtain old page where old: "os_verify (w_stress w) = Some old" "length old = 256" "os_page (w_stress w) = Some page"
    using ok_stable [OF w] by (auto simp: writer_stable_def)
  have w3: "w_stress w3 = w_stress w" "sp_reservation (w_spool w3) = sp_reservation (w_spool w)"
    using read_reserved_same [OF rd] w2 queue_fields(11) [of "w_spool w3" "w_spool w2"] by simp_all
  let ?w4 = "on_stress (os_verify_update (\<lambda>_. buf)) w3"
  let ?w5 = "profile D os_verify_max_us_update stamp timed ?w4"
  have eq: "write_verify D addr w = (if io = IO_BUSY then (True, io_wait ?w4)
      else if io \<noteq> IO_OK \<or> os_page (w_stress ?w4) \<noteq> os_verify (w_stress ?w4)
      then stress_fail D ZY100_STRESS_VERIFY ?w4 else write_release D ?w5)"
    unfolding write_verify_def by (simp add: Let_def ts rd)
  consider (busy) "w' = io_wait ?w4" | (fail) "stress_fail D ZY100_STRESS_VERIFY ?w4 = (r, w')"
    | (ok) "io = IO_OK" "buf = Some page" "write_release D ?w5 = (r, w')"
    using out unfolding eq by (auto simp: w3 old split: if_splits)
  then show ?thesis
  proof cases
    case busy then show ?thesis by (simp add: io_wait_source w3)
  next
    case fail then show ?thesis using fail_consumed [OF fail] by (simp add: w3)
  next
    case ok
    obtain v where v: "buf = Some v" "length v = 256"
      using read_reserved_buf [of D "tgt_token (os_target (w_stress w2))" addr old w2 io buf w3] rd w2 old by auto
    obtain p where p: "w_stress ?w5 = (w_stress ?w4)\<lparr>os_verify_max_us := p\<rparr>" using profile_peaks(3) by blast
    have ok5: "writer_ok (w_stress ?w5) (sp_reservation (w_spool ?w5)) bs"
      using p w3 verify_upd_ok [OF w v(2)] v(1) by simp
    have f5: "os_phase (w_stress ?w5) = 2" "src_error (os_source (w_stress ?w5)) = 0" "os_page (w_stress ?w5) = Some page"
      using p w3 ph e0 old by simp_all
    have "r" using write_release_ok [OF ok5 f5 ok(3)] by simp
    moreover have "src_consumed (os_source (w_stress w')) = src_consumed (os_source (w_stress w)) + os_page_data (w_stress w)"
      using release_frame(7) [OF ok5 f5 ok(3)] p w3 by simp
    ultimately show ?thesis using rd ok(1,2) w2 old(3) by auto
  qed
qed

text \<open>C13: Only verified bytes leave the ring.  A write step of a reachable state either leaves the
  consumed offset alone, or it is the read-back of a page: the flash returned without an error, from
  the address of the page inside the reservation, exactly the bytes that were programmed, and
  the offset grows by the data bytes of this page.\<close>

theorem only_verified_bytes_released:
  assumes "writer_start D x" "(writer_step D)\<^sup>*\<^sup>* x (w, bs)" "zy100_online_stress_write_step D w = (r, w')"
  shows "src_consumed (os_source (w_stress w')) = src_consumed (os_source (w_stress w)) \<or>
    (r \<and> os_phase (w_stress w) = 2 \<and>
      src_consumed (os_source (w_stress w')) = src_consumed (os_source (w_stress w)) + os_page_data (w_stress w) \<and>
      (\<exists>page w1 w2. os_page (w_stress w) = Some page \<and>
        zy100_online_spool_read_reserved D (tgt_token (os_target (w_stress w))) (write_page_addr (w_stress w))
          (os_verify (w_stress w)) w1 = (IO_OK, Some page, w2)))"
proof -
  let ?w = "on_stress (os_io_waiting_update (\<lambda>_. False)) w"
  have ok: "writer_ok (w_stress ?w) (sp_reservation (w_spool ?w)) bs" using writer_reach [OF assms(1,2)] by simp
  show ?thesis
  proof (cases "src_error (os_source (w_stress w)) = 0")
    case False
    then show ?thesis using assms(3) by (auto simp: zy100_online_stress_write_step_def)
  next
    case e0: True
    have "os_phase (w_stress w) \<in> {0, 1, 2, 3}" using ok e0 by (auto simp: writer_ok_def)
    then consider (start) "os_phase (w_stress w) = 0" | (program) "os_phase (w_stress w) = 1"
      | (verify) "os_phase (w_stress w) = 2" | (commit) "os_phase (w_stress w) = 3" by blast
    then show ?thesis
    proof cases
      case start
      obtain o1 w1 where s: "write_start D ?w = (o1, w1)" by fastforce
      have c: "src_consumed (os_source (w_stress w1)) = src_consumed (os_source (w_stress w))"
        using start_consumed [OF s] by simp
      have "w' = w1 \<or> write_program D (write_page_addr (w_stress w1)) w1 = (r, w')"
        using assms(3) e0 start s by (auto simp: zy100_online_stress_write_step_def split: option.splits)
      then show ?thesis using c program_consumed by fastforce
    next
      case program
      have "write_program D (write_page_addr (w_stress w)) ?w = (r, w')"
        using write_step_phase(1) [OF e0 program, of D] assms(3) by simp
      then show ?thesis using program_consumed by fastforce
    next
      case verify
      have "write_verify D (write_page_addr (w_stress ?w)) ?w = (r, w')"
        using write_step_phase(2) [OF e0 verify, of D] assms(3) by simp
      from verify_consumed [OF ok _ _ this] verify e0 show ?thesis by simp
    next
      case commit
      have "write_commit D ?w = (r, w')" using write_step_phase(3) [OF e0 commit, of D] assms(3) by simp
      then show ?thesis using commit_consumed by fastforce
    qed
  qed
qed

theorem only_verified_bytes_released_witness:
  "src_consumed (os_source (w_stress (snd (zy100_online_stress_write_step ram_flash filled_world)))) =
     src_consumed (os_source (w_stress filled_world))"
proof -
  obtain r w' where s: "zy100_online_stress_write_step ram_flash filled_world = (r, w')" by fastforce
  have "os_phase (w_stress filled_world) \<noteq> 2" using filled_ready(4) by simp
  then show ?thesis using only_verified_bytes_released [OF begun_start filled_run s] s by simp
qed

section \<open>Failures\<close>

text \<open>A tick or a freeze of a failed source leaves it alone, up to the frozen flag.\<close>

lemma failed_tick:
  assumes "src_error s \<noteq> 0" "zy100_stress_source_tick s now = (r, t)"
  shows "\<not> r \<and> t = s"
  using assms by (auto simp: zy100_stress_source_tick_def split: if_splits)

definition writer_dead :: "online_stress \<Rightarrow> online_stress \<Rightarrow> bool" where
  "writer_dead s s' \<longleftrightarrow> src_error (os_source s') = src_error (os_source s) \<and>
     src_consumed (os_source s') = src_consumed (os_source s) \<and>
     src_generated (os_source s') = src_generated (os_source s) \<and>
     os_committed s' = os_committed s \<and> os_phase s' = os_phase s \<and>
     (os_first_failure s \<noteq> 0 \<longrightarrow> os_first_failure s' = os_first_failure s)"

lemma dead_fail:
  assumes "src_error (os_source (w_stress w)) \<noteq> 0" "stress_fail D e w = (r, w')"
  shows "writer_dead (w_stress w) (w_stress w')"
  using stress_fail_frame [OF assms(2)] assms(1) by (simp add: writer_dead_def latch_failure_def Let_def)

lemma dead_step:
  assumes "writer_step D (w, bs) (w', bs')" "src_error (os_source (w_stress w)) \<noteq> 0"
  shows "writer_dead (w_stress w) (w_stress w')"
  using assms(1)
proof (cases rule: writer_step.cases)
  case (ticked now ok)
  let ?w2 = "if src_used (os_source (w_stress (on_diag (zy100_stress_diag_pump now) w))) \<noteq> 0
    then on_stress (inc os_cache_wait_update) (on_diag (zy100_stress_diag_pump now) w)
    else on_diag (zy100_stress_diag_pump now) w"
  have s2: "os_source (w_stress ?w2) = os_source (w_stress w)" by simp
  obtain r t where t: "zy100_stress_source_tick (os_source (w_stress w)) now = (r, t)" by fastforce
  have ft: "\<not> r" "t = os_source (w_stress w)" using failed_tick [OF assms(2) t] by simp_all
  have "stress_fail D (src_error t) (on_stress (os_source_update (\<lambda>_. t)) ?w2) = (ok, w')"
    using ticked ft t s2 by (simp add: zy100_online_stress_tick_def Let_def split: if_splits)
  moreover have "w_stress (on_stress (os_source_update (\<lambda>_. t)) ?w2) = w_stress ?w2"
    using ft(2) s2 by simp
  ultimately show ?thesis
    using dead_fail [of "on_stress (os_source_update (\<lambda>_. t)) ?w2" D "src_error t" ok w'] assms(2) s2
    by (auto simp: writer_dead_def split: if_splits)
next
  case (frozen now ok)
  obtain r t where t: "zy100_stress_source_tick (os_source (w_stress w)) now = (r, t)" by fastforce
  have ft: "\<not> r" "t = os_source (w_stress w)" using failed_tick [OF assms(2) t] by simp_all
  let ?w1 = "on_stress (os_source_update (\<lambda>_. t\<lparr>src_frozen := True\<rparr>)) w"
  have "stress_fail D (src_error t) ?w1 = (ok, w')"
    using frozen ft t by (simp add: zy100_online_stress_freeze_def zy100_stress_source_freeze_def)
  then show ?thesis using dead_fail [of ?w1 D "src_error t" ok w'] assms(2) ft by (auto simp: writer_dead_def)
next
  case (written ok)
  then show ?thesis using assms(2) by (auto simp: zy100_online_stress_write_step_def writer_dead_def)
next
  case beside
  have c: "writer_core (w_stress w') = writer_core (w_stress w)"
    using beside by (simp add: same_writer_def)
  have "os_source (writer_core s) = os_source s" "os_committed (writer_core s) = os_committed s"
    "os_phase (writer_core s) = os_phase s" for s by (simp_all add: writer_core_def)
  then have "os_source (w_stress w') = os_source (w_stress w)" "os_committed (w_stress w') = os_committed (w_stress w)"
    "os_phase (w_stress w') = os_phase (w_stress w)" using c by metis+
  then show ?thesis using beside by (simp add: writer_dead_def same_writer_def)
qed

text \<open>C14: A failure is final.  Once the source carries an error, a write step returns false and
  touches neither the spool nor the device nor the diagnostics, and whatever happens later, ticks and
  freezes and the sender included, the error, the first failure, the phase and the counts of
  generated, consumed and committed bytes stay as they are.\<close>

theorem failure_is_final:
  assumes "src_error (os_source (w_stress w)) \<noteq> 0" "(writer_step D)\<^sup>*\<^sup>* (w, bs) (w', bs')"
  shows "zy100_online_stress_write_step D w' = (False, on_stress (os_io_waiting_update (\<lambda>_. False)) w') \<and>
    src_error (os_source (w_stress w')) = src_error (os_source (w_stress w)) \<and>
    src_consumed (os_source (w_stress w')) = src_consumed (os_source (w_stress w)) \<and>
    src_generated (os_source (w_stress w')) = src_generated (os_source (w_stress w)) \<and>
    os_committed (w_stress w') = os_committed (w_stress w) \<and> os_phase (w_stress w') = os_phase (w_stress w) \<and>
    (os_first_failure (w_stress w) \<noteq> 0 \<longrightarrow> os_first_failure (w_stress w') = os_first_failure (w_stress w))"
proof -
  have "writer_dead (w_stress w) (w_stress (fst y))" if "(writer_step D)\<^sup>*\<^sup>* (w, bs) y" for y
    using that
  proof (induction rule: rtranclp_induct)
    case base then show ?case by (simp add: writer_dead_def)
  next
    case (step y z)
    obtain v vs u us where yz: "y = (v, vs)" "z = (u, us)" by (cases y, cases z) auto
    have "src_error (os_source (w_stress v)) \<noteq> 0" using step.IH assms(1) yz by (simp add: writer_dead_def)
    then have "writer_dead (w_stress v) (w_stress u)" using dead_step step.hyps(2) yz by blast
    then show ?case using step.IH yz by (simp add: writer_dead_def)
  qed
  from this [OF assms(2)] have d: "writer_dead (w_stress w) (w_stress w')" by simp
  then have "src_error (os_source (w_stress w')) \<noteq> 0" using assms(1) by (simp add: writer_dead_def)
  then have "zy100_online_stress_write_step D w' = (False, on_stress (os_io_waiting_update (\<lambda>_. False)) w')"
    by (simp add: zy100_online_stress_write_step_def)
  then show ?thesis using d by (simp add: writer_dead_def)
qed

theorem failure_is_final_witness:
  "\<exists>ok w'. zy100_online_stress_tick ram_flash 60 (on_stress (latch_failure 6) filled_world) = (ok, w') \<and>
     src_error (os_source (w_stress w')) = 6 \<and> fst (zy100_online_stress_write_step ram_flash w') = False"
proof -
  let ?w = "on_stress (latch_failure 6) filled_world"
  obtain ok w' where t: "zy100_online_stress_tick ram_flash 60 ?w = (ok, w')" by fastforce
  have e: "src_error (os_source (w_stress ?w)) = 6"
    using filled_ready(5) by (simp add: latch_fields)
  then have "src_error (os_source (w_stress ?w)) \<noteq> 0" by simp
  moreover have "(writer_step ram_flash)\<^sup>*\<^sup>* (?w, []) (w', [])"
    by (rule r_into_rtranclp) (rule writer_step.ticked [OF t])
  ultimately show ?thesis using failure_is_final [of ?w ram_flash "[]" w' "[]"] t e by auto
qed



section \<open>Arming\<close>

text \<open>The calls of the control channel, in the order they come; other calls do not touch the
  arming.\<close>

datatype arm_op =
    Command u8 u32 u64 "u32 option"
  | Negotiate u8 u32
  | Invalidate

fun arm_apply :: "arm_op \<Rightarrow> online_stress \<Rightarrow> online_stress" where
  "arm_apply (Command conn operation argument detail) s =
     snd (snd (zy100_online_stress_command conn operation argument detail s))"
| "arm_apply (Negotiate conn capabilities) s = zy100_online_stress_negotiate conn capabilities s"
| "arm_apply Invalidate s = zy100_online_stress_invalidate s"

definition arm_run :: "arm_op list \<Rightarrow> online_stress" where
  "arm_run ops = foldl (\<lambda>s a. arm_apply a s) online_stress_zero ops"

definition arm_inv :: "arm_op list \<Rightarrow> online_stress \<Rightarrow> bool" where
  "arm_inv ops s \<longleftrightarrow>
     (os_queried s \<longrightarrow> (\<exists>d. Command (os_conn s) 0 0 (Some d) \<in> set ops)) \<and>
     (os_negotiated s \<longrightarrow> (\<exists>c. Negotiate (os_conn s) c \<in> set ops \<and> c AND 0x20 \<noteq> 0)) \<and>
     (os_armed s \<longrightarrow> zy100_stress_rate_valid (os_configured_rate s) \<and>
        (\<exists>a d. Command (os_conn s) 1 a (Some d) \<in> set ops \<and> ucast a = os_configured_rate s \<and>
           ucast (drop_bit 32 a) = ZY100_STRESS_PROTOCOL_VERSION))"

lemma arm_inv_apply:
  assumes "arm_inv ops s"
  shows "arm_inv (ops @ [a]) (arm_apply a s)"
proof (cases a)
  case (Command conn operation argument detail)
  show ?thesis
  proof (cases detail)
    case None
    then show ?thesis using assms Command by (auto simp: arm_inv_def zy100_online_stress_command_def)
  next
    case (Some d)
    let ?q = "operation = 0 \<and> argument = 0"
    let ?r = "operation = 1 \<and> os_queried s \<and> os_conn s = conn \<and>
      ucast (drop_bit 32 argument) = ZY100_STRESS_PROTOCOL_VERSION \<and> zy100_stress_rate_valid (ucast argument)"
    have none: "snd (snd (zy100_online_stress_command conn operation argument detail s)) = s" if "\<not> ?q" "\<not> ?r"
      unfolding zy100_online_stress_command_def if_not_P [OF that(1)] if_not_P [OF that(2)] by simp
    consider (query) "operation = 0" "argument = 0"
      | (set) "operation = 1" "os_queried s" "os_conn s = conn"
          "ucast (drop_bit 32 argument) = ZY100_STRESS_PROTOCOL_VERSION" "zy100_stress_rate_valid (ucast argument)"
      | (other) "snd (snd (zy100_online_stress_command conn operation argument detail s)) = s"
      using none by blast
    then show ?thesis
    proof cases
      case query
      then show ?thesis using assms Command Some
        by (auto simp: arm_inv_def zy100_online_stress_command_def zy100_online_stress_invalidate_def Let_def)
    next
      case set
      then show ?thesis using assms Command Some
        by (auto simp: arm_inv_def zy100_online_stress_command_def)
    next
      case other
      then show ?thesis using assms Command by (auto simp: arm_inv_def)
    qed
  qed
next
  case (Negotiate conn capabilities)
  then show ?thesis using assms
    by (auto simp: arm_inv_def zy100_online_stress_negotiate_def zy100_online_stress_invalidate_def Let_def)
next
  case Invalidate
  then show ?thesis using assms by (auto simp: arm_inv_def zy100_online_stress_invalidate_def)
qed

lemma arm_run_inv: "arm_inv ops (arm_run ops)"
proof (induction ops rule: rev_induct)
  case Nil
  then show ?case by (simp add: arm_run_def arm_inv_def online_stress_zero_def)
next
  case (snoc a ops)
  then show ?case using arm_inv_apply [OF snoc.IH, of a] by (simp add: arm_run_def)
qed

text \<open>C16: A session is only armed by its own connection.  Whatever sequence of control calls was made,
  if the stress test is armed for a connection, this connection has queried it, has negotiated the
  capability bit, and has set a rate with the protocol version, and the configured rate is the one
  it set and is valid.\<close>

theorem armed_by_own_connection:
  assumes "zy100_online_stress_armed conn (arm_run ops)"
  shows "zy100_stress_rate_valid (os_configured_rate (arm_run ops)) \<and>
    (\<exists>d. Command conn 0 0 (Some d) \<in> set ops) \<and>
    (\<exists>c. Negotiate conn c \<in> set ops \<and> c AND 0x20 \<noteq> 0) \<and>
    (\<exists>a d. Command conn 1 a (Some d) \<in> set ops \<and> ucast a = os_configured_rate (arm_run ops) \<and>
       ucast (drop_bit 32 a) = ZY100_STRESS_PROTOCOL_VERSION)"
  using arm_run_inv [of ops] assms by (auto simp: arm_inv_def zy100_online_stress_armed_def)

theorem armed_by_own_connection_witness:
  "zy100_online_stress_armed 3 (arm_run [Command 3 0 0 (Some 0), Negotiate 3 0x20, Command 3 1 0x100003E80 (Some 0)]) \<and>
   zy100_stress_rate_valid
     (os_configured_rate (arm_run [Command 3 0 0 (Some 0), Negotiate 3 0x20, Command 3 1 0x100003E80 (Some 0)]))"
proof -
  let ?s = "arm_run [Command 3 0 0 (Some 0), Negotiate 3 0x20, Command 3 1 0x100003E80 (Some 0)]"
  have "zy100_online_stress_armed 3 ?s"
    by (simp add: arm_run_def zy100_online_stress_command_def zy100_online_stress_negotiate_def
        zy100_online_stress_invalidate_def zy100_online_stress_armed_def online_stress_zero_def Let_def
        zy100_stress_rate_valid_def)
  then show ?thesis using armed_by_own_connection by blast
qed

section \<open>The status report\<close>

lemma encode_words:
  assumes "4 + 4 * n \<le> length d"
  shows "length (foldl (\<lambda>d i. zy100_put_u32_le (4 + i * 4) (f i) d) d [0 ..< n]) = length d \<and>
    (\<forall>i < n. zy100_get_u32_le (foldl (\<lambda>d i. zy100_put_u32_le (4 + i * 4) (f i) d) d [0 ..< n]) (4 + i * 4) = f i) \<and>
    (\<forall>j. j < 4 \<or> 4 + 4 * n \<le> j \<longrightarrow>
       foldl (\<lambda>d i. zy100_put_u32_le (4 + i * 4) (f i) d) d [0 ..< n] ! j = d ! j)"
  using assms
proof (induction n)
  case 0 then show ?case by simp
next
  case (Suc n)
  let ?e = "foldl (\<lambda>d i. zy100_put_u32_le (4 + i * 4) (f i) d) d [0 ..< n]"
  have ih: "length ?e = length d" "\<And>i. i < n \<Longrightarrow> zy100_get_u32_le ?e (4 + i * 4) = f i"
    "\<And>j. j < 4 \<or> 4 + 4 * n \<le> j \<Longrightarrow> ?e ! j = d ! j"
    using Suc.IH Suc.prems by auto
  have step: "foldl (\<lambda>d i. zy100_put_u32_le (4 + i * 4) (f i) d) d [0 ..< Suc n] =
      zy100_put_u32_le (4 + n * 4) (f n) ?e" by simp
  have "zy100_get_u32_le (zy100_put_u32_le (4 + n * 4) (f n) ?e) (4 + i * 4) = f i" if "i < Suc n" for i
  proof (cases "i = n")
    case True then show ?thesis using Suc.prems ih(1) by simp
  next
    case False then show ?thesis using that ih(2) by simp
  qed
  then show ?case unfolding step using ih(1,3) by simp
qed

text \<open>C18: The status report can be read back.  Encoded into a buffer of at least 164 bytes it carries
  the protocol version, its length, and word \<open>i\<close> of the snapshot at offset \<open>4 + 4 i\<close>; bytes behind
  the report are left alone.\<close>

theorem status_report_reads_back:
  assumes "164 \<le> length dst" "i < 40"
  shows "zy100_get_u16_le (zy100_online_stress_encode s dst) 0 = 1 \<and>
    zy100_get_u16_le (zy100_online_stress_encode s dst) 2 = 164 \<and>
    zy100_get_u32_le (zy100_online_stress_encode s dst) (4 + 4 * i) = os_snapshot s ! i \<and>
    length (zy100_online_stress_encode s dst) = length dst \<and>
    drop 164 (zy100_online_stress_encode s dst) = drop 164 dst"
proof -
  let ?d = "zy100_put_u16_le 2 164 (zy100_put_u16_le 0 1 dst)"
  let ?e = "foldl (\<lambda>d i. zy100_put_u32_le (4 + i * 4) (os_snapshot s ! i) d) ?d [0 ..< 40]"
  have e: "zy100_online_stress_encode s dst = ?e" by (simp only: zy100_online_stress_encode_def ucast_1)
  have len: "4 + 4 * 40 \<le> length ?d" using assms(1) by simp
  note w = encode_words [OF len, of "\<lambda>i. os_snapshot s ! i"]
  have h: "zy100_get_u16_le ?e k = zy100_get_u16_le ?d k" if "k \<in> {0, 2}" for k
    using w that by (intro get_u16_cong) auto
  have v: "zy100_get_u16_le ?d 0 = 1" "zy100_get_u16_le ?d 2 = 164" using assms(1) by simp_all
  have d: "drop 164 ?e = drop 164 dst"
    using w assms(1) by (intro nth_equalityI) simp_all
  show ?thesis unfolding e
    using h [of 0] h [of 2] v w assms(2) d by (simp add: mult.commute)
qed

theorem status_report_reads_back_witness:
  "zy100_get_u32_le (zy100_online_stress_encode (w_stress armed_world) (replicate 164 0)) 8 = 16000"
proof -
  have "os_snapshot (w_stress armed_world) ! 1 = 16000"
    by (simp add: armed_world_def zy100_online_stress_session_def armed_stress_def online_stress_zero_def Let_def)
  then show ?thesis using status_report_reads_back [of "replicate 164 0" 1 "w_stress armed_world"] by simp
qed

text \<open>C19: Status reports keep the second.  After a call of publish less than a second has passed since the
  time of the last report, which lies a whole number of seconds after the previous one; a report is
  pending when it was before, was forced or a second has passed; and every second without a report of its own, and
  every report overwritten before it was sent, is counted as skipped.\<close>

theorem publish_keeps_seconds:
  "let s' = zy100_online_stress_publish now raw force s; periods = (now - os_publish_ms s) div 1000
   in unat (now - os_publish_ms s') < 1000 \<and>
     now - os_publish_ms s' = (now - os_publish_ms s) mod 1000 \<and>
     (os_status_pending s' \<longleftrightarrow> os_status_pending s \<or> force \<or> 0 < periods) \<and>
     os_skipped s' + of_bool (force \<and> periods = 0) = os_skipped s +
       (if force \<or> 0 < periods then of_bool (os_status_pending s) + (if periods = 0 then 1 else periods - 1) else 0)"
proof -
  let ?p = "(now - os_publish_ms s) div 1000"
  let ?s' = "zy100_online_stress_publish now raw force s"
  have m: "now - (os_publish_ms s + ?p * 1000) = (now - os_publish_ms s) mod 1000"
  proof -
    have "now - os_publish_ms s = ?p * 1000 + (now - os_publish_ms s) mod 1000" by (rule div_mult_mod_eq [symmetric])
    then show ?thesis by (simp add: algebra_simps)
  qed
  have pm: "os_publish_ms ?s' = (if \<not> force \<and> ?p = 0 then os_publish_ms s else os_publish_ms s + ?p * 1000)"
    by (simp add: zy100_online_stress_publish_def Let_def)
  have eq: "now - os_publish_ms ?s' = (now - os_publish_ms s) mod 1000"
    using m unfolding pm by (cases "?p = 0") simp_all
  moreover have "unat ((now - os_publish_ms s) mod 1000) < 1000" by (simp add: unat_mod)
  moreover have "os_status_pending ?s' \<longleftrightarrow> os_status_pending s \<or> force \<or> ?p \<noteq> 0"
    by (auto simp: zy100_online_stress_publish_def Let_def)
  moreover have "q > 1 \<longleftrightarrow> q \<noteq> 0 \<and> q \<noteq> 1" for q :: u32
    unfolding word_less_nat_alt word_unat_eq_iff by (cases "unat q") auto
  from this [of ?p] have "os_skipped ?s' + of_bool (force \<and> ?p = 0) = os_skipped s +
      (if force \<or> ?p \<noteq> 0 then of_bool (os_status_pending s) + (if ?p = 0 then 1 else ?p - 1) else 0)"
    by (auto simp: zy100_online_stress_publish_def Let_def)
  ultimately show ?thesis unfolding Let_def word_gt_0 by simp
qed

section \<open>The shape of the state\<close>

text \<open>C17: Every access of the writer is in bounds.  In every state a session reaches, the ring has 4096
  bytes with head and fill inside it, the delay queue has 16 entries, the page and the
  read-back buffer have 256 bytes, and while a record is written its pages and its data fit: the
  page offset is a whole number of pages inside the record, and the bytes still to copy are in the
  ring.\<close>

theorem writer_buffers_in_bounds:
  assumes "writer_start D x" "(writer_step D)\<^sup>*\<^sup>* x (w, bs)"
  shows "(\<exists>ring p v. src_ring (os_source (w_stress w)) = Some ring \<and> length ring = 4096 \<and>
      os_page (w_stress w) = Some p \<and> length p = 256 \<and> os_verify (w_stress w) = Some v \<and> length v = 256) \<and>
    unat (src_head (os_source (w_stress w))) < 4096 \<and> unat (src_used (os_source (w_stress w))) \<le> 4096 \<and>
    length (src_delays (os_source (w_stress w))) = 16 \<and>
    (src_error (os_source (w_stress w)) = 0 \<and> os_phase (w_stress w) \<noteq> 0 \<longrightarrow>
       256 dvd unat (os_page_offset (w_stress w)) \<and>
       unat (os_page_offset (w_stress w)) \<le> unat (os_record_bytes (w_stress w)) \<and>
       unat (os_data_left (w_stress w)) \<le> unat (src_used (os_source (w_stress w))))"
proof -
  have ok: "writer_ok (w_stress w) (sp_reservation (w_spool w)) bs" by (rule writer_reach [OF assms])
  note st = ok_stable [OF ok]
  have so: "source_ok (os_source (w_stress w))" using st by (simp add: writer_stable_def)
  have "writer_record (w_stress w) bs" if "src_error (os_source (w_stress w)) = 0" "os_phase (w_stress w) \<noteq> 0"
    using ok that by (simp add: writer_ok_def)
  then show ?thesis
    using st so by (auto simp: writer_stable_def source_ok_def writer_record_def word_le_nat_alt)
qed

theorem writer_buffers_in_bounds_witness:
  "unat (os_page_offset (w_stress page_world)) \<le> unat (os_record_bytes (w_stress page_world)) \<and>
   unat (os_data_left (w_stress page_world)) \<le> unat (src_used (os_source (w_stress page_world)))"
proof -
  obtain bs where "(writer_step ram_flash)\<^sup>*\<^sup>* (begun_world, []) (page_world, bs)" using paged(1) by blast
  then show ?thesis using writer_buffers_in_bounds [OF begun_start] paged(2,3) by fastforce
qed

end
