(* ===== verification/InternalFlash.thy ===== *)
theory InternalFlash
  imports Prelude
begin

text \<open>
  The driver of the internal flash, \<open>driver/drv_internal_flash.c\<close>: it resolves the data bank the
  vendor's flash map grants, checks every access against it and hands it to the vendor's locked
  flash functions.

  The vendor's functions and the constants of its headers are the record \<open>'d chip\<close>, functions on an
  unknown state \<open>'d\<close>; the bank queries only read it.  A read gets the old buffer and yields the new one.  A pointer
  that may be NULL is an option.  Log lines are not modelled.
\<close>

unbundle bit_operations_syntax

section \<open>The vendor's flash functions\<close>

record 'd chip =
  FMC_SEC_SECTION_LEN :: u32
  FLASH_OFFSET_TO_NO_CACHE :: u32
  flash_get_bank_addr :: "'d \<Rightarrow> u32"
  flash_get_bank_size :: "'d \<Rightarrow> u32"
  flash_erase_locked :: "u32 \<Rightarrow> 'd \<Rightarrow> bool \<times> 'd"
  flash_write_locked :: "u32 \<Rightarrow> u32 \<Rightarrow> u8 list \<Rightarrow> 'd \<Rightarrow> bool \<times> 'd"
  flash_read_locked :: "u32 \<Rightarrow> u32 \<Rightarrow> u8 list \<Rightarrow> 'd \<Rightarrow> bool \<times> u8 list \<times> 'd"

abbreviation (input) "USER_DATA1_ADDR \<equiv> (0x008FA000 :: u32)"
abbreviation (input) "USER_DATA1_SIZE \<equiv> (0x6000 :: u32)"

datatype drv_status = DRV_OK | DRV_INVALID_PARAM | DRV_NO_REGION | DRV_LAYOUT_MISMATCH
  | DRV_OUT_OF_RANGE | DRV_ERASE_FAILED | DRV_WRITE_FAILED | DRV_READ_FAILED

record drv_region =
  rg_base_addr :: u32
  rg_size_bytes :: u32
  rg_sector_bytes :: u32

section \<open>Operations\<close>

definition drv_internal_flash_is_aligned :: "u32 \<Rightarrow> u32 \<Rightarrow> bool" where
  "drv_internal_flash_is_aligned value alignment \<longleftrightarrow> alignment \<noteq> 0 \<and> value mod alignment = 0"

definition drv_internal_flash_normalize_addr :: "'d chip \<Rightarrow> u32 \<Rightarrow> u32" where
  "drv_internal_flash_normalize_addr C addr = addr AND NOT (FLASH_OFFSET_TO_NO_CACHE C)"

text \<open>The region is written only with the status OK: a sum.\<close>

definition drv_internal_flash_resolve_region :: "'d chip \<Rightarrow> 'd \<Rightarrow> drv_status + drv_region" where
  "drv_internal_flash_resolve_region C d =
     (let base_addr = flash_get_bank_addr C d;
          normalized_base_addr = drv_internal_flash_normalize_addr C base_addr;
          size_bytes = flash_get_bank_size C d
      in if base_addr = 0 \<or> size_bytes = 0 then Inl DRV_NO_REGION
         else if normalized_base_addr \<noteq> USER_DATA1_ADDR \<or> size_bytes \<noteq> USER_DATA1_SIZE \<or>
           \<not> drv_internal_flash_is_aligned normalized_base_addr (FMC_SEC_SECTION_LEN C) \<or>
           \<not> drv_internal_flash_is_aligned size_bytes (FMC_SEC_SECTION_LEN C)
         then Inl DRV_LAYOUT_MISMATCH
         else Inr \<lparr>rg_base_addr = normalized_base_addr, rg_size_bytes = size_bytes,
             rg_sector_bytes = FMC_SEC_SECTION_LEN C\<rparr>)"

definition drv_internal_flash_check_range :: "'d chip \<Rightarrow> u32 \<Rightarrow> u32 \<Rightarrow> 'd \<Rightarrow> drv_status + drv_region" where
  "drv_internal_flash_check_range C offset len d =
     (if len = 0 then Inl DRV_INVALID_PARAM
      else case drv_internal_flash_resolve_region C d of
        Inl status \<Rightarrow> Inl status
      | Inr region \<Rightarrow>
          if offset > rg_size_bytes region \<or> len > rg_size_bytes region - offset
          then Inl DRV_OUT_OF_RANGE else Inr region)"

definition drv_internal_flash_get_region :: "'d chip \<Rightarrow> 'd \<Rightarrow> drv_status + drv_region" where
  "drv_internal_flash_get_region C d = drv_internal_flash_resolve_region C d"

definition drv_internal_flash_erase_sector :: "'d chip \<Rightarrow> u32 \<Rightarrow> 'd \<Rightarrow> drv_status \<times> 'd" where
  "drv_internal_flash_erase_sector C offset d =
     (if \<not> drv_internal_flash_is_aligned offset (FMC_SEC_SECTION_LEN C) then (DRV_INVALID_PARAM, d)
      else case drv_internal_flash_check_range C offset (FMC_SEC_SECTION_LEN C) d of
        Inl status \<Rightarrow> (status, d)
      | Inr region \<Rightarrow> (case flash_erase_locked C (rg_base_addr region + offset) d of
          (ok, d') \<Rightarrow> (if ok then DRV_OK else DRV_ERASE_FAILED, d')))"

text \<open>The loop of \<open>erase_range\<close>, over the sector offsets \<open>offset, offset + S, ... < offset + length\<close>;
  it stops at the first sector that fails.\<close>

fun drv_erase_sectors :: "'d chip \<Rightarrow> u32 \<Rightarrow> u32 list \<Rightarrow> 'd \<Rightarrow> drv_status \<times> 'd" where
  "drv_erase_sectors C base [] d = (DRV_OK, d)"
| "drv_erase_sectors C base (off # offs) d =
     (case flash_erase_locked C (base + off) d of
        (ok, d') \<Rightarrow> if \<not> ok then (DRV_ERASE_FAILED, d') else drv_erase_sectors C base offs d')"

definition drv_sector_offsets :: "u32 \<Rightarrow> u32 \<Rightarrow> u32 \<Rightarrow> u32 list" where
  "drv_sector_offsets S offset len = map (\<lambda>k. offset + of_nat k * S) [0 ..< unat len div unat S]"

definition drv_internal_flash_erase_range :: "'d chip \<Rightarrow> u32 \<Rightarrow> u32 \<Rightarrow> 'd \<Rightarrow> drv_status \<times> 'd" where
  "drv_internal_flash_erase_range C offset len d =
     (if \<not> drv_internal_flash_is_aligned offset (FMC_SEC_SECTION_LEN C) \<or>
         \<not> drv_internal_flash_is_aligned len (FMC_SEC_SECTION_LEN C) then (DRV_INVALID_PARAM, d)
      else case drv_internal_flash_check_range C offset len d of
        Inl status \<Rightarrow> (status, d)
      | Inr region \<Rightarrow>
          drv_erase_sectors C (rg_base_addr region) (drv_sector_offsets (FMC_SEC_SECTION_LEN C) offset len) d)"

definition drv_internal_flash_erase_all :: "'d chip \<Rightarrow> 'd \<Rightarrow> drv_status \<times> 'd" where
  "drv_internal_flash_erase_all C d =
     (case drv_internal_flash_resolve_region C d of
        Inl status \<Rightarrow> (status, d)
      | Inr region \<Rightarrow> drv_internal_flash_erase_range C 0 (rg_size_bytes region) d)"

definition drv_internal_flash_write :: "'d chip \<Rightarrow> u32 \<Rightarrow> u8 list option \<Rightarrow> u32 \<Rightarrow> 'd \<Rightarrow> drv_status \<times> 'd" where
  "drv_internal_flash_write C offset data len d =
     (case data of None \<Rightarrow> (DRV_INVALID_PARAM, d)
      | Some bs \<Rightarrow> (case drv_internal_flash_check_range C offset len d of
          Inl status \<Rightarrow> (status, d)
        | Inr region \<Rightarrow> (case flash_write_locked C (rg_base_addr region + offset) len bs d of
            (ok, d') \<Rightarrow> (if ok then DRV_OK else DRV_WRITE_FAILED, d'))))"

definition drv_internal_flash_read :: "'d chip \<Rightarrow> u32 \<Rightarrow> u8 list option \<Rightarrow> u32 \<Rightarrow> 'd \<Rightarrow>
    drv_status \<times> u8 list option \<times> 'd" where
  "drv_internal_flash_read C offset data len d =
     (case data of None \<Rightarrow> (DRV_INVALID_PARAM, None, d)
      | Some bs \<Rightarrow> (case drv_internal_flash_check_range C offset len d of
          Inl status \<Rightarrow> (status, Some bs, d)
        | Inr region \<Rightarrow> (case flash_read_locked C (rg_base_addr region + offset) len bs d of
            (ok, bs', d') \<Rightarrow> (if ok then DRV_OK else DRV_READ_FAILED, Some bs', d'))))"

definition drv_internal_flash_status_name :: "drv_status \<Rightarrow> string" where
  "drv_internal_flash_status_name status = (case status of
     DRV_OK \<Rightarrow> ''OK'' | DRV_INVALID_PARAM \<Rightarrow> ''INVALID_PARAM'' | DRV_NO_REGION \<Rightarrow> ''NO_REGION''
   | DRV_LAYOUT_MISMATCH \<Rightarrow> ''LAYOUT_MISMATCH'' | DRV_OUT_OF_RANGE \<Rightarrow> ''OUT_OF_RANGE''
   | DRV_ERASE_FAILED \<Rightarrow> ''ERASE_FAILED'' | DRV_WRITE_FAILED \<Rightarrow> ''WRITE_FAILED''
   | DRV_READ_FAILED \<Rightarrow> ''READ_FAILED'')"

section \<open>Every access stays in the bank\<close>

text \<open>An erase of one sector, a write of \<open>n\<close> bytes at an address: the two ways the driver changes the
  flash.  \<open>in_bank\<close> is the range the layout reserves.\<close>

definition in_bank :: "u32 \<Rightarrow> nat \<Rightarrow> bool" where
  "in_bank a n \<longleftrightarrow> 0x008FA000 \<le> unat a \<and> unat a + n \<le> 0x00900000"

inductive bank_access :: "'d chip \<Rightarrow> 'd \<Rightarrow> 'd \<Rightarrow> bool" for C where
  bank_erase: "in_bank a (unat (FMC_SEC_SECTION_LEN C)) \<Longrightarrow> unat (FMC_SEC_SECTION_LEN C) dvd unat a \<Longrightarrow>
    bank_access C d (snd (flash_erase_locked C a d))"
| bank_write: "in_bank a (unat n) \<Longrightarrow> bank_access C d (snd (flash_write_locked C a n bs d))"
| bank_read: "in_bank a (unat n) \<Longrightarrow> bank_access C d (snd (snd (flash_read_locked C a n bs d)))"

lemma aligned_unat:
  assumes "drv_internal_flash_is_aligned v a"
  shows "0 < unat a" "unat a dvd unat v"
proof -
  have "a \<noteq> 0" "unat (v mod a) = 0"
    using assms unfolding drv_internal_flash_is_aligned_def by simp_all
  then show "0 < unat a" "unat a dvd unat v"
    by (simp_all add: unat_mod_distrib unat_gt_0 mod_eq_0_iff_dvd)
qed

lemma resolve_ok:
  assumes "drv_internal_flash_resolve_region C d = Inr region"
  shows "rg_base_addr region = USER_DATA1_ADDR" "rg_size_bytes region = USER_DATA1_SIZE"
    "0 < unat (FMC_SEC_SECTION_LEN C)" "unat (FMC_SEC_SECTION_LEN C) dvd 0x008FA000"
    "unat (FMC_SEC_SECTION_LEN C) dvd 0x6000"
proof -
  have "rg_base_addr region = USER_DATA1_ADDR \<and> rg_size_bytes region = USER_DATA1_SIZE \<and>
      drv_internal_flash_is_aligned USER_DATA1_ADDR (FMC_SEC_SECTION_LEN C) \<and>
      drv_internal_flash_is_aligned USER_DATA1_SIZE (FMC_SEC_SECTION_LEN C)"
    using assms by (auto simp: drv_internal_flash_resolve_region_def Let_def split: if_splits)
  then show "rg_base_addr region = USER_DATA1_ADDR" "rg_size_bytes region = USER_DATA1_SIZE"
    "0 < unat (FMC_SEC_SECTION_LEN C)" "unat (FMC_SEC_SECTION_LEN C) dvd 0x008FA000"
    "unat (FMC_SEC_SECTION_LEN C) dvd 0x6000"
    by (auto dest: aligned_unat)
qed

lemma check_range_ok:
  assumes "drv_internal_flash_check_range C offset len d = Inr region"
  shows "drv_internal_flash_resolve_region C d = Inr region" "len \<noteq> 0"
    "unat offset + unat len \<le> 0x6000"
proof -
  show r: "drv_internal_flash_resolve_region C d = Inr region" "len \<noteq> 0"
    using assms by (auto simp: drv_internal_flash_check_range_def split: if_splits sum.splits)
  have "\<not> offset > rg_size_bytes region" "\<not> len > rg_size_bytes region - offset"
    using assms by (auto simp: drv_internal_flash_check_range_def split: if_splits sum.splits)
  then have "offset \<le> 0x6000" "len \<le> 0x6000 - offset" using resolve_ok(2) [OF r(1)] by auto
  then show "unat offset + unat len \<le> 0x6000" by (simp add: word_le_nat_alt unat_sub)
qed

lemma bank_base:
  "unat offset + n \<le> 0x6000 \<Longrightarrow> unat (USER_DATA1_ADDR + offset) = 0x008FA000 + unat offset"
  "unat offset + n \<le> 0x6000 \<Longrightarrow> in_bank (USER_DATA1_ADDR + offset) n"
proof -
  assume le: "unat offset + n \<le> 0x6000"
  show "unat (USER_DATA1_ADDR + offset) = 0x008FA000 + unat offset"
    using le by (subst unat_add_32) auto
  then show "in_bank (USER_DATA1_ADDR + offset) n" using le by (simp add: in_bank_def)
qed


lemma erase_sectors_in_bank:
  assumes "\<forall>off \<in> set offs. in_bank (base + off) (unat (FMC_SEC_SECTION_LEN C)) \<and>
      unat (FMC_SEC_SECTION_LEN C) dvd unat (base + off)"
    and "drv_erase_sectors C base offs d = (st, d')"
  shows "(bank_access C)\<^sup>*\<^sup>* d d'"
  using assms
proof (induction offs arbitrary: d)
  case Nil then show ?case by simp
next
  case (Cons off offs)
  obtain ok d1 where e: "flash_erase_locked C (base + off) d = (ok, d1)" by (rule prod.exhaust)
  have "bank_access C d (snd (flash_erase_locked C (base + off) d))"
    using Cons.prems(1) by (intro bank_erase) auto
  then have s: "bank_access C d d1" by (simp add: e)
  show ?case
  proof (cases ok)
    case True
    then have "(bank_access C)\<^sup>*\<^sup>* d1 d'" using Cons e by simp
    then show ?thesis using s by (rule converse_rtranclp_into_rtranclp [rotated])
  next
    case False
    then show ?thesis using Cons.prems(2) e s by simp
  qed
qed

lemma sector_offset_unat:
  fixes S offset len :: u32
  assumes "k < unat len div unat S" "unat offset + unat len \<le> 0x6000" "0 < unat S"
  shows "unat (offset + of_nat k * S) = unat offset + k * unat S"
    "unat offset + k * unat S + unat S \<le> unat offset + unat len"
proof -
  have "Suc k * unat S \<le> unat len"
    using assms(1) by (metis Suc_leI div_times_less_eq_dividend le_trans mult_le_mono1)
  then show le: "unat offset + k * unat S + unat S \<le> unat offset + unat len" by simp
  have "k \<le> k * unat S" using assms(3) by simp
  then have "k < 4294967296" "k * unat S < 4294967296" using le assms(2) by linarith+
  then have k: "unat (of_nat k :: u32) = k" "k * unat S < 4294967296"
    by (simp_all add: unat_of_nat)
  then have "unat (of_nat k * S) = k * unat S" by (simp add: unat_word_ariths)
  then show "unat (offset + of_nat k * S) = unat offset + k * unat S"
    using le assms(2) by (subst unat_add_32) auto
qed


lemma erase_range_in_bank:
  "(bank_access C)\<^sup>*\<^sup>* d (snd (drv_internal_flash_erase_range C offset len d))"
proof (cases "drv_internal_flash_is_aligned offset (FMC_SEC_SECTION_LEN C) \<and>
    drv_internal_flash_is_aligned len (FMC_SEC_SECTION_LEN C)")
  case al: True
  show ?thesis
  proof (cases "drv_internal_flash_check_range C offset len d")
    case (Inl st)
    then show ?thesis by (simp add: drv_internal_flash_erase_range_def)
  next
    case (Inr region)
    note c = check_range_ok [OF Inr]
    note r = resolve_ok [OF c(1)]
    let ?S = "FMC_SEC_SECTION_LEN C"
    have "in_bank (rg_base_addr region + off) (unat ?S) \<and> unat ?S dvd unat (rg_base_addr region + off)"
      if off: "off \<in> set (drv_sector_offsets ?S offset len)" for off
    proof -
      obtain k where k: "k < unat len div unat ?S" "off = offset + of_nat k * ?S"
        using off by (auto simp: drv_sector_offsets_def)
      note o = sector_offset_unat [OF k(1) c(3) r(3)]
      have le: "unat off + unat ?S \<le> 0x6000" using o c(3) k(2) by simp
      have "unat ?S dvd unat off" using o(1) k(2) aligned_unat(2) [of offset ?S] al by simp
      then show ?thesis using bank_base [OF le] r(1,4) by simp
    qed
    then have "(bank_access C)\<^sup>*\<^sup>* d
        (snd (drv_erase_sectors C (rg_base_addr region) (drv_sector_offsets ?S offset len) d))"
      by (intro erase_sectors_in_bank [OF _ surjective_pairing]) blast
    then show ?thesis using al Inr by (simp add: drv_internal_flash_erase_range_def)
  qed
next
  case False
  then show ?thesis by (auto simp: drv_internal_flash_erase_range_def)
qed

lemma erase_sector_in_bank:
  "(bank_access C)\<^sup>*\<^sup>* d (snd (drv_internal_flash_erase_sector C offset d))"
proof (cases "drv_internal_flash_is_aligned offset (FMC_SEC_SECTION_LEN C)")
  case al: True
  let ?S = "FMC_SEC_SECTION_LEN C"
  show ?thesis
  proof (cases "drv_internal_flash_check_range C offset ?S d")
    case (Inl st)
    then show ?thesis by (simp add: drv_internal_flash_erase_sector_def)
  next
    case (Inr region)
    note c = check_range_ok [OF Inr]
    note r = resolve_ok [OF c(1)]
    have "bank_access C d (snd (flash_erase_locked C (rg_base_addr region + offset) d))"
      using bank_base [OF c(3)] r(1,4) aligned_unat(2) [OF al] by (intro bank_erase) auto
    then show ?thesis using al Inr by (auto simp: drv_internal_flash_erase_sector_def split: prod.split)
  qed
next
  case False
  then show ?thesis by (auto simp: drv_internal_flash_erase_sector_def)
qed

lemma write_in_bank:
  assumes "drv_internal_flash_check_range C offset len d = Inr region"
    and "flash_write_locked C (rg_base_addr region + offset) len bs d = (ok, d')"
  shows "(bank_access C)\<^sup>*\<^sup>* d d'"
proof -
  note c = check_range_ok [OF assms(1)]
  have "bank_access C d (snd (flash_write_locked C (rg_base_addr region + offset) len bs d))"
    using bank_base(2) [OF c(3)] resolve_ok(1) [OF c(1)] by (intro bank_write) simp
  then show ?thesis using assms(2) by auto
qed

lemma read_in_bank:
  assumes "drv_internal_flash_check_range C offset len d = Inr region"
    and "flash_read_locked C (rg_base_addr region + offset) len bs d = (ok, bs', d')"
  shows "(bank_access C)\<^sup>*\<^sup>* d d'"
proof -
  note c = check_range_ok [OF assms(1)]
  have "bank_access C d (snd (snd (flash_read_locked C (rg_base_addr region + offset) len bs d)))"
    using bank_base(2) [OF c(3)] resolve_ok(1) [OF c(1)] by (intro bank_read) simp
  then show ?thesis using assms(2) by auto
qed

lemma check_range_not_ok: "drv_internal_flash_check_range C offset len d \<noteq> Inl DRV_OK"
  by (auto simp: drv_internal_flash_check_range_def drv_internal_flash_resolve_region_def Let_def
      split: sum.split)

section \<open>Properties\<close>


text \<open>A memory as the chip: an erase sets the bytes of the sector, a write clears bits, a read returns
  the bytes.\<close>

definition ram_chip :: "(u32 \<Rightarrow> u8) chip" where
  "ram_chip = \<lparr>FMC_SEC_SECTION_LEN = 4096, FLASH_OFFSET_TO_NO_CACHE = 0,
     flash_get_bank_addr = \<lambda>_. USER_DATA1_ADDR, flash_get_bank_size = \<lambda>_. USER_DATA1_SIZE,
     flash_erase_locked = \<lambda>a m. (True, \<lambda>x. if unat a \<le> unat x \<and> unat x < unat a + 4096 then 0xFF else m x),
     flash_write_locked = \<lambda>a n bs m. (True, \<lambda>x. if unat a \<le> unat x \<and> unat x < unat a + unat n
       then m x AND bs ! (unat x - unat a) else m x),
     flash_read_locked = \<lambda>a n bs m. (True, map (\<lambda>i. m (a + of_nat i)) [0 ..< unat n], m)\<rparr>"

lemma ram_resolve [simp]:
  "drv_internal_flash_resolve_region ram_chip d =
     Inr \<lparr>rg_base_addr = USER_DATA1_ADDR, rg_size_bytes = USER_DATA1_SIZE, rg_sector_bytes = 4096\<rparr>"
  by (simp add: drv_internal_flash_resolve_region_def ram_chip_def Let_def
      drv_internal_flash_normalize_addr_def drv_internal_flash_is_aligned_def)


end
