(* ===== verification/OfflineMarker.thy ===== *)
theory OfflineMarker
  imports InternalFlash ByteOrder Crc32
begin

text \<open>
  The marker of the offline storage, \<open>storage/zy100_offline_v2_marker.c\<close>: a 256 byte page in two
  slots of the internal flash.  A marker of generation \<open>g\<close> goes to slot A when \<open>g\<close> is even and to
  slot B when it is odd, so that a commit never erases the slot of the marker it replaces; a load
  picks the newer of the valid slots.

  The state of a marker is the 32 bit word the code casts to its enum.  \<open>zy100_device_internal_id\<close>
  is the constant of the build.  The two page buffers of a load lie on the stack; their old contents
  are the argument \<open>stk\<close>.
\<close>

unbundle bit_operations_syntax

section \<open>Data\<close>

record offline_marker =
  mk_generation :: u32
  mk_state :: u32
  mk_device_id :: u32
  mk_layout_crc32 :: u32
  mk_online_spool_crc32 :: u32
  mk_next_erase_addr :: u32
  mk_factory_handoff :: u32

datatype handoff_status = HANDOFF_NOT_PENDING | HANDOFF_CONSUMED | HANDOFF_ERROR

abbreviation (input) "OFFLINE_V2_MARKER_MAGIC \<equiv> (0x314D464F :: u32)"
abbreviation (input) "OFFLINE_V2_MARKER_COMMIT \<equiv> (0x4D4B5632 :: u32)"
abbreviation (input) "OFFLINE_V2_MARKER_SLOT_A \<equiv> (0 :: u32)"
abbreviation (input) "OFFLINE_V2_MARKER_SLOT_B \<equiv> (0x1000 :: u32)"
abbreviation (input) "ZY100_OFFLINE_V2_MARKER_NONE \<equiv> (0 :: u32)"
abbreviation (input) "ZY100_OFFLINE_V2_MARKER_MIGRATING \<equiv> (1 :: u32)"
abbreviation (input) "ZY100_OFFLINE_V2_MARKER_READY \<equiv> (2 :: u32)"
abbreviation (input) "ZY100_OFFLINE_V2_MARKER_CLEARING \<equiv> (4 :: u32)"
abbreviation (input) "ZY100_OFFLINE_V2_FACTORY_HANDOFF_NONE \<equiv> (0 :: u32)"
abbreviation (input) "ZY100_OFFLINE_V2_FACTORY_HANDOFF_PENDING \<equiv> (0x31484646 :: u32)"

definition zy100_device_internal_id :: u32 where
  "zy100_device_internal_id = 5"

section \<open>Operations\<close>

definition marker_generation_newer :: "u32 \<Rightarrow> u32 \<Rightarrow> bool" where
  "marker_generation_newer candidate ref \<longleftrightarrow> candidate \<noteq> ref \<and> candidate - ref < 0x80000000"

text \<open>\<open>None\<close> where the code answers false.\<close>

definition marker_decode :: "u8 list \<Rightarrow> offline_marker option" where
  "marker_decode page =
     (if zy100_get_u32_le page 0x00 \<noteq> OFFLINE_V2_MARKER_MAGIC \<or> zy100_get_u16_le page 0x04 \<noteq> 1 \<or>
         zy100_get_u16_le page 0x06 \<noteq> 256 \<or> zy100_get_u32_le page 0xFC \<noteq> OFFLINE_V2_MARKER_COMMIT
      then None
      else let stored_crc = zy100_get_u32_le page 0xF8;
               calculated_crc = zy100_crc32_ieee (put_at 0xF8 (replicate 4 0) page)
      in if stored_crc \<noteq> calculated_crc then None
      else let marker = \<lparr>mk_generation = zy100_get_u32_le page 0x08, mk_state = zy100_get_u32_le page 0x0C,
             mk_device_id = zy100_get_u32_le page 0x10, mk_layout_crc32 = zy100_get_u32_le page 0x14,
             mk_online_spool_crc32 = zy100_get_u32_le page 0x18,
             mk_next_erase_addr = zy100_get_u32_le page 0x1C,
             mk_factory_handoff = zy100_get_u32_le page 0x20\<rparr>
      in if mk_device_id marker = zy100_device_internal_id \<and>
            ZY100_OFFLINE_V2_MARKER_MIGRATING \<le> mk_state marker \<and>
            mk_state marker \<le> ZY100_OFFLINE_V2_MARKER_CLEARING
         then Some marker else None)"

text \<open>The choice between the two slots.\<close>

fun marker_pick :: "offline_marker option \<Rightarrow> offline_marker option \<Rightarrow> offline_marker" where
  "marker_pick None None = \<lparr>mk_generation = 0, mk_state = ZY100_OFFLINE_V2_MARKER_NONE, mk_device_id = 0,
     mk_layout_crc32 = 0, mk_online_spool_crc32 = 0, mk_next_erase_addr = 0, mk_factory_handoff = 0\<rparr>"
| "marker_pick (Some a) None = a"
| "marker_pick (Some a) (Some b) =
     (if marker_generation_newer (mk_generation a) (mk_generation b) then a else b)"
| "marker_pick None (Some b) = b"

definition zy100_offline_v2_marker_load :: "'d chip \<Rightarrow> u8 list \<Rightarrow> offline_marker option \<Rightarrow> 'd \<Rightarrow>
    bool \<times> offline_marker option \<times> 'd" where
  "zy100_offline_v2_marker_load C stk out d =
     (if out = None then (False, None, d)
      else case drv_internal_flash_read C OFFLINE_V2_MARKER_SLOT_A (Some (take 256 stk)) 256 d of (sa, pa, d1) \<Rightarrow>
        if sa \<noteq> DRV_OK then (False, out, d1)
        else case drv_internal_flash_read C OFFLINE_V2_MARKER_SLOT_B (Some (take 256 (drop 256 stk))) 256 d1 of
          (sb, pb, d2) \<Rightarrow>
            if sb \<noteq> DRV_OK then (False, out, d2)
            else (True, Some (marker_pick (marker_decode (the pa)) (marker_decode (the pb))), d2))"

definition marker_slot :: "u32 \<Rightarrow> u32" where
  "marker_slot generation = (if generation AND 1 \<noteq> 0 then OFFLINE_V2_MARKER_SLOT_B else OFFLINE_V2_MARKER_SLOT_A)"

text \<open>The page a commit writes; first without its checksum.\<close>

definition marker_page_open :: "offline_marker \<Rightarrow> u8 list" where
  "marker_page_open m =
     (zy100_put_u32_le 0xFC OFFLINE_V2_MARKER_COMMIT \<circ> put_at 0xF8 (replicate 4 0) \<circ>
      zy100_put_u32_le 0x20 (mk_factory_handoff m) \<circ> zy100_put_u32_le 0x1C (mk_next_erase_addr m) \<circ>
      zy100_put_u32_le 0x18 (mk_online_spool_crc32 m) \<circ> zy100_put_u32_le 0x14 (mk_layout_crc32 m) \<circ>
      zy100_put_u32_le 0x10 (mk_device_id m) \<circ> zy100_put_u32_le 0x0C (mk_state m) \<circ>
      zy100_put_u32_le 0x08 (mk_generation m) \<circ> zy100_put_u16_le 0x06 256 \<circ> zy100_put_u16_le 0x04 1 \<circ>
      zy100_put_u32_le 0x00 OFFLINE_V2_MARKER_MAGIC) (replicate 256 0xFF)"

definition marker_page :: "offline_marker \<Rightarrow> u8 list" where
  "marker_page m = (let page = marker_page_open m; crc = zy100_crc32_ieee page
     in zy100_put_u32_le 0xF8 crc page)"

definition zy100_offline_v2_marker_commit :: "'d chip \<Rightarrow> offline_marker option \<Rightarrow> 'd \<Rightarrow> bool \<times> 'd" where
  "zy100_offline_v2_marker_commit C marker d =
     (case marker of None \<Rightarrow> (False, d)
      | Some m \<Rightarrow>
          if mk_state m < ZY100_OFFLINE_V2_MARKER_MIGRATING \<or> mk_state m > ZY100_OFFLINE_V2_MARKER_CLEARING \<or>
             mk_device_id m \<noteq> zy100_device_internal_id then (False, d)
          else let slot_offset = marker_slot (mk_generation m); page = marker_page m
          in case drv_internal_flash_erase_sector C slot_offset d of (s1, d1) \<Rightarrow>
            if s1 \<noteq> DRV_OK then (False, d1)
            else case drv_internal_flash_write C slot_offset (Some page) 256 d1 of (s2, d2) \<Rightarrow> (s2 = DRV_OK, d2))"

definition zy100_offline_v2_marker_commit_fresh_ready :: "'d chip \<Rightarrow> offline_marker option \<Rightarrow> 'd \<Rightarrow>
    bool \<times> 'd" where
  "zy100_offline_v2_marker_commit_fresh_ready C marker d =
     (case marker of None \<Rightarrow> (False, d)
      | Some m \<Rightarrow>
          if mk_state m \<noteq> ZY100_OFFLINE_V2_MARKER_READY then (False, d)
          else case zy100_offline_v2_marker_commit C marker d of (ok, d1) \<Rightarrow>
            if \<not> ok then (False, d1)
            else let stale_slot = (if mk_generation m AND 1 \<noteq> 0 then OFFLINE_V2_MARKER_SLOT_A
                else OFFLINE_V2_MARKER_SLOT_B)
            in case drv_internal_flash_erase_sector C stale_slot d1 of (s, d2) \<Rightarrow> (s = DRV_OK, d2))"

definition zy100_offline_v2_marker_factory_handoff_pending :: "offline_marker option \<Rightarrow> bool" where
  "zy100_offline_v2_marker_factory_handoff_pending marker \<longleftrightarrow>
     (case marker of None \<Rightarrow> False
      | Some m \<Rightarrow> mk_state m = ZY100_OFFLINE_V2_MARKER_READY \<and>
          mk_factory_handoff m = ZY100_OFFLINE_V2_FACTORY_HANDOFF_PENDING)"

definition zy100_offline_v2_marker_consume_factory_handoff :: "'d chip \<Rightarrow> u8 list \<Rightarrow> offline_marker option \<Rightarrow>
    offline_marker \<Rightarrow> 'd \<Rightarrow> handoff_status \<times> offline_marker option \<times> 'd" where
  "zy100_offline_v2_marker_consume_factory_handoff C stk marker verified0 d =
     (case marker of None \<Rightarrow> (HANDOFF_ERROR, None, d)
      | Some m \<Rightarrow>
          if \<not> zy100_offline_v2_marker_factory_handoff_pending marker then (HANDOFF_NOT_PENDING, marker, d)
          else let consumed = m\<lparr>mk_generation := mk_generation m + 1,
                mk_factory_handoff := ZY100_OFFLINE_V2_FACTORY_HANDOFF_NONE\<rparr>
          in case zy100_offline_v2_marker_commit C (Some consumed) d of (ok, d1) \<Rightarrow>
            if \<not> ok then (HANDOFF_ERROR, marker, d1)
            else case zy100_offline_v2_marker_load C stk (Some verified0) d1 of (ok2, v, d2) \<Rightarrow>
              if \<not> ok2 then (HANDOFF_ERROR, marker, d2)
              else let verified = the v
              in if mk_generation verified \<noteq> mk_generation consumed \<or> mk_state verified \<noteq> mk_state consumed \<or>
                    mk_device_id verified \<noteq> mk_device_id consumed \<or>
                    mk_layout_crc32 verified \<noteq> mk_layout_crc32 consumed \<or>
                    mk_online_spool_crc32 verified \<noteq> mk_online_spool_crc32 consumed \<or>
                    mk_next_erase_addr verified \<noteq> mk_next_erase_addr consumed \<or>
                    mk_factory_handoff verified \<noteq> ZY100_OFFLINE_V2_FACTORY_HANDOFF_NONE
                 then (HANDOFF_ERROR, marker, d2)
                 else (HANDOFF_CONSUMED, Some verified, d2))"

section \<open>Pages\<close>

lemma length_marker_page_open [simp]: "length (marker_page_open m) = 256"
  by (simp add: marker_page_open_def)

lemma length_marker_page [simp]: "length (marker_page m) = 256"
  by (simp add: marker_page_def Let_def)

lemma get_u32_put_at_other [simp]:
  "p + length bs \<le> length b \<Longrightarrow> off + 4 \<le> length b \<Longrightarrow> off + 4 \<le> p \<or> p + length bs \<le> off \<Longrightarrow>
   zy100_get_u32_le (put_at p bs b) off = zy100_get_u32_le b off"
  by (rule get_u32_cong) (auto simp: nth_put_at)

lemma get_u16_put_at_other [simp]:
  "p + length bs \<le> length b \<Longrightarrow> off + 2 \<le> length b \<Longrightarrow> off + 2 \<le> p \<or> p + length bs \<le> off \<Longrightarrow>
   zy100_get_u16_le (put_at p bs b) off = zy100_get_u16_le b off"
  by (rule get_u16_cong) (auto simp: nth_put_at)

lemma open_crc_field:
  assumes "i < 4"
  shows "marker_page_open m ! (0xF8 + i) = 0"
  using assms by (simp add: marker_page_open_def nth_put_at)

lemma marker_page_crc_cleared: "put_at 0xF8 (replicate 4 0) (marker_page m) = marker_page_open m"
proof (rule nth_equalityI)
  show "length (put_at 0xF8 (replicate 4 0) (marker_page m)) = length (marker_page_open m)" by simp
next
  fix i assume i: "i < length (put_at 0xF8 (replicate 4 0) (marker_page m))"
  show "put_at 0xF8 (replicate 4 0) (marker_page m) ! i = marker_page_open m ! i"
  proof (cases "0xF8 \<le> i \<and> i < 0xFC")
    case True
    then have k: "i - 0xF8 < 4" by linarith
    then have "marker_page_open m ! i = 0" using open_crc_field [of "i - 0xF8" m] True by simp
    then show ?thesis using True k by (simp add: nth_put_at)
  next
    case False
    then show ?thesis using i by (auto simp: nth_put_at marker_page_def Let_def)
  qed
qed

lemma marker_decode_page:
  assumes "mk_device_id m = zy100_device_internal_id" "mk_state m \<noteq> 0" "mk_state m \<le> 4"
  shows "marker_decode (marker_page m) = Some m"
proof -
  have f: "zy100_get_u32_le (marker_page m) 0x00 = OFFLINE_V2_MARKER_MAGIC"
    "zy100_get_u16_le (marker_page m) 0x04 = 1" "zy100_get_u16_le (marker_page m) 0x06 = 256"
    "zy100_get_u32_le (marker_page m) 0xFC = OFFLINE_V2_MARKER_COMMIT"
    "zy100_get_u32_le (marker_page m) 0x08 = mk_generation m"
    "zy100_get_u32_le (marker_page m) 0x0C = mk_state m"
    "zy100_get_u32_le (marker_page m) 0x10 = mk_device_id m"
    "zy100_get_u32_le (marker_page m) 0x14 = mk_layout_crc32 m"
    "zy100_get_u32_le (marker_page m) 0x18 = mk_online_spool_crc32 m"
    "zy100_get_u32_le (marker_page m) 0x1C = mk_next_erase_addr m"
    "zy100_get_u32_le (marker_page m) 0x20 = mk_factory_handoff m"
    by (simp_all add: marker_page_def Let_def) (simp_all add: marker_page_open_def)
  have c: "zy100_get_u32_le (marker_page m) 0xF8 = zy100_crc32_ieee (marker_page_open m)"
    by (simp add: marker_page_def Let_def)
  show ?thesis
    unfolding marker_decode_def marker_page_crc_cleared f c
    using assms by (simp add: word_le_nat_alt Suc_le_eq unat_gt_0)
qed

text \<open>A page that was programmed only in part does not decode: the commit word comes last.\<close>

lemma torn_page_invalid:
  assumes "p ! 0xFF = 0xFF"
  shows "marker_decode p = None"
proof -
  have "zy100_get_u32_le p 0xFC \<noteq> OFFLINE_V2_MARKER_COMMIT"
  proof
    assume eq: "zy100_get_u32_le p 0xFC = OFFLINE_V2_MARKER_COMMIT"
    have "bit (zy100_get_u32_le p 0xFC) 31 = bit (p ! 0xFF) 7"
      by (auto simp: zy100_get_u32_le_def bit_simps dest: bit_imp_le_length)
    then show False unfolding eq assms by simp
  qed
  then show ?thesis by (simp add: marker_decode_def)
qed

section \<open>A flash that may stop\<close>

text \<open>\<open>mem\<close> reads the contents of the chip.  Reads return them.  A write programs the bytes in order and
  may stop after any of them; an erase may stop anywhere in its sector; both tell.\<close>

definition nor_chip :: "'d chip \<Rightarrow> ('d \<Rightarrow> u32 \<Rightarrow> u8) \<Rightarrow> bool" where
  "nor_chip C mem \<longleftrightarrow> FMC_SEC_SECTION_LEN C = 4096 \<and>
     (\<forall>d. flash_get_bank_addr C d \<noteq> 0 \<and>
        drv_internal_flash_normalize_addr C (flash_get_bank_addr C d) = USER_DATA1_ADDR \<and>
        flash_get_bank_size C d = USER_DATA1_SIZE) \<and>
     (\<forall>a n bs d. \<exists>d'. flash_read_locked C a n bs d =
        (True, map (\<lambda>i. mem d (a + of_nat i)) [0 ..< unat n], d') \<and> mem d' = mem d) \<and>
     (\<forall>a d ok d'. flash_erase_locked C a d = (ok, d') \<longrightarrow>
        (\<forall>x. if unat a \<le> unat x \<and> unat x < unat a + 4096 then ok \<longrightarrow> mem d' x = 0xFF
             else mem d' x = mem d x)) \<and>
     (\<forall>a n bs d ok d'. flash_write_locked C a n bs d = (ok, d') \<longrightarrow>
        (\<exists>k \<le> unat n. (ok \<longrightarrow> k = unat n) \<and> (\<forall>x. mem d' x =
           (if unat a \<le> unat x \<and> unat x < unat a + k then mem d x AND bs ! (unat x - unat a) else mem d x))))"

definition slot_page :: "(u32 \<Rightarrow> u8) \<Rightarrow> u32 \<Rightarrow> u8 list" where
  "slot_page m slot = map (\<lambda>i. m (USER_DATA1_ADDR + slot + of_nat i)) [0 ..< 256]"

lemma nor_resolve:
  assumes "nor_chip C mem"
  shows "drv_internal_flash_resolve_region C d =
    Inr \<lparr>rg_base_addr = USER_DATA1_ADDR, rg_size_bytes = USER_DATA1_SIZE, rg_sector_bytes = 4096\<rparr>"
  using assms by (simp add: nor_chip_def drv_internal_flash_resolve_region_def Let_def
      drv_internal_flash_is_aligned_def)

lemma nor_read:
  assumes C: "nor_chip C mem" and slot: "slot = 0 \<or> slot = 0x1000"
  shows "\<exists>d'. drv_internal_flash_read C slot (Some bs) 256 d = (DRV_OK, Some (slot_page (mem d) slot), d') \<and>
    mem d' = mem d"
proof -
  obtain d' where "flash_read_locked C (USER_DATA1_ADDR + slot) 256 bs d =
      (True, map (\<lambda>i. mem d (USER_DATA1_ADDR + slot + of_nat i)) [0 ..< unat (256 :: u32)], d')" "mem d' = mem d"
    using C unfolding nor_chip_def by blast
  moreover have "drv_internal_flash_check_range C slot 256 d = drv_internal_flash_resolve_region C d"
    using slot by (auto simp: drv_internal_flash_check_range_def nor_resolve [OF C])
  ultimately show ?thesis
    by (simp add: drv_internal_flash_read_def nor_resolve [OF C] slot_page_def)
qed

lemma nor_load:
  assumes C: "nor_chip C mem"
  shows "\<exists>d'. zy100_offline_v2_marker_load C stk (Some x) d =
    (True, Some (marker_pick (marker_decode (slot_page (mem d) 0)) (marker_decode (slot_page (mem d) 0x1000))), d') \<and>
    mem d' = mem d"
proof -
  obtain d1 where 1: "drv_internal_flash_read C 0 (Some (take 256 stk)) 256 d =
      (DRV_OK, Some (slot_page (mem d) 0), d1)" "mem d1 = mem d"
    using nor_read [OF C, of 0 "take 256 stk" d] by auto
  obtain d2 where 2: "drv_internal_flash_read C 0x1000 (Some (take 256 (drop 256 stk))) 256 d1 =
      (DRV_OK, Some (slot_page (mem d1) 0x1000), d2)" "mem d2 = mem d1"
    using nor_read [OF C, of "0x1000" "take 256 (drop 256 stk)" d1] by auto
  show ?thesis using 1 2 by (simp add: zy100_offline_v2_marker_load_def)
qed

text \<open>Addresses of the two slots.\<close>

lemma slot_addr:
  assumes "slot = 0 \<or> slot = (0x1000 :: u32)" "i < 256"
  shows "unat (USER_DATA1_ADDR + slot + of_nat i) = 0x008FA000 + unat slot + i"
proof -
  have "unat (of_nat i :: u32) = i" using assms(2) by (simp add: unat_of_nat)
  moreover have "unat (USER_DATA1_ADDR + slot) = 0x008FA000 + unat slot" using assms(1) by auto
  ultimately show ?thesis using assms by (subst unat_add_32) auto
qed

lemma slot_page_cong:
  assumes "slot = 0 \<or> slot = 0x1000"
    and "\<And>x. 0x008FA000 + unat slot \<le> unat x \<Longrightarrow> unat x < 0x008FA000 + unat slot + 256 \<Longrightarrow> m x = m' x"
  shows "slot_page m slot = slot_page m' slot"
  using assms(2) slot_addr [OF assms(1)] by (auto simp: slot_page_def)

definition other_slot :: "u32 \<Rightarrow> u32" where
  "other_slot slot = (if slot = 0 then 0x1000 else 0)"

lemma nor_erase:
  assumes C: "nor_chip C mem" and slot: "slot = 0 \<or> slot = 0x1000"
    and e: "drv_internal_flash_erase_sector C slot d = (st, d')"
  shows "slot_page (mem d') (other_slot slot) = slot_page (mem d) (other_slot slot)"
    "st = DRV_OK \<Longrightarrow> slot_page (mem d') slot = replicate 256 0xFF"
proof -
  have "drv_internal_flash_check_range C slot 4096 d = drv_internal_flash_resolve_region C d"
    using slot by (auto simp: drv_internal_flash_check_range_def nor_resolve [OF C])
  moreover have S: "FMC_SEC_SECTION_LEN C = 4096" using C by (simp add: nor_chip_def)
  moreover have "drv_internal_flash_is_aligned slot 4096"
    using slot by (auto simp: drv_internal_flash_is_aligned_def)
  ultimately obtain ok where f: "flash_erase_locked C (USER_DATA1_ADDR + slot) d = (ok, d')"
      "st = (if ok then DRV_OK else DRV_ERASE_FAILED)"
    using e by (auto simp: drv_internal_flash_erase_sector_def nor_resolve [OF C] split: prod.splits)
  have base: "unat (USER_DATA1_ADDR + slot) = 0x008FA000 + unat slot" using slot by auto
  have m: "if unat (USER_DATA1_ADDR + slot) \<le> unat x \<and> unat x < unat (USER_DATA1_ADDR + slot) + 4096
      then ok \<longrightarrow> mem d' x = 0xFF else mem d' x = mem d x" for x
    using C f(1) unfolding nor_chip_def by blast
  show "slot_page (mem d') (other_slot slot) = slot_page (mem d) (other_slot slot)"
    using slot m unfolding base
    by (intro slot_page_cong) (auto simp: other_slot_def split: if_splits)
  show "slot_page (mem d') slot = replicate 256 0xFF" if "st = DRV_OK"
  proof (rule nth_equalityI)
    fix i assume "i < length (slot_page (mem d') slot)"
    then have i: "i < 256" by (simp add: slot_page_def)
    then show "slot_page (mem d') slot ! i = replicate 256 0xFF ! i"
      using m [of "USER_DATA1_ADDR + slot + of_nat i"] slot_addr [OF slot i] f(2) that
      unfolding base by (auto simp: slot_page_def split: if_splits)
  qed (simp add: slot_page_def)
qed

lemma and_ff [simp]: "0xFF AND b = (b :: u8)"
proof -
  have "(0xFF :: u8) = -1" by simp
  then show ?thesis by (simp only: and.left_neutral)
qed

lemma nor_write:
  assumes C: "nor_chip C mem" and slot: "slot = 0 \<or> slot = 0x1000"
    and w: "drv_internal_flash_write C slot (Some bs) 256 d = (st, d')" "length bs = 256"
    and blank: "slot_page (mem d) slot = replicate 256 0xFF"
  shows "slot_page (mem d') (other_slot slot) = slot_page (mem d) (other_slot slot)"
    "\<exists>k \<le> 256. (st = DRV_OK \<longrightarrow> k = 256) \<and>
       slot_page (mem d') slot = take k bs @ replicate (256 - k) 0xFF"
proof -
  have "drv_internal_flash_check_range C slot 256 d = drv_internal_flash_resolve_region C d"
    using slot by (auto simp: drv_internal_flash_check_range_def nor_resolve [OF C])
  then obtain ok where f: "flash_write_locked C (USER_DATA1_ADDR + slot) 256 bs d = (ok, d')"
      "st = (if ok then DRV_OK else DRV_WRITE_FAILED)"
    using w(1) by (auto simp: drv_internal_flash_write_def nor_resolve [OF C] split: prod.splits)
  have base: "unat (USER_DATA1_ADDR + slot) = 0x008FA000 + unat slot" using slot by auto
  obtain k where k: "k \<le> unat (256 :: u32)" "ok \<longrightarrow> k = unat (256 :: u32)" and m0: "\<forall>x. mem d' x =
      (if unat (USER_DATA1_ADDR + slot) \<le> unat x \<and> unat x < unat (USER_DATA1_ADDR + slot) + k
       then mem d x AND bs ! (unat x - unat (USER_DATA1_ADDR + slot)) else mem d x)"
    using C f(1) unfolding nor_chip_def by blast
  then have m: "mem d' x = (if 0x008FA000 + unat slot \<le> unat x \<and> unat x < 0x008FA000 + unat slot + k
       then mem d x AND bs ! (unat x - (0x008FA000 + unat slot)) else mem d x)" for x
    using base by simp
  show "slot_page (mem d') (other_slot slot) = slot_page (mem d) (other_slot slot)"
    using slot k by (intro slot_page_cong) (auto simp: m other_slot_def split: if_splits)
  have "slot_page (mem d') slot = take k bs @ replicate (256 - k) 0xFF"
  proof (rule nth_equalityI)
    fix i assume "i < length (slot_page (mem d') slot)"
    then have i: "i < 256" by (simp add: slot_page_def)
    then have "mem d (USER_DATA1_ADDR + slot + of_nat i) = 0xFF"
      using arg_cong [OF blank, of "\<lambda>p. p ! i"] by (simp add: slot_page_def)
    then show "slot_page (mem d') slot ! i = (take k bs @ replicate (256 - k) 0xFF) ! i"
      using slot_addr [OF slot i] i k(1) w(2) by (simp add: slot_page_def m nth_append)
  qed (use k w(2) in \<open>simp add: slot_page_def\<close>)
  then show "\<exists>k \<le> 256. (st = DRV_OK \<longrightarrow> k = 256) \<and>
       slot_page (mem d') slot = take k bs @ replicate (256 - k) 0xFF"
    using k f(2) by auto
qed

section \<open>Commits\<close>

lemma marker_slot_cases: "marker_slot g = 0 \<or> marker_slot g = 0x1000"
  by (simp add: marker_slot_def)

lemma marker_slot_next: "marker_slot (g + 1) = other_slot (marker_slot g)"
proof -
  have "((g + 1) AND 1 \<noteq> 0) = (\<not> g AND 1 \<noteq> 0)" by (simp only: and_one_iff_bit0) (simp add: bit_0)
  then show ?thesis by (simp add: marker_slot_def other_slot_def)
qed

lemma newer_next:
  "marker_generation_newer (g + 1) g" "\<not> marker_generation_newer g (g + 1)"
  by (simp_all add: marker_generation_newer_def)

text \<open>What the slots hold after a commit.\<close>

lemma commit_slots:
  assumes C: "nor_chip C mem" and c: "zy100_offline_v2_marker_commit C (Some m) d = (r, d')"
    and slot: "slot = marker_slot (mk_generation m)"
  shows "slot_page (mem d') (other_slot slot) = slot_page (mem d) (other_slot slot)"
    "r \<Longrightarrow> marker_decode (slot_page (mem d') slot) = Some m"
    "\<not> r \<Longrightarrow> d' = d \<or> marker_decode (slot_page (mem d') slot) \<in> {None, Some m} \<or>
       fst (drv_internal_flash_erase_sector C slot d) \<noteq> DRV_OK"
proof -
  have s: "slot = 0 \<or> slot = 0x1000" using slot marker_slot_cases by simp
  have all: "slot_page (mem d') (other_slot slot) = slot_page (mem d) (other_slot slot) \<and>
    (r \<longrightarrow> marker_decode (slot_page (mem d') slot) = Some m) \<and>
    (\<not> r \<longrightarrow> d' = d \<or> marker_decode (slot_page (mem d') slot) \<in> {None, Some m} \<or>
       fst (drv_internal_flash_erase_sector C slot d) \<noteq> DRV_OK)"
  proof (cases "mk_state m < 1 \<or> mk_state m > 4 \<or> mk_device_id m \<noteq> zy100_device_internal_id")
    case True
    then show ?thesis using c by (auto simp: zy100_offline_v2_marker_commit_def)
  next
    case ok: False
    obtain s1 d1 where e: "drv_internal_flash_erase_sector C slot d = (s1, d1)" by (rule prod.exhaust)
    note e' = nor_erase [OF C s e]
    show ?thesis
    proof (cases "s1 = DRV_OK")
      case False
      then show ?thesis using c e e'(1) ok slot by (auto simp: zy100_offline_v2_marker_commit_def Let_def)
    next
      case True
      obtain s2 d2 where w: "drv_internal_flash_write C slot (Some (marker_page m)) 256 d1 = (s2, d2)"
        by (rule prod.exhaust)
      then have r: "r = (s2 = DRV_OK)" "d' = d2"
        using c e ok slot True by (auto simp: zy100_offline_v2_marker_commit_def Let_def)
      note w' = nor_write [OF C s w length_marker_page e'(2) [OF True]]
      obtain k where k: "k \<le> 256" "s2 = DRV_OK \<longrightarrow> k = 256"
          "slot_page (mem d') slot = take k (marker_page m) @ replicate (256 - k) 0xFF"
        using w'(2) r(2) by blast
      have "marker_decode (slot_page (mem d') slot) = Some m" if "k = 256"
        using that k(3) ok by (simp add: marker_decode_page not_less)
      moreover have "marker_decode (slot_page (mem d') slot) = None" if "k < 256"
        using that k(3) by (intro torn_page_invalid) (simp add: nth_append)
      ultimately show ?thesis using k e'(1) w'(1) r by (cases "k = 256") auto
    qed
  qed
  then show "slot_page (mem d') (other_slot slot) = slot_page (mem d) (other_slot slot)"
    "r \<Longrightarrow> marker_decode (slot_page (mem d') slot) = Some m"
    "\<not> r \<Longrightarrow> d' = d \<or> marker_decode (slot_page (mem d') slot) \<in> {None, Some m} \<or>
       fst (drv_internal_flash_erase_sector C slot d) \<noteq> DRV_OK"
    by auto
qed

section \<open>Properties\<close>


text \<open>C23: the factory handoff is consumed at most once.  With the answer consumed the caller's marker is the old one
  with the next generation and the handoff cleared, exactly as it was read back from the flash, and a
  second call finds nothing pending; with any other answer the caller's marker is unchanged.\<close>

theorem handoff_consumed_once:
  assumes "zy100_offline_v2_marker_consume_factory_handoff C stk (Some m) v d = (st, m', d')"
  shows "(st = HANDOFF_CONSUMED \<longrightarrow>
      m' = Some (m\<lparr>mk_generation := mk_generation m + 1, mk_factory_handoff := 0\<rparr>) \<and>
      (\<exists>d1. zy100_offline_v2_marker_commit C m' d = (True, d1) \<and>
         zy100_offline_v2_marker_load C stk (Some v) d1 = (True, m', d')) \<and>
      zy100_offline_v2_marker_consume_factory_handoff C stk m' v d' = (HANDOFF_NOT_PENDING, m', d')) \<and>
    (st \<noteq> HANDOFF_CONSUMED \<longrightarrow> m' = Some m) \<and>
    (st = HANDOFF_NOT_PENDING \<longleftrightarrow> \<not> zy100_offline_v2_marker_factory_handoff_pending (Some m)) \<and>
    (st = HANDOFF_NOT_PENDING \<longrightarrow> d' = d)"
proof (cases "zy100_offline_v2_marker_factory_handoff_pending (Some m)")
  case False
  then show ?thesis using assms by (simp add: zy100_offline_v2_marker_consume_factory_handoff_def)
next
  case p: True
  let ?n = "m\<lparr>mk_generation := mk_generation m + 1, mk_factory_handoff := 0\<rparr>"
  obtain ok d1 where c: "zy100_offline_v2_marker_commit C (Some ?n) d = (ok, d1)" by (rule prod.exhaust)
  obtain ok2 w d2 where l: "zy100_offline_v2_marker_load C stk (Some v) d1 = (ok2, w, d2)" by (rule prod_cases3)
  have some: "ok2 \<Longrightarrow> \<exists>x. w = Some x"
    using l by (auto simp: zy100_offline_v2_marker_load_def split: prod.splits if_splits)
  have "st = HANDOFF_CONSUMED \<longrightarrow> ok \<and> ok2 \<and> w = Some ?n \<and> m' = w \<and> d' = d2"
    "st = HANDOFF_CONSUMED \<or> st = HANDOFF_ERROR \<and> m' = Some m"
    using assms p c l some
    by (auto simp: zy100_offline_v2_marker_consume_factory_handoff_def Let_def split: if_splits)
  then show ?thesis
    using p c l
    by (auto simp: zy100_offline_v2_marker_consume_factory_handoff_def
        zy100_offline_v2_marker_factory_handoff_pending_def)
qed

text \<open>A memory that stops programming after \<open>k\<close> bytes.\<close>

definition stopping_chip :: "nat \<Rightarrow> (u32 \<Rightarrow> u8) chip" where
  "stopping_chip k = ram_chip\<lparr>flash_write_locked := \<lambda>a n bs m. (unat n \<le> k,
     \<lambda>x. if unat a \<le> unat x \<and> unat x < unat a + min k (unat n)
       then m x AND bs ! (unat x - unat a) else m x)\<rparr>"

lemma nor_stopping: "nor_chip (stopping_chip k) (\<lambda>m. m)"
  unfolding nor_chip_def
proof (intro conjI allI impI, goal_cases)
  case (7 a n bs d ok d')
  then show ?case
    by (intro exI [of _ "min k (unat n)"]) (auto simp: stopping_chip_def ram_chip_def min_def)
qed (auto simp: stopping_chip_def ram_chip_def drv_internal_flash_normalize_addr_def)

definition demo_marker :: "u32 \<Rightarrow> offline_marker" where
  "demo_marker g = \<lparr>mk_generation = g, mk_state = ZY100_OFFLINE_V2_MARKER_READY, mk_device_id = 5,
     mk_layout_crc32 = 7, mk_online_spool_crc32 = 8, mk_next_erase_addr = 9,
     mk_factory_handoff = ZY100_OFFLINE_V2_FACTORY_HANDOFF_PENDING\<rparr>"

text \<open>Slot A holds generation 2, the rest is erased.\<close>

definition demo_flash :: "u32 \<Rightarrow> u8" where
  "demo_flash x = (if 0x008FA000 \<le> unat x \<and> unat x < 0x008FA100
     then marker_page (demo_marker 2) ! (unat x - 0x008FA000) else 0xFF)"

lemma demo_slots:
  "slot_page demo_flash 0 = marker_page (demo_marker 2)"
  "slot_page demo_flash 0x1000 = replicate 256 0xFF"
proof -
  show "slot_page demo_flash 0 = marker_page (demo_marker 2)"
  proof (rule nth_equalityI)
    fix i assume "i < length (slot_page demo_flash 0)"
    then have i: "i < 256" by (simp add: slot_page_def)
    then show "slot_page demo_flash 0 ! i = marker_page (demo_marker 2) ! i"
      using slot_addr [of 0 i] by (simp add: slot_page_def demo_flash_def)
  qed (simp add: slot_page_def)
  show "slot_page demo_flash 0x1000 = replicate 256 0xFF"
  proof (rule nth_equalityI)
    fix i assume "i < length (slot_page demo_flash 0x1000)"
    then have i: "i < 256" by (simp add: slot_page_def)
    then show "slot_page demo_flash 0x1000 ! i = replicate 256 0xFF ! i"
      using slot_addr [of "0x1000" i] by (simp add: slot_page_def demo_flash_def)
  qed (simp add: slot_page_def)
qed

lemma demo_decode:
  "marker_decode (slot_page demo_flash 0) = Some (demo_marker 2)"
  "marker_decode (slot_page demo_flash 0x1000) = None"
  by (simp_all add: demo_slots torn_page_invalid)
    (intro marker_decode_page; simp add: demo_marker_def zy100_device_internal_id_def)

lemma demo_load:
  "\<exists>d. zy100_offline_v2_marker_load (stopping_chip k) [] (Some (demo_marker 0)) demo_flash =
     (True, Some (demo_marker 2), d) \<and> d = demo_flash"
  using nor_load [OF nor_stopping, of k "[]" "demo_marker 0" demo_flash] by (simp add: demo_decode)


theorem handoff_consumed_once_witness:
  "fst (snd (zy100_offline_v2_marker_consume_factory_handoff (stopping_chip 100) [] (Some (demo_marker 2))
     (demo_marker 0) demo_flash)) = Some (demo_marker 2) \<or>
   fst (snd (zy100_offline_v2_marker_consume_factory_handoff (stopping_chip 100) [] (Some (demo_marker 2))
     (demo_marker 0) demo_flash)) = Some (demo_marker 3\<lparr>mk_factory_handoff := 0\<rparr>)"
proof -
  obtain st m' d' where c: "zy100_offline_v2_marker_consume_factory_handoff (stopping_chip 100) []
      (Some (demo_marker 2)) (demo_marker 0) demo_flash = (st, m', d')" by (rule prod_cases3)
  have "m' = Some (demo_marker 2) \<or> m' = Some (demo_marker 2\<lparr>
      mk_generation := mk_generation (demo_marker 2) + 1, mk_factory_handoff := 0\<rparr>)"
    using handoff_consumed_once [OF c] by blast
  then show ?thesis by (auto simp: c) (simp add: demo_marker_def)
qed

end
