(* ===== verification/IngressRing.thy ===== *)
theory IngressRing
  imports ByteRing
begin

text \<open>
  The FIFO ingress ring, \<open>service/zy100_fifo_ingress_ring.c\<close>: whole packets of 16 bytes in a ring of
  512 bytes between the sensor FIFO and its consumers.  The static variables are the record
  \<open>ingress_ring\<close>; a pointer that may be NULL is an option.
\<close>

unbundle bit_operations_syntax

section \<open>Data\<close>

record ingress_ring =
  ig_buf :: "u8 list"
  ig_read_pos :: u32
  ig_write_pos :: u32
  ig_level :: u32
  ig_max_level :: u32
  ig_overflow_count :: u32

abbreviation (input) "ZY100_FIFO_INGRESS_PACKET_BYTES \<equiv> (16 :: u32)"
abbreviation (input) "ZY100_FIFO_INGRESS_RING_BYTES \<equiv> (512 :: u32)"

section \<open>Operations\<close>

definition ingress_packet_bytes :: "u32 \<Rightarrow> u32" where
  "ingress_packet_bytes packet_count = packet_count * ZY100_FIFO_INGRESS_PACKET_BYTES"

definition ingress_advance :: "u32 \<Rightarrow> u32 \<Rightarrow> u32" where
  "ingress_advance pos delta =
     (let pos = pos + delta
      in if pos \<ge> ZY100_FIFO_INGRESS_RING_BYTES then pos - ZY100_FIFO_INGRESS_RING_BYTES else pos)"

definition zy100_fifo_ingress_reset :: "ingress_ring \<Rightarrow> ingress_ring" where
  "zy100_fifo_ingress_reset s = s\<lparr>ig_read_pos := 0, ig_write_pos := 0, ig_level := 0,
     ig_max_level := 0, ig_overflow_count := 0\<rparr>"

definition zy100_fifo_ingress_level_bytes :: "ingress_ring \<Rightarrow> u32" where
  "zy100_fifo_ingress_level_bytes s = ig_level s"

definition zy100_fifo_ingress_free_bytes :: "ingress_ring \<Rightarrow> u32" where
  "zy100_fifo_ingress_free_bytes s = ZY100_FIFO_INGRESS_RING_BYTES - ig_level s"

definition zy100_fifo_ingress_max_level_bytes :: "ingress_ring \<Rightarrow> u32" where
  "zy100_fifo_ingress_max_level_bytes s = ig_max_level s"

definition zy100_fifo_ingress_can_push_packets :: "u32 \<Rightarrow> ingress_ring \<Rightarrow> bool" where
  "zy100_fifo_ingress_can_push_packets packet_count s \<longleftrightarrow>
     ingress_packet_bytes packet_count \<le> zy100_fifo_ingress_free_bytes s"

definition zy100_fifo_ingress_push_packet :: "u8 list option \<Rightarrow> ingress_ring \<Rightarrow> bool \<times> ingress_ring" where
  "zy100_fifo_ingress_push_packet packet16 s =
     (if packet16 = None \<or> \<not> zy100_fifo_ingress_can_push_packets 1 s
      then (False, if ig_overflow_count s < 0xFFFFFFFF then s\<lparr>ig_overflow_count := ig_overflow_count s + 1\<rparr> else s)
      else let packet = the packet16;
               first_part = ZY100_FIFO_INGRESS_RING_BYTES - ig_write_pos s;
               buf = (if first_part \<ge> ZY100_FIFO_INGRESS_PACKET_BYTES
                 then put_at (unat (ig_write_pos s)) (take 16 packet) (ig_buf s)
                 else put_at 0 (get_at (unat first_part) (16 - unat first_part) packet)
                   (put_at (unat (ig_write_pos s)) (take (unat first_part) packet) (ig_buf s)));
               level = ig_level s + ZY100_FIFO_INGRESS_PACKET_BYTES
      in (True, s\<lparr>ig_buf := buf,
           ig_write_pos := ingress_advance (ig_write_pos s) ZY100_FIFO_INGRESS_PACKET_BYTES,
           ig_level := level,
           ig_max_level := (if level > ig_max_level s then level else ig_max_level s)\<rparr>))"

definition zy100_fifo_ingress_peek_packets :: "u8 list option \<Rightarrow> u32 \<Rightarrow> ingress_ring \<Rightarrow> bool \<times> u8 list option" where
  "zy100_fifo_ingress_peek_packets out packet_count s =
     (case out of None \<Rightarrow> (False, None)
      | Some dst \<Rightarrow>
          let bytes = ingress_packet_bytes packet_count
          in if bytes = 0 \<or> bytes > ig_level s then (False, Some dst)
             else let first_part = ZY100_FIFO_INGRESS_RING_BYTES - ig_read_pos s
             in (True, Some (if first_part \<ge> bytes
                  then put_at 0 (get_at (unat (ig_read_pos s)) (unat bytes) (ig_buf s)) dst
                  else put_at (unat first_part) (get_at 0 (unat (bytes - first_part)) (ig_buf s))
                    (put_at 0 (get_at (unat (ig_read_pos s)) (unat first_part) (ig_buf s)) dst))))"

definition zy100_fifo_ingress_drop_packets :: "u32 \<Rightarrow> ingress_ring \<Rightarrow> bool \<times> ingress_ring" where
  "zy100_fifo_ingress_drop_packets packet_count s =
     (let bytes = ingress_packet_bytes packet_count
      in if bytes = 0 \<or> bytes > ig_level s then (False, s)
         else let level = ig_level s - bytes
         in (True, s\<lparr>ig_read_pos := (if level = 0 then 0 else ingress_advance (ig_read_pos s) bytes),
              ig_write_pos := (if level = 0 then 0 else ig_write_pos s), ig_level := level\<rparr>))"

definition zy100_fifo_ingress_overflow_count :: "ingress_ring \<Rightarrow> u32" where
  "zy100_fifo_ingress_overflow_count s = ig_overflow_count s"

section \<open>The queue the ring holds\<close>

definition ingress_contents :: "ingress_ring \<Rightarrow> u8 list" where
  "ingress_contents s = ring_contents (ig_buf s) (unat (ig_read_pos s)) (unat (ig_level s))"

definition ingress_ok :: "ingress_ring \<Rightarrow> bool" where
  "ingress_ok s \<longleftrightarrow> length (ig_buf s) = 512 \<and> unat (ig_read_pos s) < 512 \<and> unat (ig_level s) \<le> 512 \<and>
     16 dvd unat (ig_level s) \<and> 16 dvd unat (ig_read_pos s) \<and>
     unat (ig_write_pos s) = (unat (ig_read_pos s) + unat (ig_level s)) mod 512 \<and>
     ig_level s \<le> ig_max_level s \<and> unat (ig_max_level s) \<le> 512"

lemma length_ingress_contents [simp]: "length (ingress_contents s) = unat (ig_level s)"
  by (simp add: ingress_contents_def)

lemma ring_contents_split:
  assumes N: "length ring = N" "h < N" "n \<le> N"
  shows "ring_contents ring h n =
    (if h + n \<le> N then get_at h n ring else get_at h (N - h) ring @ get_at 0 (h + n - N) ring)" (is "?l = ?r")
proof (rule nth_equalityI)
  show "length ?l = length ?r" using N by (simp add: get_at_def)
next
  fix i assume i: "i < length ?l"
  show "?l ! i = ?r ! i"
  proof (cases "h + i < N")
    case True
    then have "i < N - h" using N(2) by linarith
    then show ?thesis using N i True by (simp add: nth_append)
  next
    case False
    then have "h + i = (i - (N - h)) + N" "i - (N - h) < N" using N i by simp_all
    then have "(h + i) mod N = i - (N - h)" by (simp only: mod_add_self2 mod_less)
    moreover have "\<not> i < N - h" using False by linarith
    ultimately show ?thesis using N i False by (simp add: nth_append)
  qed
qed

lemma nth_ring_store:
  assumes N: "length ring = N" "h < N" "length xs \<le> N" "j < N"
  shows "ring_store ring h xs ! j =
    (if h \<le> j \<and> j < h + length xs then xs ! (j - h)
     else if j + N < h + length xs then xs ! (j + N - h) else ring ! j)"
proof -
  consider "h \<le> j" "j < h + length xs" | "\<not> (h \<le> j \<and> j < h + length xs)" "j + N < h + length xs"
    | "\<not> (h \<le> j \<and> j < h + length xs)" "\<not> j + N < h + length xs" by blast
  then show ?thesis
  proof cases
    case 1
    then have "(h + (j - h)) mod N = j" using N by simp
    then show ?thesis using ring_store_in [of xs ring "j - h" h] 1 N by auto
  next
    case 2
    then have "h + (j + N - h) = j + N" using N by simp
    then have "(h + (j + N - h)) mod N = j" using N by simp
    then show ?thesis using ring_store_in [of xs ring "j + N - h" h] 2 N by auto
  next
    case 3
    have "(h + i) mod N \<noteq> j" if "i < length xs" for i
      using that 3 N by (cases "h + i < N") (auto simp: mod_if)
    then have "ring_store ring h xs ! j = ring ! j" using N by (intro ring_store_out) auto
    then show ?thesis using 3 by (simp only: if_False)
  qed
qed

lemma ring_store_split:
  assumes N: "length ring = N" "h < N" "length xs \<le> N"
  shows "ring_store ring h xs =
    (if h + length xs \<le> N then put_at h xs ring
     else put_at 0 (drop (N - h) xs) (put_at h (take (N - h) xs) ring))" (is "?l = ?r")
proof (rule nth_equalityI)
  show "length ?l = length ?r" using N by simp
next
  fix j assume "j < length ?l"
  then have j: "j < N" using N by simp
  show "?l ! j = ?r ! j"
  proof (cases "h + length xs \<le> N")
    case True
    then show ?thesis using N j by (simp add: nth_ring_store nth_put_at)
  next
    case False
    then have "?r ! j = (if j < length xs - (N - h) then drop (N - h) xs ! j
        else if h \<le> j then take (N - h) xs ! (j - h) else ring ! j)"
      using N j by (simp add: nth_put_at)
    then show ?thesis using N j False by (auto simp: nth_ring_store add.commute)
  qed
qed

section \<open>Push\<close>

lemma ingress_okE:
  assumes "ingress_ok s"
  obtains "length (ig_buf s) = 512" "unat (ig_read_pos s) < 512" "unat (ig_level s) \<le> 512"
    "16 dvd unat (ig_level s)" "16 dvd unat (ig_read_pos s)"
    "unat (ig_write_pos s) = (unat (ig_read_pos s) + unat (ig_level s)) mod 512"
    "ig_level s \<le> ig_max_level s" "unat (ig_max_level s) \<le> 512"
  using assms by (simp add: ingress_ok_def)

lemma free_bytes_unat:
  "ingress_ok s \<Longrightarrow> unat (zy100_fifo_ingress_free_bytes s) = 512 - unat (ig_level s)"
  by (auto simp: zy100_fifo_ingress_free_bytes_def ingress_ok_def unat_sub word_le_nat_alt)

lemma advance_unat:
  assumes "unat pos < 512" "unat delta \<le> 512"
  shows "unat (ingress_advance pos delta) = (unat pos + unat delta) mod 512"
proof -
  have "unat (pos + delta) = unat pos + unat delta" using assms by (subst unat_add_32) auto
  then show ?thesis using assms by (auto simp: ingress_advance_def Let_def word_le_nat_alt unat_sub mod_if)
qed

text \<open>A packet is appended when there is room; otherwise it is dropped and counted.\<close>

lemma push_ok:
  assumes ok: "ingress_ok s" and p: "length p = 16" and room: "unat (ig_level s) + 16 \<le> 512"
  shows "\<exists>t. zy100_fifo_ingress_push_packet (Some p) s = (True, t) \<and> ingress_ok t \<and>
    ingress_contents t = ingress_contents s @ p \<and> ig_overflow_count t = ig_overflow_count s \<and>
    ig_level t = ig_level s + 16"
proof -
  obtain len: "length (ig_buf s) = 512" and r: "unat (ig_read_pos s) < 512" and l: "unat (ig_level s) \<le> 512"
    and d: "16 dvd unat (ig_level s)" "16 dvd unat (ig_read_pos s)"
    and w: "unat (ig_write_pos s) = (unat (ig_read_pos s) + unat (ig_level s)) mod 512"
    and m: "ig_level s \<le> ig_max_level s" "unat (ig_max_level s) \<le> 512"
    using ok by (rule ingress_okE)
  define t where "t = snd (zy100_fifo_ingress_push_packet (Some p) s)"
  have can: "zy100_fifo_ingress_can_push_packets 1 s"
    using room free_bytes_unat [OF ok]
    by (simp add: zy100_fifo_ingress_can_push_packets_def ingress_packet_bytes_def word_le_nat_alt)
  have w': "unat (ig_write_pos s) < 512" using w by simp
  then have fp: "unat (512 - ig_write_pos s) = 512 - unat (ig_write_pos s)"
    by (simp add: unat_sub word_le_nat_alt)
  have buf: "ig_buf t = ring_store (ig_buf s) (unat (ig_write_pos s)) p"
    using can p w' len fp ring_store_split [of "ig_buf s" 512 "unat (ig_write_pos s)" p]
    by (auto simp: t_def zy100_fifo_ingress_push_packet_def Let_def word_le_nat_alt get_at_def)
  have f: "zy100_fifo_ingress_push_packet (Some p) s = (True, t)" "ig_read_pos t = ig_read_pos s"
    "ig_write_pos t = ingress_advance (ig_write_pos s) 16" "ig_level t = ig_level s + 16"
    "ig_max_level t = (if ig_level s + 16 > ig_max_level s then ig_level s + 16 else ig_max_level s)"
    "ig_overflow_count t = ig_overflow_count s"
    using can by (simp_all add: t_def zy100_fifo_ingress_push_packet_def Let_def)
  have lt: "unat (ig_level s + 16) = unat (ig_level s) + 16" using room by (subst unat_add_32) auto
  have "unat (ig_write_pos t) = (unat (ig_read_pos t) + unat (ig_level t)) mod 512"
    using advance_unat [of "ig_write_pos s" 16] w' by (simp add: f lt w mod_simps add.assoc)
  then have "ingress_ok t"
    using len r d m room by (simp add: ingress_ok_def buf f lt) (auto simp: lt)
  moreover have "ingress_contents t = ingress_contents s @ p"
  proof -
    have "ring_store (ig_buf s) (unat (ig_write_pos s)) p =
        ring_store (ig_buf s) (unat (ig_read_pos s) + unat (ig_level s)) p"
      using len by (simp add: ring_store_def w mod_simps)
    then show ?thesis
      using ring_contents_store [of "unat (ig_level s)" p "ig_buf s" "unat (ig_read_pos s)"] len p room
      by (simp add: ingress_contents_def buf f lt)
  qed
  ultimately show ?thesis using f by auto
qed

lemma push_full:
  assumes "ingress_ok s" "512 < unat (ig_level s) + 16"
  shows "zy100_fifo_ingress_push_packet p s = (False, if ig_overflow_count s < 0xFFFFFFFF
    then s\<lparr>ig_overflow_count := ig_overflow_count s + 1\<rparr> else s)"
proof -
  have "\<not> zy100_fifo_ingress_can_push_packets 1 s"
    using assms free_bytes_unat [OF assms(1)]
    by (simp add: zy100_fifo_ingress_can_push_packets_def ingress_packet_bytes_def word_le_nat_alt)
  then show ?thesis by (simp add: zy100_fifo_ingress_push_packet_def)
qed

section \<open>Peek and drop\<close>

definition ingress_peek :: "u32 \<Rightarrow> ingress_ring \<Rightarrow> u8 list option" where
  "ingress_peek n s = (case zy100_fifo_ingress_peek_packets
       (Some (replicate (unat (ingress_packet_bytes n)) 0)) n s of
     (ok, out) \<Rightarrow> if ok then out else None)"

definition ingress_drop :: "u32 \<Rightarrow> ingress_ring \<Rightarrow> ingress_ring option" where
  "ingress_drop n s = (case zy100_fifo_ingress_drop_packets n s of
     (ok, t) \<Rightarrow> if ok then Some t else None)"

lemma packet_bytes_dvd: "16 dvd unat (ingress_packet_bytes n)"
proof -
  have "unat (ingress_packet_bytes n) = unat n * 16 mod 4294967296"
    by (simp add: ingress_packet_bytes_def unat_word_ariths)
  then show ?thesis by (simp add: dvd_mod)
qed

lemma drop_ok:
  assumes ok: "ingress_ok s" and b: "ingress_packet_bytes n \<noteq> 0" "ingress_packet_bytes n \<le> ig_level s"
  shows "\<exists>t. zy100_fifo_ingress_drop_packets n s = (True, t) \<and> ingress_ok t \<and>
    ingress_contents t = drop (unat (ingress_packet_bytes n)) (ingress_contents s) \<and>
    ig_overflow_count t = ig_overflow_count s"
proof -
  let ?b = "ingress_packet_bytes n"
  obtain len: "length (ig_buf s) = 512" and r: "unat (ig_read_pos s) < 512" and l: "unat (ig_level s) \<le> 512"
    and d: "16 dvd unat (ig_level s)" "16 dvd unat (ig_read_pos s)"
    and w: "unat (ig_write_pos s) = (unat (ig_read_pos s) + unat (ig_level s)) mod 512"
    and m: "ig_level s \<le> ig_max_level s" "unat (ig_max_level s) \<le> 512"
    using ok by (rule ingress_okE)
  define t where "t = snd (zy100_fifo_ingress_drop_packets n s)"
  have f: "zy100_fifo_ingress_drop_packets n s = (True, t)" "ig_buf t = ig_buf s"
    "ig_level t = ig_level s - ?b" "ig_max_level t = ig_max_level s"
    "ig_overflow_count t = ig_overflow_count s"
    "ig_read_pos t = (if ig_level s - ?b = 0 then 0 else ingress_advance (ig_read_pos s) ?b)"
    "ig_write_pos t = (if ig_level s - ?b = 0 then 0 else ig_write_pos s)"
    using b by (auto simp: t_def zy100_fifo_ingress_drop_packets_def Let_def)
  have lt: "unat (ig_level t) = unat (ig_level s) - unat ?b" using b(2) by (simp add: f unat_sub)
  have ble: "unat ?b \<le> unat (ig_level s)" using b(2) by (simp add: word_le_nat_alt)
  have bd: "16 dvd unat ?b" by (rule packet_bytes_dvd)
  have rd: "unat (ig_read_pos t) = (if ig_level s - ?b = 0 then 0 else (unat (ig_read_pos s) + unat ?b) mod 512)"
    using advance_unat [of "ig_read_pos s" ?b] r l ble by (simp add: f(6))
  have "unat (ig_write_pos t) = (unat (ig_read_pos t) + unat (ig_level t)) mod 512"
  proof (cases "ig_level s - ?b = 0")
    case True then show ?thesis using lt by (simp add: rd f(7) f(3))
  next
    case False
    obtain c where "unat (ig_level s) = unat ?b + c" using ble le_Suc_ex by blast
    then show ?thesis using False w by (simp add: rd f(7) lt mod_simps add.assoc)
  qed
  moreover have "16 dvd unat (ig_read_pos t)" using rd d bd by (auto intro: dvd_mod)
  moreover have "ig_level t \<le> ig_max_level t"
    using m(1) b(2) lt by (simp add: f(4) word_le_nat_alt)
  ultimately have "ingress_ok t"
    using len r l m d bd by (auto simp: ingress_ok_def f(2,4) lt rd)
  moreover have "ingress_contents t = drop (unat ?b) (ingress_contents s)"
  proof (cases "ig_level s - ?b = 0")
    case True
    then show ?thesis using lt f(3) by (simp add: ingress_contents_def)
  next
    case False
    then show ?thesis
      using len by (simp add: ingress_contents_def f(2) lt rd drop_ring_contents)
  qed
  ultimately show ?thesis using f by auto
qed

lemma peek_ok:
  assumes ok: "ingress_ok s" and b: "ingress_packet_bytes n \<noteq> 0" "ingress_packet_bytes n \<le> ig_level s"
    and dst: "length dst = unat (ingress_packet_bytes n)"
  shows "zy100_fifo_ingress_peek_packets (Some dst) n s =
    (True, Some (take (unat (ingress_packet_bytes n)) (ingress_contents s)))"
proof -
  let ?b = "ingress_packet_bytes n"
  obtain len: "length (ig_buf s) = 512" and r: "unat (ig_read_pos s) < 512" and l: "unat (ig_level s) \<le> 512"
    using ok by (rule ingress_okE)
  have ble: "unat ?b \<le> unat (ig_level s)" using b(2) by (simp add: word_le_nat_alt)
  have fp: "unat (512 - ig_read_pos s) = 512 - unat (ig_read_pos s)"
    using r by (simp add: unat_sub word_le_nat_alt)
  have "take (unat ?b) (ingress_contents s) = ring_contents (ig_buf s) (unat (ig_read_pos s)) (unat ?b)"
    using ble by (simp add: ingress_contents_def take_ring_contents)
  also have "\<dots> = (if unat (ig_read_pos s) + unat ?b \<le> 512 then get_at (unat (ig_read_pos s)) (unat ?b) (ig_buf s)
      else get_at (unat (ig_read_pos s)) (512 - unat (ig_read_pos s)) (ig_buf s) @
        get_at 0 (unat (ig_read_pos s) + unat ?b - 512) (ig_buf s))"
    using ring_contents_split [OF len r, of "unat ?b"] ble l by simp
  finally have c: "take (unat ?b) (ingress_contents s) = \<dots>" .
  have "\<not> ?b > ig_level s" using b(2) by simp
  show ?thesis
  proof (cases "unat (ig_read_pos s) + unat ?b \<le> 512")
    case True
    then have "512 - ig_read_pos s \<ge> ?b" using fp by (simp add: word_le_nat_alt)
    then show ?thesis
      using True b dst len c by (simp add: zy100_fifo_ingress_peek_packets_def Let_def put_at_def)
  next
    case False
    then have nle: "\<not> 512 - ig_read_pos s \<ge> ?b" using fp r by (simp add: word_le_nat_alt)
    then have "512 - ig_read_pos s \<le> ?b" by simp
    then have "unat (?b - (512 - ig_read_pos s)) = unat (ig_read_pos s) + unat ?b - 512"
      using fp r by (simp add: unat_sub)
    then show ?thesis
      using False nle b dst len c r fp ble l
      by (simp add: zy100_fifo_ingress_peek_packets_def Let_def put_at_def)
  qed
qed

lemma ingress_refused:
  assumes "length (ingress_contents s) < unat (ingress_packet_bytes n)"
  shows "ingress_peek n s = None" "ingress_drop n s = None"
proof -
  have "ig_level s < ingress_packet_bytes n" using assms by (simp add: word_less_nat_alt)
  then show "ingress_peek n s = None" "ingress_drop n s = None"
    by (simp_all add: ingress_peek_def ingress_drop_def zy100_fifo_ingress_peek_packets_def
        zy100_fifo_ingress_drop_packets_def Let_def)
qed

interpretation ingress_fifo: byte_fifo ingress_ok ingress_contents "\<lambda>n. unat (ingress_packet_bytes n)"
  ingress_peek ingress_drop
proof (unfold_locales, goal_cases)
  case (1 s n)
  then have "ingress_packet_bytes n \<noteq> 0" "ingress_packet_bytes n \<le> ig_level s"
    by (auto simp: word_le_nat_alt unat_gt_0)
  then show ?case using peek_ok [OF 1(1)] by (simp add: ingress_peek_def)
next
  case (2 s n)
  show ?case using 2(2) by (rule ingress_refused)
next
  case (3 s n)
  then have "ingress_packet_bytes n \<noteq> 0" "ingress_packet_bytes n \<le> ig_level s"
    by (auto simp: word_le_nat_alt unat_gt_0)
  then show ?case using drop_ok [OF 3(1), of n] by (auto simp: ingress_drop_def)
next
  case (4 s n)
  show ?case using 4(2) by (rule ingress_refused)
qed

text \<open>The byte count of the admission test wraps: it admits \<open>2 ^ 28\<close> packets to any ring.\<close>

lemma can_push_wraps: "zy100_fifo_ingress_can_push_packets 0x10000000 s"
  by (simp add: zy100_fifo_ingress_can_push_packets_def ingress_packet_bytes_def word_le_nat_alt)

section \<open>Properties\<close>

text \<open>Pushing packets one after the other; how many were refused.\<close>

fun push_all :: "u8 list list \<Rightarrow> ingress_ring \<Rightarrow> ingress_ring" where
  "push_all [] s = s"
| "push_all (p # ps) s = push_all ps (snd (zy100_fifo_ingress_push_packet (Some p) s))"

lemma full_overflow_unat:
  "unat (if c < 0xFFFFFFFF then c + 1 else c) = min (unat c + 1) 4294967295" for c :: u32
proof (cases "c < 0xFFFFFFFF")
  case True
  then have "unat c < 4294967295" by (simp add: word_less_nat_alt)
  then show ?thesis using True by (simp add: unat_add_32)
next
  case False
  then have "4294967295 \<le> unat c" by (simp add: word_less_nat_alt not_less)
  then show ?thesis using False unat_lt_32 [of c] by simp
qed

lemma push_all_spec:
  assumes "ingress_ok s" "\<forall>p \<in> set ps. length p = 16" "unat (ig_level s) + 16 * k = 512"
  shows "ingress_ok (push_all ps s) \<and>
    ingress_contents (push_all ps s) = ingress_contents s @ concat (take k ps) \<and>
    unat (ig_overflow_count (push_all ps s)) = min (unat (ig_overflow_count s) + (length ps - k)) 4294967295"
  using assms
proof (induction ps arbitrary: s k)
  case Nil
  then show ?case using unat_lt_32 [of "ig_overflow_count s"] by simp
next
  case (Cons p ps)
  show ?case
  proof (cases k)
    case 0
    let ?t = "snd (zy100_fifo_ingress_push_packet (Some p) s)"
    have f: "ingress_ok ?t" "ingress_contents ?t = ingress_contents s" "ig_level ?t = ig_level s"
      "unat (ig_overflow_count ?t) = min (unat (ig_overflow_count s) + 1) 4294967295"
      using Cons.prems 0 push_full [of s "Some p"] full_overflow_unat [of "ig_overflow_count s"]
      by (auto simp: ingress_ok_def ingress_contents_def)
    show ?thesis using Cons.IH [of ?t 0] Cons.prems f 0 by (auto simp: min_def)
  next
    case (Suc k')
    obtain t where t: "zy100_fifo_ingress_push_packet (Some p) s = (True, t)" "ingress_ok t"
        "ingress_contents t = ingress_contents s @ p" "ig_overflow_count t = ig_overflow_count s"
        "ig_level t = ig_level s + 16"
      using push_ok [of s p] Cons.prems Suc by auto
    have "unat (ig_level t) = unat (ig_level s) + 16"
      using Cons.prems Suc by (simp add: t(5) unat_add_32)
    then show ?thesis using Cons.IH [of t k'] Cons.prems t Suc by simp
  qed
qed

text \<open>C22: the ring is a FIFO of packets.  Of the packets pushed one after the other exactly those that
  fit are kept and the others counted as overflow (up to the 32 bit maximum); whatever chunks of packets the consumer
  peeks and drops, it gets the bytes in the order they were pushed, without a gap, and the ring stays well formed.\<close>

theorem ingress_is_a_fifo:
  assumes ok: "ingress_ok s" and p: "\<forall>p \<in> set ps. length p = 16"
    and room: "unat (ig_level s) + 16 * k = 512"
    and ns: "\<forall>n \<in> set ns. 0 < unat (ingress_packet_bytes n)"
      "sum_list (map (\<lambda>n. unat (ingress_packet_bytes n)) ns) \<le> unat (ig_level s) + 16 * min k (length ps)"
  shows "ingress_ok (push_all ps s) \<and>
    unat (zy100_fifo_ingress_overflow_count (push_all ps s)) =
      min (unat (zy100_fifo_ingress_overflow_count s) + (length ps - k)) 4294967295 \<and>
    (\<exists>t. fifo_drain ingress_peek ingress_drop ns (push_all ps s) =
        Some (take (sum_list (map (\<lambda>n. unat (ingress_packet_bytes n)) ns))
          (ingress_contents s @ concat (take k ps)), t) \<and> ingress_ok t)"
proof -
  note a = push_all_spec [OF ok p room]
  have "length (concat (take k ps)) = 16 * min k (length ps)"
    using p by (induction ps arbitrary: k) (simp, case_tac k, auto)
  then show ?thesis
    using a ns ingress_fifo.drain_prefix [of "push_all ps s" ns]
    by (auto simp: zy100_fifo_ingress_overflow_count_def)
qed

theorem ingress_is_a_fifo_witness:
  "\<exists>t. fifo_drain ingress_peek ingress_drop [1, 1]
      (push_all (map (\<lambda>k. replicate 16 (of_nat k)) [0 ..< 40])
        (zy100_fifo_ingress_reset \<lparr>ig_buf = replicate 512 0, ig_read_pos = 3, ig_write_pos = 0,
           ig_level = 0, ig_max_level = 0, ig_overflow_count = 0\<rparr>)) =
    Some (replicate 16 0 @ replicate 16 1, t)"
proof -
  let ?s = "zy100_fifo_ingress_reset \<lparr>ig_buf = replicate 512 0, ig_read_pos = 3, ig_write_pos = 0,
      ig_level = 0, ig_max_level = 0, ig_overflow_count = 0\<rparr>"
  have 1: "ingress_ok ?s" "unat (ig_level ?s) + 16 * 32 = 512" "ingress_contents ?s = []"
    by (simp_all add: zy100_fifo_ingress_reset_def ingress_ok_def ingress_contents_def)
  have 2: "\<forall>n \<in> set [1 :: u32, 1]. 0 < unat (ingress_packet_bytes n)"
    "sum_list (map (\<lambda>n. unat (ingress_packet_bytes n)) [1, 1]) = 32"
    by (simp_all add: ingress_packet_bytes_def)
  let ?ps = "map (\<lambda>k. replicate 16 (of_nat k :: u8)) [0 ..< 40]"
  have "take 32 ?ps = map (\<lambda>k. replicate 16 (of_nat k)) (0 # 1 # [2 ..< 32])"
    by (simp add: take_map upt_rec)
  then have 3: "take 32 (concat (take 32 ?ps)) = replicate 16 0 @ replicate 16 1" by simp
  have 4: "\<forall>p \<in> set ?ps. length p = 16" by simp
  show ?thesis
    using ingress_is_a_fifo [OF 1(1) 4 1(2) 2(1)] 1(3) 2(2) 3 by auto
qed

end
