(* ===== verification/PowerTransaction.thy ===== *)
theory PowerTransaction
  imports Prelude
begin

text \<open>
  Power states and their gates: the power manager \<open>app/app_power_manager.c\<close>, the shutdown
  transaction \<open>app/app_shutdown_transaction.c\<close> and the standby transaction
  \<open>app/app_standby_transaction.c\<close>.  The shutdown transaction owns the permission for business; the
  power manager asks it at every request, and the standby transaction asks the power manager before it
  restores anything.

  The ports of \<open>app/app_standby_port.h\<close>, which the application implements on the hardware, are the record
  \<open>standby_ports\<close>: functions on the whole \<open>power_world\<close>, as they may call back into these
  transactions.  The queries among them only read it.  A reason text that may be NULL is an option.
\<close>

unbundle bit_operations_syntax

section \<open>Data\<close>

datatype power_state = STATE_ACTIVE | STATE_STANDBY_FULL | STATE_STANDBY_CHARGE | STATE_FULL_SLEEP_DLPS
  | STATE_CHARGE_PARTIAL_SLEEP

datatype power_request = REQUEST_NONE | REQUEST_STANDBY | REQUEST_RESTORE | REQUEST_SHUTDOWN | REQUEST_WAKE
  | REQUEST_AUTHORIZED_WAKE | REQUEST_RECOVERY | REQUEST_PAIRING

datatype power_result = POWER_ACCEPTED | POWER_NO_ACTION | POWER_BUSY | POWER_FORBIDDEN

datatype power_report = REPORT_NONE | FACTORY_ACTIVE | RECOVERY_ACTIVE | SLEEP_ABORTED | FULL_SLEEP_COMMITTED
  | CHARGE_SLEEP_COMMITTED | WAKE_STARTED | STANDBY_FULL_PREPARED | STANDBY_CHARGE_PREPARED
  | IDLE_USB_ACTIVE | STANDBY_CANCEL_STARTED | STANDBY_RESOURCES_RESTORED | CHARGE_REMOVED_SLEEP
  | DIAGNOSTIC_ACTIVE | DIAGNOSTIC_SLEEP | STORAGE_FAULT_ACTIVE | PAIRING_INITIALIZED

record power_snapshot =
  pm_mode :: power_state
  pm_last_request :: power_request
  pm_last_result :: power_result
  pm_last_report :: power_report

datatype shutdown_phase = PHASE_IDLE | PHASE_LATCHED | PHASE_QUIESCING | PHASE_WAIT_RELEASE | PHASE_COMMIT
  | PHASE_TERMINAL

datatype shutdown_source = SOURCE_NONE | SOURCE_BUTTON_LONG_PRESS | SOURCE_BOOT_LOW_BATTERY
  | SOURCE_RUNTIME_LOW_BATTERY | SOURCE_ONLINE_LOW_BATTERY | SOURCE_STORAGE_FAULT
  | SOURCE_CONFIG_APPLY_FAULT | SOURCE_PAIRING_TIMEOUT | SOURCE_PAIRING_START_FAILED

record shutdown_snapshot =
  sh_phase :: shutdown_phase
  sh_source :: shutdown_source
  sh_request_mask :: u8
  sh_blocker_mask :: u8
  sh_release_required :: bool
  sh_release_seen :: bool
  sh_target_usb_present :: bool
  sh_resources_ready :: bool
  sh_retry_count :: u32
  sh_last_retry_log_ms :: u64
  sh_storage_fault_exit :: bool
  sh_storage_fault_ms :: u32

datatype power_cause = CAUSE_OTHER | CAUSE_USB | CAUSE_CAPTURE | CAUSE_MOTION | CAUSE_BLE_CONNECTED
  | CAUSE_BLE_DISCONNECTED | CAUSE_BUTTON | CAUSE_OTA | CAUSE_CALIBRATION | CAUSE_PAIRING | CAUSE_USER_RESET
  | CAUSE_IDLE

datatype standby_stage = STANDBY_IDLE | STANDBY_ADMISSION | STANDBY_DRAIN | STANDBY_POWER | STANDBY_IO
  | STANDBY_AUDIT | RESTORE_CLOCK | RESTORE_POWER | RESTORE_FLASH | RESTORE_RUNTIME | STANDBY_COMPLETE

record standby_snapshot =
  sb_enter_ms :: u64
  sb_housekeep_ms :: u32
  sb_adc_normalize_pending :: bool
  sb_stage :: standby_stage
  sb_cause :: power_cause
  sb_result :: power_result

datatype ble_ci_state = CI_DISCONNECTED | CI_ACTIVE_IDLE | CI_CAPTURE_RUNTIME | CI_ONLINE_HIGH | CI_STANDBY
  | CI_COUNT

record standby_action =
  ac_prev_state :: power_state
  ac_target_state :: power_state
  ac_reason :: "string option"
  ac_use_reason :: "string option"
  ac_now_ms :: u64
  ac_ble_target :: ble_ci_state
  ac_cause :: power_cause
  ac_charge_mode :: bool
  ac_chg_present :: bool
  ac_standby_usb_restore :: bool
  ac_preserve_button_gesture :: bool

datatype step_result = STEP_CONTINUE | STEP_COMPLETE | STEP_FAILED | STEP_WAIT

text \<open>The static variables of the three files and the state \<open>'e\<close> of everything else.\<close>

record 'e power_world =
  pw_power :: power_snapshot
  pw_shutdown :: shutdown_snapshot
  pw_standby :: standby_snapshot
  pw_enter :: standby_action
  pw_enter_pending :: bool
  pw_enter_reset_timer :: bool
  pw_env :: 'e

type_synonym 'e port_step = "standby_action \<Rightarrow> 'e power_world \<Rightarrow> step_result \<times> standby_action \<times> 'e power_world"
type_synonym 'e port_note = "string option \<Rightarrow> 'e power_world \<Rightarrow> 'e power_world"

record 'e standby_ports =
  port_now :: "'e power_world \<Rightarrow> u64"
  port_pairing_active :: "'e power_world \<Rightarrow> bool"
  port_reset_active :: "'e power_world \<Rightarrow> bool"
  port_shutdown_guard_enabled :: bool
  port_factory_active :: "'e power_world \<Rightarrow> bool"
  port_sample_usb :: "string \<Rightarrow> bool \<Rightarrow> 'e power_world \<Rightarrow> bool \<times> bool \<times> 'e power_world"
  port_auto_factory :: "'e port_note"
  port_auto_usb :: "'e port_note"
  port_usb_restore_note :: "'e port_note"
  port_usb_refresh :: "'e port_note"
  port_usb_switch_note :: "'e port_note"
  port_enter_prepare :: "'e port_step"
  port_enter_drain :: "'e port_step"
  port_enter_charge :: "'e port_step"
  port_enter_full :: "'e port_step"
  port_enter_io :: "'e port_step"
  port_enter_commit :: "'e port_step"
  port_enter_finish :: "'e port_step"
  port_restore_clock :: "'e port_step"
  port_restore_power :: "'e port_step"
  port_restore_flash :: "'e port_step"
  port_restore_runtime :: "'e port_step"
  port_restore_finish :: "'e port_step"
  port_cancel_clock :: "'e port_step"
  port_cancel_flash :: "'e port_step"
  port_cancel_runtime :: "'e port_step"
  port_cancel_finish :: "'e port_step"

section \<open>The shutdown transaction\<close>

definition app_shutdown_transaction_clear :: "shutdown_snapshot \<Rightarrow> shutdown_snapshot" where
  "app_shutdown_transaction_clear s = \<lparr>sh_phase = PHASE_IDLE, sh_source = SOURCE_NONE, sh_request_mask = 0,
     sh_blocker_mask = 0, sh_release_required = False, sh_release_seen = False, sh_target_usb_present = False,
     sh_resources_ready = False, sh_retry_count = 0, sh_last_retry_log_ms = 0, sh_storage_fault_exit = False,
     sh_storage_fault_ms = 0\<rparr>"

definition app_shutdown_transaction_blocks_business :: "shutdown_snapshot \<Rightarrow> bool" where
  "app_shutdown_transaction_blocks_business s \<longleftrightarrow> sh_phase s \<noteq> PHASE_IDLE"

definition app_shutdown_transaction_prepare_request :: "shutdown_snapshot \<Rightarrow> shutdown_snapshot" where
  "app_shutdown_transaction_prepare_request s = app_shutdown_transaction_clear s"

definition app_shutdown_transaction_latch :: "shutdown_source \<Rightarrow> bool \<Rightarrow> shutdown_snapshot \<Rightarrow> shutdown_snapshot" where
  "app_shutdown_transaction_latch source require_release s = s\<lparr>sh_phase := PHASE_LATCHED, sh_source := source,
     sh_release_required := require_release, sh_release_seen := \<not> require_release\<rparr>"

definition app_shutdown_transaction_require_release :: "shutdown_snapshot \<Rightarrow> shutdown_snapshot" where
  "app_shutdown_transaction_require_release s = s\<lparr>sh_release_required := True\<rparr>"

definition app_shutdown_transaction_note_release :: "shutdown_snapshot \<Rightarrow> shutdown_snapshot" where
  "app_shutdown_transaction_note_release s = s\<lparr>sh_release_seen := True\<rparr>"

definition app_shutdown_transaction_begin_quiescing :: "shutdown_snapshot \<Rightarrow> shutdown_snapshot" where
  "app_shutdown_transaction_begin_quiescing s = s\<lparr>sh_phase := PHASE_QUIESCING\<rparr>"

definition app_shutdown_transaction_wait_release :: "shutdown_snapshot \<Rightarrow> shutdown_snapshot" where
  "app_shutdown_transaction_wait_release s = s\<lparr>sh_phase := PHASE_WAIT_RELEASE\<rparr>"

definition app_shutdown_transaction_begin_commit :: "bool \<Rightarrow> shutdown_snapshot \<Rightarrow> shutdown_snapshot" where
  "app_shutdown_transaction_begin_commit usb_present s =
     s\<lparr>sh_phase := PHASE_COMMIT, sh_target_usb_present := usb_present\<rparr>"

definition app_shutdown_transaction_note_terminal :: "bool \<Rightarrow> shutdown_snapshot \<Rightarrow> shutdown_snapshot" where
  "app_shutdown_transaction_note_terminal usb_present s =
     s\<lparr>sh_phase := PHASE_TERMINAL, sh_target_usb_present := usb_present\<rparr>"

definition app_shutdown_transaction_request_issued :: "u8 \<Rightarrow> shutdown_snapshot \<Rightarrow> shutdown_snapshot" where
  "app_shutdown_transaction_request_issued request s = s\<lparr>sh_request_mask := sh_request_mask s OR request\<rparr>"

definition app_shutdown_transaction_resources_invalidated :: "shutdown_snapshot \<Rightarrow> shutdown_snapshot" where
  "app_shutdown_transaction_resources_invalidated s = s\<lparr>sh_resources_ready := False\<rparr>"

definition app_shutdown_transaction_resources_ready :: "shutdown_snapshot \<Rightarrow> shutdown_snapshot" where
  "app_shutdown_transaction_resources_ready s = s\<lparr>sh_resources_ready := True\<rparr>"

definition app_shutdown_transaction_update_blockers :: "u8 \<Rightarrow> shutdown_snapshot \<Rightarrow> bool \<times> shutdown_snapshot" where
  "app_shutdown_transaction_update_blockers blockers s =
     (if sh_blocker_mask s = blockers then (False, s) else (True, s\<lparr>sh_blocker_mask := blockers\<rparr>))"

definition app_shutdown_transaction_note_retry :: "u64 \<Rightarrow> shutdown_snapshot \<Rightarrow> bool \<times> shutdown_snapshot" where
  "app_shutdown_transaction_note_retry now_ms s =
     (if \<not> app_shutdown_transaction_blocks_business s then (False, s)
      else let s = s\<lparr>sh_retry_count := sh_retry_count s + 1\<rparr>
      in if sh_last_retry_log_ms s = 0 \<or> now_ms - sh_last_retry_log_ms s \<ge> 1000
         then (True, s\<lparr>sh_last_retry_log_ms := now_ms\<rparr>) else (False, s))"

definition app_shutdown_transaction_note_storage_fault :: "u32 \<Rightarrow> shutdown_snapshot \<Rightarrow> shutdown_snapshot" where
  "app_shutdown_transaction_note_storage_fault now_ms s =
     s\<lparr>sh_storage_fault_exit := True, sh_storage_fault_ms := now_ms\<rparr>"

definition app_shutdown_transaction_release_authorized_wake :: "shutdown_snapshot \<Rightarrow> shutdown_snapshot" where
  "app_shutdown_transaction_release_authorized_wake s = app_shutdown_transaction_clear s"

definition app_shutdown_transaction_release_pairing_initialized :: "shutdown_snapshot \<Rightarrow> shutdown_snapshot" where
  "app_shutdown_transaction_release_pairing_initialized s = app_shutdown_transaction_clear s"

section \<open>The power manager\<close>

definition app_power_manager_mode :: "'e power_world \<Rightarrow> power_state" where
  "app_power_manager_mode w = pm_mode (pw_power w)"

definition app_power_manager_is_standby :: "power_state \<Rightarrow> bool" where
  "app_power_manager_is_standby mode \<longleftrightarrow> mode = STATE_STANDBY_FULL \<or> mode = STATE_STANDBY_CHARGE"

definition app_power_manager_blocks_business :: "'e power_world \<Rightarrow> bool" where
  "app_power_manager_blocks_business w \<longleftrightarrow> app_shutdown_transaction_blocks_business (pw_shutdown w)"

text \<open>A value outside the enum is refused like \<open>REQUEST_NONE\<close>; the model has no such value.\<close>

definition app_power_manager_request :: "power_request \<Rightarrow> 'e power_world \<Rightarrow> power_result \<times> 'e power_world" where
  "app_power_manager_request request w =
     (let res =
        (if request = REQUEST_NONE then POWER_FORBIDDEN
         else if request = REQUEST_RESTORE \<and> \<not> app_power_manager_is_standby (app_power_manager_mode w)
         then POWER_NO_ACTION
         else if (request = REQUEST_RESTORE \<or> request = REQUEST_WAKE) \<and> app_power_manager_blocks_business w
         then POWER_FORBIDDEN
         else if request = REQUEST_RECOVERY \<and> app_power_manager_blocks_business w then POWER_BUSY
         else POWER_ACCEPTED)
      in (res, w\<lparr>pw_power := (pw_power w)\<lparr>pm_last_request := request, pm_last_result := res\<rparr>\<rparr>))"

definition report_mode :: "power_report \<Rightarrow> power_state option" where
  "report_mode report = (case report of
     STANDBY_FULL_PREPARED \<Rightarrow> Some STATE_STANDBY_FULL
   | STANDBY_CHARGE_PREPARED \<Rightarrow> Some STATE_STANDBY_CHARGE
   | FULL_SLEEP_COMMITTED \<Rightarrow> Some STATE_FULL_SLEEP_DLPS | CHARGE_REMOVED_SLEEP \<Rightarrow> Some STATE_FULL_SLEEP_DLPS
   | DIAGNOSTIC_SLEEP \<Rightarrow> Some STATE_FULL_SLEEP_DLPS
   | CHARGE_SLEEP_COMMITTED \<Rightarrow> Some STATE_CHARGE_PARTIAL_SLEEP
   | REPORT_NONE \<Rightarrow> None
   | _ \<Rightarrow> Some STATE_ACTIVE)"

definition app_power_manager_report :: "power_report \<Rightarrow> 'e power_world \<Rightarrow> 'e power_world" where
  "app_power_manager_report report w = (case report_mode report of
     None \<Rightarrow> w
   | Some mode \<Rightarrow> w\<lparr>pw_power := (pw_power w)\<lparr>pm_mode := mode, pm_last_report := report\<rparr>\<rparr>)"

end
