(* ===== verification/StandbyTransaction.thy ===== *)
theory StandbyTransaction
  imports PowerTransaction
begin

text \<open>
  The standby transaction, \<open>app/app_standby_transaction.c\<close>: it enters standby through a fixed
  sequence of port steps, waits for the wake-up I/O in \<open>poll\<close>, and restores or cancels through sequences
  of their own; and what the shutdown gate means for it.

  A port step gets the action it works on and returns the changed one; for the pending entry that is
  the static \<open>s_enter\<close>.
\<close>

unbundle bit_operations_syntax

section \<open>Operations\<close>

abbreviation (input) on_standby :: "(standby_snapshot \<Rightarrow> standby_snapshot) \<Rightarrow> 'e power_world \<Rightarrow> 'e power_world" where
  "on_standby f w \<equiv> w\<lparr>pw_standby := f (pw_standby w)\<rparr>"

abbreviation (input) set_stage :: "standby_stage \<Rightarrow> 'e power_world \<Rightarrow> 'e power_world" where
  "set_stage st w \<equiv> on_standby (sb_stage_update (\<lambda>_. st)) w"

abbreviation (input) set_result :: "power_result \<Rightarrow> 'e power_world \<Rightarrow> 'e power_world" where
  "set_result r w \<equiv> on_standby (sb_result_update (\<lambda>_. r)) w"

definition zero_action :: standby_action where
  "zero_action = \<lparr>ac_prev_state = STATE_ACTIVE, ac_target_state = STATE_ACTIVE, ac_reason = None,
     ac_use_reason = None, ac_now_ms = 0, ac_ble_target = CI_DISCONNECTED, ac_cause = CAUSE_OTHER,
     ac_charge_mode = False, ac_chg_present = False, ac_standby_usb_restore = False,
     ac_preserve_button_gesture = False\<rparr>"

definition app_standby_transaction_clear :: "'e power_world \<Rightarrow> 'e power_world" where
  "app_standby_transaction_clear w = on_standby (\<lambda>s. s\<lparr>sb_enter_ms := 0, sb_housekeep_ms := 0,
     sb_adc_normalize_pending := False\<rparr>) (w\<lparr>pw_enter_pending := False\<rparr>)"

definition app_standby_transaction_housekeep :: "u32 \<Rightarrow> 'e power_world \<Rightarrow> 'e power_world" where
  "app_standby_transaction_housekeep now_ms w = on_standby (sb_housekeep_ms_update (\<lambda>_. now_ms)) w"

definition app_standby_transaction_adc_normalize :: "bool \<Rightarrow> 'e power_world \<Rightarrow> 'e power_world" where
  "app_standby_transaction_adc_normalize pending w =
     on_standby (sb_adc_normalize_pending_update (\<lambda>_. pending)) w"

definition app_standby_transaction_housekeep_due :: "u32 \<Rightarrow> u32 \<Rightarrow> 'e power_world \<Rightarrow> bool" where
  "app_standby_transaction_housekeep_due now_ms period_ms w \<longleftrightarrow>
     sb_housekeep_ms (pw_standby w) = 0 \<or> now_ms - sb_housekeep_ms (pw_standby w) \<ge> period_ms"

definition app_standby_transaction_housekeep_wait :: "u32 \<Rightarrow> u32 \<Rightarrow> 'e power_world \<Rightarrow> u32" where
  "app_standby_transaction_housekeep_wait now_ms period_ms w =
     (let elapsed = now_ms - sb_housekeep_ms (pw_standby w)
      in if sb_housekeep_ms (pw_standby w) = 0 \<or> elapsed \<ge> period_ms then 0 else period_ms - elapsed)"

definition app_standby_transaction_expired :: "u64 \<Rightarrow> u32 \<Rightarrow> 'e power_world \<Rightarrow> bool" where
  "app_standby_transaction_expired now_ms timeout_ms w \<longleftrightarrow>
     sb_enter_ms (pw_standby w) \<noteq> 0 \<and> now_ms - sb_enter_ms (pw_standby w) \<ge> ucast timeout_ms"

definition app_standby_cause_skips_boot :: "power_cause \<Rightarrow> bool" where
  "app_standby_cause_skips_boot cause \<longleftrightarrow> \<not> (cause = CAUSE_OTHER \<or> cause = CAUSE_IDLE)"

definition standby_finish :: "step_result \<Rightarrow> 'e power_world \<Rightarrow> bool \<times> 'e power_world" where
  "standby_finish r w =
     (r = STEP_COMPLETE,
      on_standby (\<lambda>s. s\<lparr>sb_result := (if r = STEP_COMPLETE then POWER_ACCEPTED else POWER_BUSY),
        sb_stage := (if r = STEP_COMPLETE then STANDBY_COMPLETE else sb_stage s)\<rparr>) w)"

text \<open>A step of a sequence: anything but \<open>STEP_CONTINUE\<close> ends it.\<close>

definition port_then :: "'e port_step \<Rightarrow> standby_action \<Rightarrow> 'e power_world \<Rightarrow>
    (standby_action \<Rightarrow> 'e power_world \<Rightarrow> bool \<times> 'e power_world) \<Rightarrow> bool \<times> 'e power_world" where
  "port_then step action w k = (case step action w of (r, action', w') \<Rightarrow>
     if r \<noteq> STEP_CONTINUE then standby_finish r w' else k action' w')"

text \<open>A step on the static \<open>s_enter\<close>.\<close>

definition on_enter :: "'e port_step \<Rightarrow> 'e power_world \<Rightarrow> step_result \<times> 'e power_world" where
  "on_enter step w = (case step (pw_enter w) w of (r, action, w') \<Rightarrow> (r, w'\<lparr>pw_enter := action\<rparr>))"

definition app_standby_transaction_poll :: "'e standby_ports \<Rightarrow> 'e power_world \<Rightarrow> bool \<times> 'e power_world" where
  "app_standby_transaction_poll P w =
     (if \<not> pw_enter_pending w then (False, w)
      else case on_enter (port_enter_io P) w of (r, w1) \<Rightarrow>
        if r = STEP_WAIT then (False, w1)
        else let w2 = w1\<lparr>pw_enter_pending := False\<rparr>
        in if r \<noteq> STEP_CONTINUE then standby_finish r w2
           else let w3 = app_power_manager_report
                  (if ac_charge_mode (pw_enter w2) then STANDBY_CHARGE_PREPARED else STANDBY_FULL_PREPARED) w2
           in case on_enter (port_enter_commit P) w3 of (_, w4) \<Rightarrow>
             let w5 = on_standby (\<lambda>s. s\<lparr>
                    sb_enter_ms := (if pw_enter_reset_timer w4 \<or> sb_enter_ms s = 0
                      then ac_now_ms (pw_enter w4) else sb_enter_ms s),
                    sb_housekeep_ms := (if ac_charge_mode (pw_enter w4) then 0
                      else ucast (ac_now_ms (pw_enter w4))),
                    sb_stage := STANDBY_AUDIT\<rparr>) w4
             in case on_enter (port_enter_finish P) w5 of (r6, w6) \<Rightarrow> standby_finish r6 w6)"

definition app_standby_transaction_enter :: "'e standby_ports \<Rightarrow> power_state \<Rightarrow> string option \<Rightarrow> bool \<Rightarrow>
    power_cause \<Rightarrow> 'e power_world \<Rightarrow> bool \<times> 'e power_world" where
  "app_standby_transaction_enter P target reason reset_timer cause w =
     (if pw_enter_pending w then (False, w)
      else let action = zero_action\<lparr>ac_prev_state := app_power_manager_mode w, ac_target_state := target,
               ac_charge_mode := (target = STATE_STANDBY_CHARGE), ac_reason := reason, ac_now_ms := port_now P w\<rparr>;
               w1 = snd (app_power_manager_request REQUEST_STANDBY w);
               w2 = on_standby (\<lambda>s. s\<lparr>sb_stage := STANDBY_ADMISSION, sb_cause := cause\<rparr>) w1
      in if port_pairing_active P w2 \<or> port_reset_active P w2 \<or> \<not> app_power_manager_is_standby target
         then (False, set_result POWER_FORBIDDEN w2)
         else port_then (port_enter_prepare P) action w2 (\<lambda>action w.
              port_then (port_enter_drain P) action (set_stage STANDBY_DRAIN w) (\<lambda>action w.
              port_then (port_enter_charge P) action (set_stage STANDBY_POWER w) (\<lambda>action w.
              port_then (port_enter_full P) action w (\<lambda>action w.
                app_standby_transaction_poll P ((set_stage STANDBY_IO w)\<lparr>
                  pw_enter := action\<lparr>ac_reason := Some ''standby_io''\<rparr>,
                  pw_enter_reset_timer := reset_timer, pw_enter_pending := True\<rparr>))))))"

definition app_standby_transaction_auto :: "'e standby_ports \<Rightarrow> string option \<Rightarrow> 'e power_world \<Rightarrow>
    bool \<times> 'e power_world" where
  "app_standby_transaction_auto P reason w =
     (if port_factory_active P w then (False, port_auto_factory P reason w)
      else case port_sample_usb P ''standby_auto'' False w of (ok, present, w1) \<Rightarrow>
        if \<not> ok then (False, w1)
        else if present then (False, port_auto_usb P reason w1)
        else app_standby_transaction_enter P STATE_STANDBY_FULL reason True CAUSE_IDLE w1)"

definition app_standby_transaction_restore :: "'e standby_ports \<Rightarrow> string option \<Rightarrow> ble_ci_state \<Rightarrow>
    power_cause \<Rightarrow> 'e power_world \<Rightarrow> bool \<times> 'e power_world" where
  "app_standby_transaction_restore P reason ble_target cause w0 =
     (let entering = pw_enter_pending w0; w = w0\<lparr>pw_enter_pending := False\<rparr>;
          action = zero_action\<lparr>ac_use_reason := (if reason \<noteq> None then reason else Some ''standby_wake''),
            ac_reason := reason,
            ac_prev_state := (if entering then ac_target_state (pw_enter w) else app_power_manager_mode w),
            ac_preserve_button_gesture := (cause = CAUSE_BUTTON),
            ac_now_ms := ucast (ucast (port_now P w) :: u32), ac_ble_target := ble_target, ac_cause := cause\<rparr>;
          w1 = on_standby (\<lambda>s. s\<lparr>sb_cause := cause, sb_stage := STANDBY_ADMISSION\<rparr>) w
      in if \<not> app_power_manager_is_standby (ac_prev_state action) then (True, set_result POWER_NO_ACTION w1)
         else case (if \<not> port_shutdown_guard_enabled P then (False, w1)
               else if entering \<and> app_power_manager_blocks_business w1 then (True, w1)
               else case app_power_manager_request REQUEST_RESTORE w1 of (r, w') \<Rightarrow> (r = POWER_FORBIDDEN, w')) of
           (forbidden, w2) \<Rightarrow>
           if forbidden then (False, set_result POWER_FORBIDDEN w2)
           else port_then (port_restore_clock P) action (set_stage RESTORE_CLOCK w2) (\<lambda>action w.
                case port_sample_usb P ''standby_wake_chg'' (ac_chg_present action) w of (_, present, w) \<Rightarrow>
                let action = action\<lparr>ac_chg_present := present,
                      ac_standby_usb_restore := present \<and> cause = CAUSE_USB\<rparr>
                in port_then (port_restore_power P) action (set_stage RESTORE_POWER w) (\<lambda>action w.
                port_then (port_restore_flash P) action (set_stage RESTORE_FLASH w) (\<lambda>action w.
                port_then (port_restore_runtime P) action
                  (set_stage RESTORE_RUNTIME (app_power_manager_report STANDBY_RESOURCES_RESTORED w)) (\<lambda>action w.
                case port_restore_finish P action w of (r, _, w') \<Rightarrow> standby_finish r w')))))"

definition app_standby_transaction_usb :: "'e standby_ports \<Rightarrow> bool \<Rightarrow> string option \<Rightarrow> 'e power_world \<Rightarrow>
    bool \<times> 'e power_world" where
  "app_standby_transaction_usb P present reason w =
     (let now_ms = port_now P w
      in if \<not> app_power_manager_is_standby (app_power_manager_mode w) then (False, w)
         else if present
         then app_standby_transaction_restore P reason CI_ACTIVE_IDLE CAUSE_USB (port_usb_restore_note P reason w)
         else if app_power_manager_mode w = STATE_STANDBY_FULL
         then (True, port_usb_refresh P reason
                (on_standby (\<lambda>s. s\<lparr>sb_enter_ms := now_ms, sb_housekeep_ms := ucast now_ms\<rparr>) w))
         else app_standby_transaction_enter P STATE_STANDBY_FULL reason True CAUSE_USB
                (port_usb_switch_note P reason w))"

definition app_standby_transaction_cancel :: "'e standby_ports \<Rightarrow> string option \<Rightarrow> bool \<Rightarrow> power_cause \<Rightarrow>
    'e power_world \<Rightarrow> bool \<times> 'e power_world" where
  "app_standby_transaction_cancel P reason present cause w0 =
     (let w = w0\<lparr>pw_enter_pending := False\<rparr>;
          action = zero_action\<lparr>ac_reason := reason,
            ac_use_reason := (if reason \<noteq> None then reason else Some ''standby_cancel''),
            ac_chg_present := present, ac_standby_usb_restore := present \<and> cause = CAUSE_USB,
            ac_cause := cause, ac_now_ms := ucast (ucast (port_now P w) :: u32)\<rparr>;
          w1 = on_standby (\<lambda>s. s\<lparr>sb_cause := cause, sb_stage := STANDBY_ADMISSION\<rparr>) w
      in if port_shutdown_guard_enabled P \<and> app_power_manager_blocks_business w1
         then (False, set_result POWER_FORBIDDEN w1)
         else port_then (port_cancel_clock P) action (set_stage RESTORE_CLOCK w1) (\<lambda>action w.
              port_then (port_cancel_flash P) action (set_stage RESTORE_FLASH w) (\<lambda>action w.
              port_then (port_cancel_runtime P) action (set_stage RESTORE_RUNTIME w) (\<lambda>action w.
              case port_cancel_finish P action w of (r, _, w') \<Rightarrow> standby_finish r w'))))"

section \<open>Runs\<close>

text \<open>What the header of the shutdown transaction asks of its callers, for the ports: only the authorized wake
  and the pairing initialisation release a shutdown, and they are no ports of the standby transaction.\<close>

definition port_steps :: "'e standby_ports \<Rightarrow> 'e port_step list" where
  "port_steps P = [port_enter_prepare P, port_enter_drain P, port_enter_charge P, port_enter_full P,
     port_enter_io P, port_enter_commit P, port_enter_finish P, port_restore_clock P, port_restore_power P,
     port_restore_flash P, port_restore_runtime P, port_restore_finish P, port_cancel_clock P,
     port_cancel_flash P, port_cancel_runtime P, port_cancel_finish P]"

definition port_notes :: "'e standby_ports \<Rightarrow> 'e port_note list" where
  "port_notes P = [port_auto_factory P, port_auto_usb P, port_usb_restore_note P, port_usb_refresh P,
     port_usb_switch_note P]"

definition ports_keep_shutdown :: "'e standby_ports \<Rightarrow> bool" where
  "ports_keep_shutdown P \<longleftrightarrow>
     (\<forall>f \<in> set (port_steps P). \<forall>a w. app_power_manager_blocks_business w \<longrightarrow>
        app_power_manager_blocks_business (snd (snd (f a w)))) \<and>
     (\<forall>f \<in> set (port_notes P). \<forall>r w. app_power_manager_blocks_business w \<longrightarrow>
        app_power_manager_blocks_business (f r w)) \<and>
     (\<forall>r b w. app_power_manager_blocks_business w \<longrightarrow>
        app_power_manager_blocks_business (snd (snd (port_sample_usb P r b w))))"

text \<open>Any operation of the three files, in any order, but the three that clear the shutdown; \<open>outside\<close> is
  everything else that happens to the rest of the system.\<close>

abbreviation (input) on_shutdown :: "(shutdown_snapshot \<Rightarrow> shutdown_snapshot) \<Rightarrow> 'e power_world \<Rightarrow> 'e power_world" where
  "on_shutdown f w \<equiv> w\<lparr>pw_shutdown := f (pw_shutdown w)\<rparr>"

inductive power_step :: "'e standby_ports \<Rightarrow> 'e power_world \<Rightarrow> 'e power_world \<Rightarrow> bool" for P where
  latch: "power_step P w (on_shutdown (app_shutdown_transaction_latch source rel) w)"
| require: "power_step P w (on_shutdown app_shutdown_transaction_require_release w)"
| released: "power_step P w (on_shutdown app_shutdown_transaction_note_release w)"
| quiesce: "power_step P w (on_shutdown app_shutdown_transaction_begin_quiescing w)"
| await: "power_step P w (on_shutdown app_shutdown_transaction_wait_release w)"
| commit: "power_step P w (on_shutdown (app_shutdown_transaction_begin_commit usb) w)"
| terminal: "power_step P w (on_shutdown (app_shutdown_transaction_note_terminal usb) w)"
| issued: "power_step P w (on_shutdown (app_shutdown_transaction_request_issued req) w)"
| invalidated: "power_step P w (on_shutdown app_shutdown_transaction_resources_invalidated w)"
| ready: "power_step P w (on_shutdown app_shutdown_transaction_resources_ready w)"
| blockers: "power_step P w (on_shutdown (\<lambda>s. snd (app_shutdown_transaction_update_blockers b s)) w)"
| retry: "power_step P w (on_shutdown (\<lambda>s. snd (app_shutdown_transaction_note_retry now s)) w)"
| fault: "power_step P w (on_shutdown (app_shutdown_transaction_note_storage_fault t) w)"
| request: "power_step P w (snd (app_power_manager_request r w))"
| report: "power_step P w (app_power_manager_report rep w)"
| standby_clear: "power_step P w (app_standby_transaction_clear w)"
| housekeep: "power_step P w (app_standby_transaction_housekeep t w)"
| normalize: "power_step P w (app_standby_transaction_adc_normalize b w)"
| enter: "ports_keep_shutdown P \<Longrightarrow> power_step P w (snd (app_standby_transaction_enter P tgt why rst cause w))"
| poll: "ports_keep_shutdown P \<Longrightarrow> power_step P w (snd (app_standby_transaction_poll P w))"
| auto_enter: "ports_keep_shutdown P \<Longrightarrow> power_step P w (snd (app_standby_transaction_auto P why w))"
| usb: "ports_keep_shutdown P \<Longrightarrow> power_step P w (snd (app_standby_transaction_usb P present why w))"
| restore: "ports_keep_shutdown P \<Longrightarrow> power_step P w (snd (app_standby_transaction_restore P why tgt2 cause w))"
| cancel: "ports_keep_shutdown P \<Longrightarrow> power_step P w (snd (app_standby_transaction_cancel P why present cause w))"
| outside: "power_step P w (w\<lparr>pw_env := e\<rparr>)"

lemma blocks_frame [simp]:
  "app_power_manager_blocks_business (w\<lparr>pw_standby := sb\<rparr>) = app_power_manager_blocks_business w"
  "app_power_manager_blocks_business (w\<lparr>pw_enter := a\<rparr>) = app_power_manager_blocks_business w"
  "app_power_manager_blocks_business (w\<lparr>pw_enter_pending := b\<rparr>) = app_power_manager_blocks_business w"
  "app_power_manager_blocks_business (w\<lparr>pw_enter_reset_timer := b\<rparr>) = app_power_manager_blocks_business w"
  "app_power_manager_blocks_business (w\<lparr>pw_power := pm\<rparr>) = app_power_manager_blocks_business w"
  "app_power_manager_blocks_business (w\<lparr>pw_env := e\<rparr>) = app_power_manager_blocks_business w"
  "app_power_manager_blocks_business (snd (app_power_manager_request r w)) = app_power_manager_blocks_business w"
  "app_power_manager_blocks_business (app_power_manager_report rep w) = app_power_manager_blocks_business w"
  "app_power_manager_blocks_business (snd (standby_finish st w)) = app_power_manager_blocks_business w"
  by (simp_all add: app_power_manager_blocks_business_def app_power_manager_request_def Let_def
      app_power_manager_report_def standby_finish_def split: option.split)

lemma step_blocks:
  assumes "ports_keep_shutdown P" "f \<in> set (port_steps P)" "app_power_manager_blocks_business w"
    and "f a w = (r, a', w')"
  shows "app_power_manager_blocks_business w'"
  using assms unfolding ports_keep_shutdown_def by (metis snd_conv)

lemma port_then_blocks:
  assumes "ports_keep_shutdown P" "f \<in> set (port_steps P)" "app_power_manager_blocks_business w"
    and "\<And>a w. app_power_manager_blocks_business w \<Longrightarrow> app_power_manager_blocks_business (snd (k a w))"
  shows "app_power_manager_blocks_business (snd (port_then f a w k))"
  using step_blocks [OF assms(1-3)] assms(4) by (auto simp: port_then_def split: prod.split)

lemma on_enter_blocks:
  assumes "ports_keep_shutdown P" "f \<in> set (port_steps P)" "app_power_manager_blocks_business w"
  shows "app_power_manager_blocks_business (snd (on_enter f w))"
  using step_blocks [OF assms] by (auto simp: on_enter_def split: prod.split)

lemma sample_blocks:
  assumes "ports_keep_shutdown P" "app_power_manager_blocks_business w" "port_sample_usb P r b w = (x, y, w')"
  shows "app_power_manager_blocks_business w'"
  using assms unfolding ports_keep_shutdown_def by (metis snd_conv)

lemma note_blocks:
  assumes "ports_keep_shutdown P" "f \<in> set (port_notes P)" "app_power_manager_blocks_business w"
  shows "app_power_manager_blocks_business (f r w)"
  using assms unfolding ports_keep_shutdown_def by blast

lemma port_steps_in [simp]:
  "port_enter_prepare P \<in> set (port_steps P)" "port_enter_drain P \<in> set (port_steps P)"
  "port_enter_charge P \<in> set (port_steps P)" "port_enter_full P \<in> set (port_steps P)"
  "port_enter_io P \<in> set (port_steps P)" "port_enter_commit P \<in> set (port_steps P)"
  "port_enter_finish P \<in> set (port_steps P)" "port_restore_clock P \<in> set (port_steps P)"
  "port_restore_power P \<in> set (port_steps P)" "port_restore_flash P \<in> set (port_steps P)"
  "port_restore_runtime P \<in> set (port_steps P)" "port_restore_finish P \<in> set (port_steps P)"
  "port_cancel_clock P \<in> set (port_steps P)" "port_cancel_flash P \<in> set (port_steps P)"
  "port_cancel_runtime P \<in> set (port_steps P)" "port_cancel_finish P \<in> set (port_steps P)"
  "port_auto_factory P \<in> set (port_notes P)" "port_auto_usb P \<in> set (port_notes P)"
  "port_usb_restore_note P \<in> set (port_notes P)" "port_usb_refresh P \<in> set (port_notes P)"
  "port_usb_switch_note P \<in> set (port_notes P)"
  by (simp_all add: port_steps_def port_notes_def)

lemma poll_blocks:
  assumes P: "ports_keep_shutdown P" and b: "app_power_manager_blocks_business w"
  shows "app_power_manager_blocks_business (snd (app_standby_transaction_poll P w))"
proof -
  note e = on_enter_blocks [OF P]
  obtain r w1 where 1: "on_enter (port_enter_io P) w = (r, w1)" by (rule prod.exhaust)
  have b1: "app_power_manager_blocks_business w1" using e [of "port_enter_io P" w] b 1 by simp
  define w3 where "w3 = app_power_manager_report (if ac_charge_mode (pw_enter (w1\<lparr>pw_enter_pending := False\<rparr>))
    then STANDBY_CHARGE_PREPARED else STANDBY_FULL_PREPARED) (w1\<lparr>pw_enter_pending := False\<rparr>)"
  have b3: "app_power_manager_blocks_business w3" using b1 by (simp only: w3_def blocks_frame)
  obtain r4 w4 where 4: "on_enter (port_enter_commit P) w3 = (r4, w4)" by (rule prod.exhaust)
  have b4: "app_power_manager_blocks_business w4" using e [of "port_enter_commit P" w3] b3 4 by simp
  define w5 where "w5 = on_standby (\<lambda>s. s\<lparr>
      sb_enter_ms := (if pw_enter_reset_timer w4 \<or> sb_enter_ms s = 0 then ac_now_ms (pw_enter w4) else sb_enter_ms s),
      sb_housekeep_ms := (if ac_charge_mode (pw_enter w4) then 0 else ucast (ac_now_ms (pw_enter w4))),
      sb_stage := STANDBY_AUDIT\<rparr>) w4"
  have b5: "app_power_manager_blocks_business w5" using b4 by (simp only: w5_def blocks_frame)
  obtain r6 w6 where 6: "on_enter (port_enter_finish P) w5 = (r6, w6)" by (rule prod.exhaust)
  have b6: "app_power_manager_blocks_business w6" using e [of "port_enter_finish P" w5] b5 6 by simp
  have "app_standby_transaction_poll P w =
    (if \<not> pw_enter_pending w then (False, w) else if r = STEP_WAIT then (False, w1)
     else if r \<noteq> STEP_CONTINUE then standby_finish r (w1\<lparr>pw_enter_pending := False\<rparr>) else standby_finish r6 w6)"
    by (simp only: app_standby_transaction_poll_def Let_def 1 4 6 w3_def [symmetric] w5_def [symmetric] prod.case)
  then show ?thesis using b b1 b6 by (simp split: if_split)
qed

lemma finish_blocks:
  assumes "ports_keep_shutdown P" "f \<in> set (port_steps P)" "app_power_manager_blocks_business w"
  shows "app_power_manager_blocks_business (snd (case f a w of (r, _, w') \<Rightarrow> standby_finish r w'))"
  using step_blocks [OF assms] by (auto split: prod.split)

lemma sample_then_blocks:
  assumes "ports_keep_shutdown P" "app_power_manager_blocks_business w"
    and "\<And>x y w. app_power_manager_blocks_business w \<Longrightarrow> app_power_manager_blocks_business (snd (k x y w))"
  shows "app_power_manager_blocks_business (snd (case port_sample_usb P r b w of (x, y, w') \<Rightarrow> k x y w'))"
  using sample_blocks [OF assms(1,2)] assms(3) by (cases "port_sample_usb P r b w") auto

lemma request_then_blocks:
  assumes "app_power_manager_blocks_business w"
    and "\<And>x w. app_power_manager_blocks_business w \<Longrightarrow> app_power_manager_blocks_business (snd (k x w))"
  shows "app_power_manager_blocks_business
    (snd (case case app_power_manager_request r w of (x, w') \<Rightarrow> (f x, w') of (y, w') \<Rightarrow> k y w'))"
  using assms by (cases "app_power_manager_request r w") (metis blocks_frame(7) case_prod_conv snd_conv)

lemma enter_blocks:
  assumes P: "ports_keep_shutdown P" and b: "app_power_manager_blocks_business w"
  shows "app_power_manager_blocks_business (snd (app_standby_transaction_enter P tgt why rst cause w))"
  unfolding app_standby_transaction_enter_def Let_def
  using b by (auto split: if_split intro!: port_then_blocks [OF P] poll_blocks [OF P])

lemma restore_blocks:
  assumes P: "ports_keep_shutdown P" and b: "app_power_manager_blocks_business w"
  shows "app_power_manager_blocks_business (snd (app_standby_transaction_restore P why tgt cause w))"
  unfolding app_standby_transaction_restore_def Let_def
  using b by (auto split: if_split intro!: request_then_blocks port_then_blocks [OF P]
      finish_blocks [OF P] sample_then_blocks [OF P])

lemma cancel_blocks:
  assumes P: "ports_keep_shutdown P" and b: "app_power_manager_blocks_business w"
  shows "app_power_manager_blocks_business (snd (app_standby_transaction_cancel P why present cause w))"
  unfolding app_standby_transaction_cancel_def Let_def
  using b by (simp split: if_split) (auto intro!: port_then_blocks [OF P] finish_blocks [OF P])

lemma notes_block:
  assumes P: "ports_keep_shutdown P" and b: "app_power_manager_blocks_business w"
  shows "app_power_manager_blocks_business (port_auto_factory P r w)"
    "app_power_manager_blocks_business (port_auto_usb P r w)"
    "app_power_manager_blocks_business (port_usb_restore_note P r w)"
    "app_power_manager_blocks_business (port_usb_refresh P r w)"
    "app_power_manager_blocks_business (port_usb_switch_note P r w)"
  using b by (simp_all add: note_blocks [OF P])

lemma usb_blocks:
  assumes P: "ports_keep_shutdown P" and b: "app_power_manager_blocks_business w"
  shows "app_power_manager_blocks_business (snd (app_standby_transaction_usb P present why w))"
  using b by (simp add: app_standby_transaction_usb_def Let_def enter_blocks [OF P] restore_blocks [OF P]
      notes_block [OF P] split: if_split)

lemma auto_blocks:
  assumes P: "ports_keep_shutdown P" and b: "app_power_manager_blocks_business w"
  shows "app_power_manager_blocks_business (snd (app_standby_transaction_auto P why w))"
proof (cases "port_factory_active P w")
  case True
  then show ?thesis using b by (simp add: app_standby_transaction_auto_def notes_block [OF P])
next
  case False
  obtain x y w1 where s: "port_sample_usb P ''standby_auto'' False w = (x, y, w1)" by (rule prod_cases3)
  then have "app_power_manager_blocks_business w1" by (rule sample_blocks [OF P b])
  then show ?thesis
    using False s by (simp add: app_standby_transaction_auto_def enter_blocks [OF P] notes_block [OF P])
qed

lemma shutdown_ops_block:
  assumes "app_power_manager_blocks_business w"
  shows "app_power_manager_blocks_business (on_shutdown (app_shutdown_transaction_latch source rel) w)"
    "app_power_manager_blocks_business (on_shutdown app_shutdown_transaction_require_release w)"
    "app_power_manager_blocks_business (on_shutdown app_shutdown_transaction_note_release w)"
    "app_power_manager_blocks_business (on_shutdown app_shutdown_transaction_begin_quiescing w)"
    "app_power_manager_blocks_business (on_shutdown app_shutdown_transaction_wait_release w)"
    "app_power_manager_blocks_business (on_shutdown (app_shutdown_transaction_begin_commit usb) w)"
    "app_power_manager_blocks_business (on_shutdown (app_shutdown_transaction_note_terminal usb) w)"
    "app_power_manager_blocks_business (on_shutdown (app_shutdown_transaction_request_issued req) w)"
    "app_power_manager_blocks_business (on_shutdown app_shutdown_transaction_resources_invalidated w)"
    "app_power_manager_blocks_business (on_shutdown app_shutdown_transaction_resources_ready w)"
    "app_power_manager_blocks_business (on_shutdown (\<lambda>s. snd (app_shutdown_transaction_update_blockers b s)) w)"
    "app_power_manager_blocks_business (on_shutdown (\<lambda>s. snd (app_shutdown_transaction_note_retry now s)) w)"
    "app_power_manager_blocks_business (on_shutdown (app_shutdown_transaction_note_storage_fault t) w)"
  using assms
  by (simp_all add: app_power_manager_blocks_business_def app_shutdown_transaction_blocks_business_def
      app_shutdown_transaction_latch_def app_shutdown_transaction_require_release_def
      app_shutdown_transaction_note_release_def app_shutdown_transaction_begin_quiescing_def
      app_shutdown_transaction_wait_release_def app_shutdown_transaction_begin_commit_def
      app_shutdown_transaction_note_terminal_def app_shutdown_transaction_request_issued_def
      app_shutdown_transaction_resources_invalidated_def app_shutdown_transaction_resources_ready_def
      app_shutdown_transaction_update_blockers_def app_shutdown_transaction_note_retry_def Let_def
      app_shutdown_transaction_note_storage_fault_def)

lemma standby_ops_block:
  "app_power_manager_blocks_business (app_standby_transaction_clear w) = app_power_manager_blocks_business w"
  "app_power_manager_blocks_business (app_standby_transaction_housekeep t w) = app_power_manager_blocks_business w"
  "app_power_manager_blocks_business (app_standby_transaction_adc_normalize b w) = app_power_manager_blocks_business w"
  by (simp_all add: app_standby_transaction_clear_def app_standby_transaction_housekeep_def
      app_standby_transaction_adc_normalize_def)

interpretation latched: invariant_run app_power_manager_blocks_business "power_step P"
  app_power_manager_blocks_business for P
proof unfold_locales
  fix w w' :: "'a power_world" and P
  assume b: "app_power_manager_blocks_business w" and s: "power_step P w w'"
  show "app_power_manager_blocks_business w'"
    using s b
    by cases (simp_all only: shutdown_ops_block standby_ops_block blocks_frame enter_blocks poll_blocks
        auto_blocks usb_blocks restore_blocks cancel_blocks)
qed

section \<open>The gate\<close>

definition standby_refused :: "bool \<times> 'e power_world \<Rightarrow> 'e power_world \<Rightarrow> bool" where
  "standby_refused x w \<longleftrightarrow> \<not> fst x \<and> sb_result (pw_standby (snd x)) = POWER_FORBIDDEN \<and>
     pw_env (snd x) = pw_env w \<and> pw_shutdown (snd x) = pw_shutdown w \<and>
     app_power_manager_mode (snd x) = app_power_manager_mode w"

lemma restore_refused:
  assumes "app_power_manager_blocks_business w" "port_shutdown_guard_enabled P"
    and "app_power_manager_is_standby (if pw_enter_pending w then ac_target_state (pw_enter w)
      else app_power_manager_mode w)"
  shows "standby_refused (app_standby_transaction_restore P why tgt cause w) w"
  using assms
  by (cases "pw_enter_pending w")
    (simp_all add: standby_refused_def app_standby_transaction_restore_def Let_def
      app_power_manager_request_def app_power_manager_mode_def app_power_manager_blocks_business_def)

lemma cancel_refused:
  assumes "app_power_manager_blocks_business w" "port_shutdown_guard_enabled P"
  shows "standby_refused (app_standby_transaction_cancel P why present cause w) w"
  using assms
  by (simp add: standby_refused_def app_standby_transaction_cancel_def Let_def app_power_manager_mode_def
      app_power_manager_blocks_business_def)

section \<open>Properties\<close>


text \<open>Ports that do nothing and a system in standby whose button was pressed long.\<close>

definition quiet_ports :: "unit standby_ports" where
  "quiet_ports = \<lparr>port_now = \<lambda>_. 5, port_pairing_active = \<lambda>_. False, port_reset_active = \<lambda>_. False,
     port_shutdown_guard_enabled = True, port_factory_active = \<lambda>_. False,
     port_sample_usb = \<lambda>_ _ w. (True, False, w), port_auto_factory = \<lambda>_ w. w, port_auto_usb = \<lambda>_ w. w,
     port_usb_restore_note = \<lambda>_ w. w, port_usb_refresh = \<lambda>_ w. w, port_usb_switch_note = \<lambda>_ w. w,
     port_enter_prepare = \<lambda>a w. (STEP_CONTINUE, a, w), port_enter_drain = \<lambda>a w. (STEP_CONTINUE, a, w),
     port_enter_charge = \<lambda>a w. (STEP_CONTINUE, a, w), port_enter_full = \<lambda>a w. (STEP_CONTINUE, a, w),
     port_enter_io = \<lambda>a w. (STEP_CONTINUE, a, w), port_enter_commit = \<lambda>a w. (STEP_CONTINUE, a, w),
     port_enter_finish = \<lambda>a w. (STEP_COMPLETE, a, w), port_restore_clock = \<lambda>a w. (STEP_CONTINUE, a, w),
     port_restore_power = \<lambda>a w. (STEP_CONTINUE, a, w), port_restore_flash = \<lambda>a w. (STEP_CONTINUE, a, w),
     port_restore_runtime = \<lambda>a w. (STEP_CONTINUE, a, w), port_restore_finish = \<lambda>a w. (STEP_COMPLETE, a, w),
     port_cancel_clock = \<lambda>a w. (STEP_CONTINUE, a, w), port_cancel_flash = \<lambda>a w. (STEP_CONTINUE, a, w),
     port_cancel_runtime = \<lambda>a w. (STEP_CONTINUE, a, w), port_cancel_finish = \<lambda>a w. (STEP_COMPLETE, a, w)\<rparr>"

definition demo_power :: "unit power_world" where
  "demo_power = \<lparr>pw_power = \<lparr>pm_mode = STATE_STANDBY_FULL, pm_last_request = REQUEST_STANDBY,
       pm_last_result = POWER_ACCEPTED, pm_last_report = STANDBY_FULL_PREPARED\<rparr>,
     pw_shutdown = app_shutdown_transaction_latch SOURCE_BUTTON_LONG_PRESS True
       \<lparr>sh_phase = PHASE_IDLE, sh_source = SOURCE_NONE, sh_request_mask = 0, sh_blocker_mask = 0,
         sh_release_required = False, sh_release_seen = False, sh_target_usb_present = False,
         sh_resources_ready = False, sh_retry_count = 0, sh_last_retry_log_ms = 0,
         sh_storage_fault_exit = False, sh_storage_fault_ms = 0\<rparr>,
     pw_standby = \<lparr>sb_enter_ms = 1, sb_housekeep_ms = 1, sb_adc_normalize_pending = False,
       sb_stage = STANDBY_COMPLETE, sb_cause = CAUSE_IDLE, sb_result = POWER_ACCEPTED\<rparr>,
     pw_enter = zero_action, pw_enter_pending = False, pw_enter_reset_timer = False, pw_env = ()\<rparr>"

lemma quiet_keep: "ports_keep_shutdown quiet_ports"
  by (simp add: ports_keep_shutdown_def port_steps_def port_notes_def quiet_ports_def)


end
